(* ===== verification/Prelude.thy ===== *)
theory Prelude
  imports Main "HOL-Library.Word" "HOL-Library.State_Monad"
begin

text \<open>
  Shared vocabulary of the development: the machine integer types of the C code, the
  type of programs (state transformers of the library's state monad), the collections
  of rules the proofs use, and facts on lists and preorders that several components need.

  \<^item> \<open>prog_sat\<close> collects the rules showing that a program relates its start and end
    state by a preorder (locale \<open>step_rel\<close>);
  \<^item> \<open>quiet_simps\<close> collects the equations of a call in a world whose system calls
    meet no injected fault;
  \<^item> \<open>mem_simps\<close> collects the read-over-write equations of the C structures.
\<close>

type_synonym u8 = "8 word"
type_synonym u16 = "16 word"
type_synonym u32 = "32 word"

named_theorems prog_sat "programs that relate their start and end state by a preorder"
named_theorems quiet_simps "calls in a world without injected faults"
named_theorems mem_simps "reading a C structure after writing it"

subsection \<open>Characters and lists\<close>

abbreviation NUL :: char where "NUL \<equiv> CHR 0x00"
abbreviation LF :: char where "LF \<equiv> CHR 0x0A"

text \<open>A C string of the program: what stands before the first zero byte.\<close>

definition c_string :: "char list \<Rightarrow> bool" where
  "c_string s \<longleftrightarrow> NUL \<notin> set s"

text \<open>A string that can travel as one line of the protocol: \<^verbatim>\<open>read_line\<close> stops at
  a zero byte or at a line feed.\<close>

definition wire_string :: "char list \<Rightarrow> bool" where
  "wire_string s \<longleftrightarrow> NUL \<notin> set s \<and> LF \<notin> set s"

lemma wire_c_string [intro]: "wire_string s \<Longrightarrow> c_string s"
  by (simp add: wire_string_def c_string_def)

lemma c_string_append [simp]: "c_string (s @ t) \<longleftrightarrow> c_string s \<and> c_string t"
  by (auto simp: c_string_def)

lemma c_string_Nil [simp]: "c_string []"
  by (simp add: c_string_def)

lemma c_string_Cons [simp]: "c_string (c # s) \<longleftrightarrow> c \<noteq> NUL \<and> c_string s"
  by (auto simp: c_string_def)

lemma wire_string_Nil [simp]: "wire_string []"
  by (simp add: wire_string_def)

lemma wire_string_Cons [simp]: "wire_string (c # s) \<longleftrightarrow> c \<noteq> NUL \<and> c \<noteq> LF \<and> wire_string s"
  by (auto simp: wire_string_def)

lemma takeWhile_stop:
  "(\<forall>x\<in>set xs. P x) \<Longrightarrow> \<not> P y \<Longrightarrow> takeWhile P (xs @ y # ys) = xs"
  by (induction xs) auto

lemma drop_take_disjoint: "a + k \<le> b \<Longrightarrow> take k (drop a (take b xs)) = take k (drop a xs)"
  by (simp add: drop_take min_def)

subsection \<open>Decimal numerals\<close>

text \<open>\<^verbatim>\<open>%u\<close> of \<^verbatim>\<open>sprintf\<close>: the decimal digits of an unsigned value.\<close>

definition digit_char :: "nat \<Rightarrow> char" where
  "digit_char d = char_of (48 + d)"

fun show_nat :: "nat \<Rightarrow> string" where
  "show_nat n = (if n < 10 then [digit_char n] else show_nat (n div 10) @ [digit_char (n mod 10)])"

declare show_nat.simps [simp del]

definition is_digit :: "char \<Rightarrow> bool" where
  "is_digit c \<longleftrightarrow> 48 \<le> (of_char c :: nat) \<and> (of_char c :: nat) \<le> 57"

definition digit_val :: "char \<Rightarrow> nat" where
  "digit_val c = of_char c - 48"

lemma of_digit_char: "d < 10 \<Longrightarrow> of_char (digit_char d) = 48 + d"
  by (simp add: digit_char_def)

lemma is_digit_digit_char [simp]: "d < 10 \<Longrightarrow> is_digit (digit_char d)"
  by (simp add: is_digit_def of_digit_char)

lemma digit_val_digit_char [simp]: "d < 10 \<Longrightarrow> digit_val (digit_char d) = d"
  by (simp add: digit_val_def of_digit_char)

lemma is_digit_not [simp]:
  "\<not> is_digit NUL" "\<not> is_digit LF" "\<not> is_digit (CHR 0x2F)" "\<not> is_digit (CHR ''.'')"
  "\<not> is_digit (CHR ''-'')" "\<not> is_digit (CHR ''+'')" "\<not> is_digit (CHR '' '')"
  by (simp_all add: is_digit_def)

lemma show_nat_nonempty [simp]: "show_nat n \<noteq> []"
  by (subst show_nat.simps) simp

lemma show_nat_digits: "\<forall>c\<in>set (show_nat n). is_digit c"
proof (induction n rule: show_nat.induct)
  case (1 n)
  then show ?case
    by (cases "n < 10") (auto simp: show_nat.simps [of n])
qed

lemma show_nat_wire: "wire_string (show_nat n)"
  using show_nat_digits [of n] by (auto simp: wire_string_def)

lemma show_nat_c_string [simp]: "c_string (show_nat n)"
  using show_nat_wire by blast

lemma show_nat_length_bound: "n < 10 ^ k \<Longrightarrow> 0 < k \<Longrightarrow> length (show_nat n) \<le> k"
proof (induction n arbitrary: k rule: show_nat.induct)
  case (1 n k)
  show ?case
  proof (cases "n < 10")
    case True
    with "1.prems" show ?thesis by (simp add: show_nat.simps [of n])
  next
    case False
    with "1.prems" obtain j where j: "k = Suc j" "0 < j"
      by (cases k; cases "k - 1") auto
    with "1.prems" have "n div 10 < 10 ^ j" by (simp add: less_mult_imp_div_less mult.commute)
    with False j "1.IH" show ?thesis by (simp add: show_nat.simps [of n])
  qed
qed

subsection \<open>Preorders kept by programs\<close>

text \<open>
  A relation between the state before and after a program run. Whatever is reflexive and
  transitive and holds of the primitive calls holds of every program built from them; the
  library instantiates it with several relations, see \<open>Posix\<close>.
\<close>

locale step_rel =
  fixes R :: "'s \<Rightarrow> 's \<Rightarrow> bool"
  assumes R_refl: "R s s"
    and R_trans: "R s t \<Longrightarrow> R t u \<Longrightarrow> R s u"
begin

lemma sat_return [prog_sat]: "state_io_rel R (State_Monad.return x)"
  by (simp add: state_io_rel_def R_refl)

lemma sat_bind [prog_sat]:
  assumes "state_io_rel R m" and "\<And>a. state_io_rel R (f a)"
  shows "state_io_rel R (State_Monad.bind m f)"
  using assms by (auto simp: state_io_rel_def split: prod.splits intro: R_trans)

lemma sat_if [prog_sat]:
  "(b \<Longrightarrow> state_io_rel R m) \<Longrightarrow> (\<not> b \<Longrightarrow> state_io_rel R n) \<Longrightarrow> state_io_rel R (if b then m else n)"
  by simp

lemma sat_option [prog_sat]:
  "(x = None \<Longrightarrow> state_io_rel R m) \<Longrightarrow> (\<And>a. x = Some a \<Longrightarrow> state_io_rel R (f a)) \<Longrightarrow>
   state_io_rel R (case x of None \<Rightarrow> m | Some a \<Rightarrow> f a)"
  by (cases x) simp_all

lemma sat_prod [prog_sat]:
  "(\<And>a b. x = (a, b) \<Longrightarrow> state_io_rel R (f a b)) \<Longrightarrow> state_io_rel R (case x of (a, b) \<Rightarrow> f a b)"
  by (cases x) simp_all

lemma sat_Let [prog_sat]: "state_io_rel R (f x) \<Longrightarrow> state_io_rel R (Let x f)"
  by simp

lemma sat_get [prog_sat]: "state_io_rel R State_Monad.get"
  by (simp add: state_io_rel_def R_refl)

lemma sat_run: "state_io_rel R m \<Longrightarrow> run_state m s = (a, t) \<Longrightarrow> R s t"
  by (rule state_io_relD)

lemma sat_snd: "state_io_rel R m \<Longrightarrow> R s (snd (run_state m s))"
  by (auto simp: state_io_rel_def)

end

end
