(* ===== verification/Memory.thy ===== *)
theory Memory
  imports Prelude
begin

text \<open>
  The C structures of the program as the bytes they occupy. The program writes whole
  structures to disk and reads them back (\<^verbatim>\<open>write_bytes(fd, (char * ) entry, sizeof(entry_t))\<close>),
  overlays members by unions, and leaves members and stack variables uninitialised, so a
  structure is modelled as its memory, a list of bytes, and a member as an offset into it.
  A byte is a \<^typ>\<open>char\<close>, so strings need no conversion. Integers are little endian, as on
  the amd64 platform that \<^verbatim>\<open>util.h\<close> names.
\<close>

type_synonym mem = "char list"

definition peek :: "nat \<Rightarrow> nat \<Rightarrow> mem \<Rightarrow> mem" where
  "peek off k m = take k (drop off m)"

definition poke :: "nat \<Rightarrow> mem \<Rightarrow> mem \<Rightarrow> mem" where
  "poke off bs m = take off m @ bs @ drop (off + length bs) m"

text \<open>Reading a \<^verbatim>\<open>char *\<close> as a string: up to the first zero byte, whatever the size of
  the member it starts in.\<close>

definition cstr :: "nat \<Rightarrow> mem \<Rightarrow> string" where
  "cstr off m = takeWhile (\<lambda>c. c \<noteq> NUL) (drop off m)"

text \<open>\<^verbatim>\<open>strcpy\<close> into the member at an offset: the string and its terminating zero.\<close>

definition strcpy :: "nat \<Rightarrow> string \<Rightarrow> mem \<Rightarrow> mem" where
  "strcpy off s m = poke off (s @ [NUL]) m"

fun enc_le :: "nat \<Rightarrow> nat \<Rightarrow> mem" where
  "enc_le 0 v = []"
| "enc_le (Suc k) v = char_of v # enc_le k (v div 256)"

fun dec_le :: "mem \<Rightarrow> nat" where
  "dec_le [] = 0"
| "dec_le (c # cs) = of_char c + 256 * dec_le cs"

lemma length_enc_le [simp]: "length (enc_le k v) = k"
  by (induction k arbitrary: v) auto

lemma dec_enc_le: "dec_le (enc_le k v) = v mod 256 ^ k"
proof (induction k arbitrary: v)
  case 0
  then show ?case by simp
next
  case (Suc k)
  have "v mod 256 ^ Suc k = v mod 256 + 256 * (v div 256 mod 256 ^ k)"
    by (simp add: mod_mult2_eq)
  with Suc show ?case by simp
qed

definition get_u8 :: "nat \<Rightarrow> mem \<Rightarrow> u8" where
  "get_u8 off m = word_of_nat (dec_le (peek off 1 m))"

definition set_u8 :: "nat \<Rightarrow> u8 \<Rightarrow> mem \<Rightarrow> mem" where
  "set_u8 off v m = poke off (enc_le 1 (unat v)) m"

definition get_u16 :: "nat \<Rightarrow> mem \<Rightarrow> u16" where
  "get_u16 off m = word_of_nat (dec_le (peek off 2 m))"

definition set_u16 :: "nat \<Rightarrow> u16 \<Rightarrow> mem \<Rightarrow> mem" where
  "set_u16 off v m = poke off (enc_le 2 (unat v)) m"

definition get_u32 :: "nat \<Rightarrow> mem \<Rightarrow> u32" where
  "get_u32 off m = word_of_nat (dec_le (peek off 4 m))"

definition set_u32 :: "nat \<Rightarrow> u32 \<Rightarrow> mem \<Rightarrow> mem" where
  "set_u32 off v m = poke off (enc_le 4 (unat v)) m"

subsection \<open>Reads and writes of byte ranges\<close>

lemma length_peek [simp]: "off + k \<le> length m \<Longrightarrow> length (peek off k m) = k"
  by (simp add: peek_def)

lemma length_poke [simp]: "off + length bs \<le> length m \<Longrightarrow> length (poke off bs m) = length m"
  by (simp add: poke_def)

lemma peek_poke_same:
  "off + length bs \<le> length m \<Longrightarrow> k = length bs \<Longrightarrow> peek off k (poke off bs m) = bs"
  by (simp add: peek_def poke_def min_def)

lemma peek_poke_other:
  assumes "off' + k \<le> off \<or> off + length bs \<le> off'" and "off + length bs \<le> length m"
  shows "peek off' k (poke off bs m) = peek off' k m"
  using assms(1)
proof
  assume "off' + k \<le> off"
  with assms(2) show ?thesis by (simp add: peek_def poke_def drop_take_disjoint)
next
  assume "off + length bs \<le> off'"
  with assms(2) show ?thesis by (simp add: peek_def poke_def min_def)
qed

lemma poke_extend:
  "off + length bs < length m \<Longrightarrow>
   poke (off + length bs) [c] (poke off bs m) = poke off (bs @ [c]) m"
  by (simp add: poke_def min_def)

lemma poke_Nil [simp]: "poke off [] m = m"
  by (simp add: poke_def)

lemma poke_whole: "length bs = length m \<Longrightarrow> poke 0 bs m = bs"
  by (simp add: poke_def)

lemma drop_poke_after:
  "off + length bs \<le> off' \<Longrightarrow> off + length bs \<le> length m \<Longrightarrow> drop off' (poke off bs m) = drop off' m"
  by (simp add: poke_def)

subsection \<open>Strings in memory\<close>

lemma c_string_cstr [simp]: "c_string (cstr off m)"
  by (auto simp: c_string_def cstr_def dest: set_takeWhileD)

lemma length_strcpy [simp]:
  "off + length s < length m \<Longrightarrow> length (strcpy off s m) = length m"
  by (simp add: strcpy_def)

lemma cstr_poke_same:
  "off + length s < length m \<Longrightarrow> c_string s \<Longrightarrow> cstr off (poke off (s @ [NUL]) m) = s"
  by (auto simp: cstr_def poke_def c_string_def takeWhile_append)

lemma cstr_poke_before:
  "off + length bs \<le> off' \<Longrightarrow> off + length bs \<le> length m \<Longrightarrow> cstr off' (poke off bs m) = cstr off' m"
  by (simp add: cstr_def drop_poke_after)

lemma takeWhile_take:
  "length (takeWhile P xs) < n \<Longrightarrow> n \<le> length xs \<Longrightarrow> takeWhile P (take n xs @ ys) = takeWhile P xs"
proof (induction xs arbitrary: n)
  case Nil
  then show ?case by simp
next
  case (Cons x xs)
  then show ?case by (cases n) (auto split: if_splits)
qed

text \<open>A string is untouched by a write behind its terminating zero.\<close>

lemma cstr_poke_after:
  assumes "off' + length (cstr off' m) < off" and "off + length bs \<le> length m"
  shows "cstr off' (poke off bs m) = cstr off' m"
proof -
  have "drop off' (poke off bs m) = take (off - off') (drop off' m) @ bs @ drop (off + length bs) m"
    using assms by (simp add: poke_def drop_take)
  then show ?thesis
    using assms by (simp add: cstr_def takeWhile_take)
qed

lemma cstr_strcpy_same [mem_simps]:
  "off + length s < length m \<Longrightarrow> c_string s \<Longrightarrow> cstr off (strcpy off s m) = s"
  by (simp add: strcpy_def cstr_poke_same)

lemma word_of_unat_mod [simp]:
  "word_of_nat (unat (v :: u8) mod 256) = v"
  "word_of_nat (unat (w :: u16) mod 65536) = w"
  "word_of_nat (unat (x :: u32) mod 4294967296) = x"
  using unsigned_less [of v, where ?'a = nat] unsigned_less [of w, where ?'a = nat] unsigned_less [of x, where ?'a = nat] by simp_all

subsection \<open>Integer members\<close>

text \<open>
  What a member of an integer type promises: a value written is read back, and the write
  of another member's bytes leaves it alone. Each integer width provides it.
\<close>

locale int_member =
  fixes width :: nat
    and get :: "nat \<Rightarrow> mem \<Rightarrow> 'v"
    and set_at :: "nat \<Rightarrow> 'v \<Rightarrow> mem \<Rightarrow> mem"
    and enc :: "'v \<Rightarrow> mem"
    and dec :: "mem \<Rightarrow> 'v"
  assumes get_peek: "get off m = dec (peek off width m)"
    and set_poke: "set_at off v m = poke off (enc v) m"
    and length_enc: "length (enc v) = width"
    and dec_enc: "dec (enc v) = v"
begin

lemma get_set: "off + width \<le> length m \<Longrightarrow> get off (set_at off v m) = v"
  by (simp add: get_peek set_poke peek_poke_same length_enc dec_enc)

lemma get_poke:
  "off + length bs \<le> length m \<Longrightarrow> off' + width \<le> off \<or> off + length bs \<le> off' \<Longrightarrow>
   get off' (poke off bs m) = get off' m"
  by (subst (1 2) get_peek) (simp add: peek_poke_other)

lemma get_strcpy:
  "off + length s < length m \<Longrightarrow> off' + width \<le> off \<or> off + length s < off' \<Longrightarrow>
   get off' (strcpy off s m) = get off' m"
  using get_poke [of off "s @ [NUL]" m off'] by (auto simp: strcpy_def)

lemma length_set: "off + width \<le> length m \<Longrightarrow> length (set_at off v m) = length m"
  by (simp add: set_poke length_enc)

lemma cstr_set_after:
  "off + width \<le> length m \<Longrightarrow> off' + length (cstr off' m) < off \<Longrightarrow>
   cstr off' (set_at off v m) = cstr off' m"
  by (simp add: set_poke cstr_poke_after length_enc)

lemma cstr_set_before:
  "off + width \<le> length m \<Longrightarrow> off + width \<le> off' \<Longrightarrow> cstr off' (set_at off v m) = cstr off' m"
  by (simp add: set_poke cstr_poke_before length_enc)

lemma peek_set_other:
  "off + width \<le> length m \<Longrightarrow> off' + k \<le> off \<or> off + width \<le> off' \<Longrightarrow>
   peek off' k (set_at off v m) = peek off' k m"
  by (simp add: set_poke peek_poke_other length_enc)

end

interpretation m8: int_member 1 get_u8 set_u8 "\<lambda>v. enc_le 1 (unat v)" "\<lambda>bs. word_of_nat (dec_le bs)"
  by unfold_locales (simp_all add: get_u8_def set_u8_def dec_enc_le)

interpretation m16: int_member 2 get_u16 set_u16 "\<lambda>v. enc_le 2 (unat v)" "\<lambda>bs. word_of_nat (dec_le bs)"
  by unfold_locales (simp_all add: get_u16_def set_u16_def dec_enc_le)

interpretation m32: int_member 4 get_u32 set_u32 "\<lambda>v. enc_le 4 (unat v)" "\<lambda>bs. word_of_nat (dec_le bs)"
  by unfold_locales (simp_all add: get_u32_def set_u32_def dec_enc_le)

text \<open>Two integer members of different widths at disjoint places do not interfere.\<close>

locale int_member_pair =
  a: int_member wa geta seta enca deca + b: int_member wb getb setb encb decb
  for wa geta and seta :: "nat \<Rightarrow> 'v \<Rightarrow> mem \<Rightarrow> mem" and enca deca
    and wb getb and setb :: "nat \<Rightarrow> 'w \<Rightarrow> mem \<Rightarrow> mem" and encb decb
begin

lemma get_set_other:
  "off + wb \<le> length m \<Longrightarrow> off' + wa \<le> off \<or> off + wb \<le> off' \<Longrightarrow>
   geta off' (setb off v m) = geta off' m"
  by (simp add: b.set_poke a.get_poke b.length_enc)

end

interpretation p8_8: int_member_pair 1 get_u8 set_u8 "\<lambda>v. enc_le 1 (unat v)" "\<lambda>bs. word_of_nat (dec_le bs)"
  1 get_u8 set_u8 "\<lambda>v. enc_le 1 (unat v)" "\<lambda>bs. word_of_nat (dec_le bs)" ..

interpretation p8_16: int_member_pair 1 get_u8 set_u8 "\<lambda>v. enc_le 1 (unat v)" "\<lambda>bs. word_of_nat (dec_le bs)"
  2 get_u16 set_u16 "\<lambda>v. enc_le 2 (unat v)" "\<lambda>bs. word_of_nat (dec_le bs)" ..

interpretation p8_32: int_member_pair 1 get_u8 set_u8 "\<lambda>v. enc_le 1 (unat v)" "\<lambda>bs. word_of_nat (dec_le bs)"
  4 get_u32 set_u32 "\<lambda>v. enc_le 4 (unat v)" "\<lambda>bs. word_of_nat (dec_le bs)" ..

interpretation p16_8: int_member_pair 2 get_u16 set_u16 "\<lambda>v. enc_le 2 (unat v)" "\<lambda>bs. word_of_nat (dec_le bs)"
  1 get_u8 set_u8 "\<lambda>v. enc_le 1 (unat v)" "\<lambda>bs. word_of_nat (dec_le bs)" ..

interpretation p16_32: int_member_pair 2 get_u16 set_u16 "\<lambda>v. enc_le 2 (unat v)" "\<lambda>bs. word_of_nat (dec_le bs)"
  4 get_u32 set_u32 "\<lambda>v. enc_le 4 (unat v)" "\<lambda>bs. word_of_nat (dec_le bs)" ..

interpretation p32_8: int_member_pair 4 get_u32 set_u32 "\<lambda>v. enc_le 4 (unat v)" "\<lambda>bs. word_of_nat (dec_le bs)"
  1 get_u8 set_u8 "\<lambda>v. enc_le 1 (unat v)" "\<lambda>bs. word_of_nat (dec_le bs)" ..

interpretation p32_16: int_member_pair 4 get_u32 set_u32 "\<lambda>v. enc_le 4 (unat v)" "\<lambda>bs. word_of_nat (dec_le bs)"
  2 get_u16 set_u16 "\<lambda>v. enc_le 2 (unat v)" "\<lambda>bs. word_of_nat (dec_le bs)" ..

interpretation p32_32: int_member_pair 4 get_u32 set_u32 "\<lambda>v. enc_le 4 (unat v)" "\<lambda>bs. word_of_nat (dec_le bs)"
  4 get_u32 set_u32 "\<lambda>v. enc_le 4 (unat v)" "\<lambda>bs. word_of_nat (dec_le bs)" ..

lemmas member_get = m8.get_set m16.get_set m32.get_set
  p8_8.get_set_other p8_16.get_set_other p8_32.get_set_other p16_8.get_set_other p16_32.get_set_other
  p32_8.get_set_other p32_16.get_set_other p32_32.get_set_other
  m8.get_strcpy m16.get_strcpy m32.get_strcpy

lemmas member_length = m8.length_set m16.length_set m32.length_set

lemmas member_cstr = m8.cstr_set_after m16.cstr_set_after m32.cstr_set_after
  m8.cstr_set_before m16.cstr_set_before m32.cstr_set_before

lemma cstr_strcpy_after:
  "off' + length (cstr off' m) < off \<Longrightarrow> off + length s < length m \<Longrightarrow>
   cstr off' (strcpy off s m) = cstr off' m"
  by (simp add: strcpy_def cstr_poke_after)

lemma cstr_strcpy_before:
  "off + length s < off' \<Longrightarrow> off + length s < length m \<Longrightarrow> cstr off' (strcpy off s m) = cstr off' m"
  by (simp add: strcpy_def cstr_poke_before)

declare member_get [mem_simps] member_length [mem_simps] member_cstr [mem_simps]
  cstr_strcpy_after [mem_simps] cstr_strcpy_before [mem_simps]

end
