(* ===== verification/UtilH.thy ===== *)
theory UtilH
  imports Memory
begin

text \<open>
  The header \<^verbatim>\<open>include/DS-Lab-Assignment/util.h\<close>: sizes, operation codes, error codes, file
  modes, database schema, and the structures \<^verbatim>\<open>request_t\<close> and \<^verbatim>\<open>entry_t\<close> with the byte
  offsets of their members (amd64: four-byte \<^verbatim>\<open>int\<close>, natural alignment). \<^verbatim>\<open>reply_t\<close> is
  its single byte, a \<^typ>\<open>u8\<close>. Function results are C \<^verbatim>\<open>int\<close>s, modelled as \<^typ>\<open>int\<close>:
  the program only returns small constants, byte counts and descriptors.
\<close>

subsection \<open>Sizes\<close>

definition MAX_STR_SIZE :: nat where "MAX_STR_SIZE = 512"
definition MAX_MSG_SIZE :: nat where "MAX_MSG_SIZE = 256"
definition MSG_ID_MAX_VALUE :: nat where "MSG_ID_MAX_VALUE = 4294967295"
definition MSG_ID_MAX_STR_SIZE :: nat where "MSG_ID_MAX_STR_SIZE = 10"

subsection \<open>Operation codes\<close>

definition REGISTER :: string where "REGISTER = ''REGISTER''"
definition UNREGISTER :: string where "UNREGISTER = ''UNREGISTER''"
definition CONNECT :: string where "CONNECT = ''CONNECT''"
definition DISCONNECT :: string where "DISCONNECT = ''DISCONNECT''"
definition SEND :: string where "SEND = ''SEND''"
definition SEND_MESSAGE :: string where "SEND_MESSAGE = ''SEND_MESSAGE''"
definition SEND_MESS_ACK :: string where "SEND_MESS_ACK = ''SEND_MESS_ACK''"

subsection \<open>Error codes\<close>

definition GEN_ERR_ANY :: int where "GEN_ERR_ANY = -1"
definition GEN_ERR_INV_ARGS :: int where "GEN_ERR_INV_ARGS = -2"

definition SRV_SUCCESS :: u8 where "SRV_SUCCESS = 0"
definition SRV_ERR_REG_USR_ALREADY_REG :: u8 where "SRV_ERR_REG_USR_ALREADY_REG = 1"
definition SRV_ERR_REG_ANY :: u8 where "SRV_ERR_REG_ANY = 2"
definition SRV_ERR_UNREG_USR_NOT_EXISTS :: u8 where "SRV_ERR_UNREG_USR_NOT_EXISTS = 1"
definition SRV_ERR_UNREG_ANY :: u8 where "SRV_ERR_UNREG_ANY = 2"
definition SRV_ERR_CN_USR_NOT_EXISTS :: u8 where "SRV_ERR_CN_USR_NOT_EXISTS = 1"
definition SRV_ERR_CN_USR_ALREADY_CN :: u8 where "SRV_ERR_CN_USR_ALREADY_CN = 2"
definition SRV_ERR_CN_ANY :: u8 where "SRV_ERR_CN_ANY = 3"
definition SRV_ERR_DCN_USR_NOT_EXISTS :: u8 where "SRV_ERR_DCN_USR_NOT_EXISTS = 1"
definition SRV_ERR_DCN_USR_NOT_CN :: u8 where "SRV_ERR_DCN_USR_NOT_CN = 2"
definition SRV_ERR_DCN_ANY :: u8 where "SRV_ERR_DCN_ANY = 3"
definition SRV_ERR_SEND_USR_NOT_EXISTS :: u8 where "SRV_ERR_SEND_USR_NOT_EXISTS = 1"
definition SRV_ERR_SEND_ANY :: u8 where "SRV_ERR_SEND_ANY = 2"

definition DBMS_SUCCESS :: int where "DBMS_SUCCESS = 100"
definition DBMS_ERR_ANY :: int where "DBMS_ERR_ANY = -100"
definition DBMS_ERR_NOT_EXISTS :: int where "DBMS_ERR_NOT_EXISTS = -101"
definition DBMS_ERR_EXISTS :: int where "DBMS_ERR_EXISTS = -102"

definition STATUS_DCN :: u8 where "STATUS_DCN = 0"
definition STATUS_CN :: u8 where "STATUS_CN = 1"

lemmas err_defs = GEN_ERR_ANY_def GEN_ERR_INV_ARGS_def DBMS_SUCCESS_def DBMS_ERR_ANY_def
  DBMS_ERR_NOT_EXISTS_def DBMS_ERR_EXISTS_def

lemmas srv_defs = SRV_SUCCESS_def SRV_ERR_REG_USR_ALREADY_REG_def SRV_ERR_REG_ANY_def
  SRV_ERR_UNREG_USR_NOT_EXISTS_def SRV_ERR_UNREG_ANY_def SRV_ERR_CN_USR_NOT_EXISTS_def
  SRV_ERR_CN_USR_ALREADY_CN_def SRV_ERR_CN_ANY_def SRV_ERR_DCN_USR_NOT_EXISTS_def
  SRV_ERR_DCN_USR_NOT_CN_def SRV_ERR_DCN_ANY_def SRV_ERR_SEND_USR_NOT_EXISTS_def
  SRV_ERR_SEND_ANY_def STATUS_DCN_def STATUS_CN_def

subsection \<open>File modes and database schema\<close>

definition READ :: char where "READ = CHR ''r''"
definition CREATE :: char where "CREATE = CHR ''c''"
definition OVERWRITE :: char where "OVERWRITE = CHR ''o''"
definition MODIFY :: char where "MODIFY = CHR ''m''"
definition DELETE :: char where "DELETE = CHR ''d''"

definition DB_DIR :: string where "DB_DIR = ''users''"
definition USERDATA_ENTRY :: string where "USERDATA_ENTRY = ''userdata.entry''"
definition PEND_MSGS_TABLE :: string where "PEND_MSGS_TABLE = ''pend_msgs-table''"

definition ENT_TYPE_UD :: char where "ENT_TYPE_UD = CHR ''u''"
definition ENT_TYPE_P_MSG :: char where "ENT_TYPE_P_MSG = CHR ''m''"

definition INT_TYPE :: char where "INT_TYPE = CHR ''i''"
definition UINT_TYPE :: char where "UINT_TYPE = CHR ''u''"
definition FLOAT_TYPE :: char where "FLOAT_TYPE = CHR ''f''"

lemmas mode_defs = READ_def CREATE_def OVERWRITE_def MODIFY_def DELETE_def
lemmas type_defs = ENT_TYPE_UD_def ENT_TYPE_P_MSG_def
lemmas cast_defs = INT_TYPE_def UINT_TYPE_def FLOAT_TYPE_def
lemmas op_defs = REGISTER_def UNREGISTER_def CONNECT_def DISCONNECT_def SEND_def
  SEND_MESSAGE_def SEND_MESS_ACK_def

subsection \<open>\<^verbatim>\<open>request_t\<close>\<close>

text \<open>
  Offsets of the members. The anonymous union overlays \<^verbatim>\<open>username\<close> with \<^verbatim>\<open>recipient\<close> and
  \<^verbatim>\<open>client_port\<close> with \<^verbatim>\<open>message.sender\<close>: the same bytes.
\<close>

definition sizeof_request :: nat where "sizeof_request = 1796"
definition rq_op_code :: nat where "rq_op_code = 0"
definition rq_username :: nat where "rq_username = 512"
definition rq_client_port :: nat where "rq_client_port = 1024"
definition rq_recipient :: nat where "rq_recipient = 512"
definition rq_sender :: nat where "rq_sender = 1024"
definition rq_msg_id :: nat where "rq_msg_id = 1536"
definition rq_content :: nat where "rq_content = 1540"

lemmas rq_defs = sizeof_request_def rq_op_code_def rq_username_def rq_client_port_def
  rq_recipient_def rq_sender_def rq_msg_id_def rq_content_def

subsection \<open>\<^verbatim>\<open>entry_t\<close>\<close>

text \<open>
  \<^verbatim>\<open>username\<close>, \<^verbatim>\<open>type\<close>, then (aligned to four) the union of \<^verbatim>\<open>struct userdata\<close> and
  \<^verbatim>\<open>message_t\<close>.
\<close>

definition sizeof_entry :: nat where "sizeof_entry = 1288"
definition en_username :: nat where "en_username = 0"
definition en_type :: nat where "en_type = 512"
definition ud_status :: nat where "ud_status = 516"
definition ud_ip :: nat where "ud_ip = 520"
definition ud_port :: nat where "ud_port = 524"
definition ud_last_msg_id :: nat where "ud_last_msg_id = 528"
definition ms_sender :: nat where "ms_sender = 516"
definition ms_id :: nat where "ms_id = 1028"
definition ms_content :: nat where "ms_content = 1032"

lemmas en_defs = sizeof_entry_def en_username_def en_type_def ud_status_def ud_ip_def
  ud_port_def ud_last_msg_id_def ms_sender_def ms_id_def ms_content_def

definition get_type :: "mem \<Rightarrow> char" where
  "get_type m = hd (peek en_type 1 m)"

definition set_type :: "char \<Rightarrow> mem \<Rightarrow> mem" where
  "set_type c m = poke en_type [c] m"

lemma set_type_length [mem_simps]: "length m = sizeof_entry \<Longrightarrow> length (set_type c m) = sizeof_entry"
  by (simp add: set_type_def en_defs)

lemma get_type_set_type [mem_simps]: "length m = sizeof_entry \<Longrightarrow> get_type (set_type c m) = c"
  by (simp add: get_type_def set_type_def peek_poke_same en_defs)

lemma get_type_poke:
  "off + length bs \<le> length m \<Longrightarrow> 513 \<le> off \<or> off + length bs \<le> 512 \<Longrightarrow>
   get_type (poke off bs m) = get_type m"
  by (auto simp: get_type_def en_type_def peek_poke_other)

lemma get_type_strcpy [mem_simps]:
  "off + length s < length m \<Longrightarrow> 513 \<le> off \<or> off + length s < 512 \<Longrightarrow>
   get_type (strcpy off s m) = get_type m"
  using get_type_poke [of off "s @ [NUL]" m] by (auto simp: strcpy_def)

lemma get_type_set [mem_simps]:
  "off + 1 \<le> length m \<Longrightarrow> 513 \<le> off \<Longrightarrow> get_type (set_u8 off a m) = get_type m"
  "off + 2 \<le> length m \<Longrightarrow> 513 \<le> off \<Longrightarrow> get_type (set_u16 off b m) = get_type m"
  "off + 4 \<le> length m \<Longrightarrow> 513 \<le> off \<Longrightarrow> get_type (set_u32 off c m) = get_type m"
  by (simp_all add: set_u8_def set_u16_def set_u32_def get_type_poke)

lemma get_set_type [mem_simps]:
  "length m = sizeof_entry \<Longrightarrow> 513 \<le> off \<Longrightarrow> get_u8 off (set_type c m) = get_u8 off m"
  "length m = sizeof_entry \<Longrightarrow> 513 \<le> off \<Longrightarrow> get_u16 off (set_type c m) = get_u16 off m"
  "length m = sizeof_entry \<Longrightarrow> 513 \<le> off \<Longrightarrow> get_u32 off (set_type c m) = get_u32 off m"
  by (simp_all add: set_type_def en_defs m8.get_poke m16.get_poke m32.get_poke)

lemma cstr_set_type [mem_simps]:
  "length m = sizeof_entry \<Longrightarrow> off + length (cstr off m) < 512 \<or> 513 \<le> off \<Longrightarrow>
   cstr off (set_type c m) = cstr off m"
  by (auto simp: set_type_def en_defs cstr_poke_after cstr_poke_before)

text \<open>\<^verbatim>\<open>request->username\<close> and \<^verbatim>\<open>request->recipient\<close> are one buffer, and so are
  \<^verbatim>\<open>request->client_port\<close> and \<^verbatim>\<open>request->message.sender\<close>.\<close>

lemma request_overlay: "rq_username = rq_recipient" "rq_client_port = rq_sender"
  by (simp_all add: rq_defs)

end
