(* ===== verification/FileSys.thy ===== *)
theory FileSys
  imports Prelude
begin

text \<open>
  The file tree below the server, as the system calls of \<open>Posix\<close> see it: a partial map
  from absolute paths (lists of names, the root is the empty list) to regular files with
  their bytes and directories with the names they hold. Links, permissions, and mount points
  are left out. A failing call's reason is an \<open>errno\<close>.
\<close>

type_synonym path = "string list"

datatype node = Reg "char list" | Dir "string list"

type_synonym fs = "path \<Rightarrow> node option"

text \<open>The errors a call can return with. \<open>EOther\<close> is any other than \<^verbatim>\<open>EPIPE\<close>: a write to a peer that
  has closed does not return to this program, it is ended by the signal \<^verbatim>\<open>SIGPIPE\<close>, which the
  program neither ignores nor handles.\<close>

datatype errno = EINTR | ENOENT | EEXIST | ENOTDIR | EISDIR | ENOTEMPTY | EBADF | EBUSY
  | EINVAL | ENAMETOOLONG | ENOTCONN | ECONNREFUSED | ERANGE | EOther nat

definition NAME_MAX :: nat where "NAME_MAX = 255"
definition PATH_MAX :: nat where "PATH_MAX = 4096"

abbreviation SLASH :: char where "SLASH \<equiv> CHR 0x2F"

subsection \<open>Path strings\<close>

fun split_slash :: "string \<Rightarrow> string list" where
  "split_slash [] = [[]]"
| "split_slash (c # cs) =
     (if c = SLASH then [] # split_slash cs
      else case split_slash cs of [] \<Rightarrow> [[c]] | x # xs \<Rightarrow> (c # x) # xs)"

lemma split_slash_nonempty [simp]: "split_slash s \<noteq> []"
  by (induction s) (auto split: list.splits)

lemma split_slash_single [simp]: "SLASH \<notin> set s \<Longrightarrow> split_slash s = [s]"
  by (induction s) auto

lemma split_slash_append [simp]:
  "SLASH \<notin> set s \<Longrightarrow> split_slash (s @ SLASH # t) = s # split_slash t"
  by (induction s) auto

lemma split_slash_no_slash: "n \<in> set (split_slash s) \<Longrightarrow> SLASH \<notin> set n"
proof (induction s arbitrary: n)
  case Nil
  then show ?case by simp
next
  case (Cons c s)
  then show ?case
    by (cases "split_slash s") (auto split: if_splits)
qed

text \<open>
  The walk of a path: every name but the last must lead through a directory; \<^verbatim>\<open>.\<close>, \<^verbatim>\<open>..\<close>
  and empty components are interpreted; the last one need not exist.
\<close>

fun namei :: "fs \<Rightarrow> path \<Rightarrow> string list \<Rightarrow> errno + path" where
  "namei f cur [] = Inr cur"
| "namei f cur (n # ns) =
     (case f cur of
        Some (Dir _) \<Rightarrow>
          if n = [] \<or> n = ''.'' then namei f cur ns
          else if n = ''..'' then namei f (butlast cur) ns
          else if length n > NAME_MAX then Inl ENAMETOOLONG
          else namei f (cur @ [n]) ns
      | Some (Reg _) \<Rightarrow> Inl ENOTDIR
      | None \<Rightarrow> Inl ENOENT)"

definition resolve_in :: "fs \<Rightarrow> path \<Rightarrow> string \<Rightarrow> errno + path" where
  "resolve_in f cwd s =
     (if s = [] then Inl ENOENT
      else if length s \<ge> PATH_MAX then Inl ENAMETOOLONG
      else namei f (if hd s = SLASH then [] else cwd) (split_slash s))"

text \<open>A name that can be an entry of a directory, and a component that the walk takes
  literally.\<close>

definition valid_name :: "string \<Rightarrow> bool" where
  "valid_name n \<longleftrightarrow> n \<noteq> [] \<and> n \<noteq> ''.'' \<and> n \<noteq> ''..'' \<and> SLASH \<notin> set n \<and> length n \<le> NAME_MAX"

lemma namei_step [simp]:
  "f cur = Some (Dir es) \<Longrightarrow> valid_name n \<Longrightarrow> namei f cur (n # ns) = namei f (cur @ [n]) ns"
  by (simp add: valid_name_def)

declare namei.simps(2) [simp del]

subsection \<open>Changing the tree\<close>

definition dir_names :: "node option \<Rightarrow> string list" where
  "dir_names x = (case x of Some (Dir ns) \<Rightarrow> ns | _ \<Rightarrow> [])"

text \<open>A new entry, and the removal of one: the parent directory's names change too.\<close>

definition fs_add :: "path \<Rightarrow> node \<Rightarrow> fs \<Rightarrow> fs" where
  "fs_add p x f = f(p \<mapsto> x, butlast p \<mapsto> Dir (dir_names (f (butlast p)) @ [last p]))"

definition fs_del :: "path \<Rightarrow> fs \<Rightarrow> fs" where
  "fs_del p f = f(p := None, butlast p \<mapsto> Dir (remove1 (last p) (dir_names (f (butlast p)))))"

text \<open>
  The tree is consistent: the root is a directory, a path exists exactly if its parent is a
  directory that lists it, and no directory lists a name twice.
\<close>

definition wf_fs :: "fs \<Rightarrow> bool" where
  "wf_fs f \<longleftrightarrow>
     (\<exists>ns. f [] = Some (Dir ns)) \<and>
     (\<forall>p n. f (p @ [n]) \<noteq> None \<longleftrightarrow> n \<in> set (dir_names (f p))) \<and>
     (\<forall>p. distinct (dir_names (f p)) \<and> (\<forall>n\<in>set (dir_names (f p)). valid_name n))"

lemma dir_names_simps [simp]:
  "dir_names None = []" "dir_names (Some (Reg d)) = []" "dir_names (Some (Dir ns)) = ns"
  by (simp_all add: dir_names_def)

lemma wf_fs_root: "wf_fs f \<Longrightarrow> \<exists>ns. f [] = Some (Dir ns)"
  by (simp add: wf_fs_def)

lemma wf_fs_child: "wf_fs f \<Longrightarrow> f (p @ [n]) \<noteq> None \<longleftrightarrow> n \<in> set (dir_names (f p))"
  by (simp add: wf_fs_def)

lemma wf_fs_names:
  "wf_fs f \<Longrightarrow> distinct (dir_names (f p))"
  "wf_fs f \<Longrightarrow> n \<in> set (dir_names (f p)) \<Longrightarrow> valid_name n"
  by (auto simp: wf_fs_def)

lemma wf_fs_parent:
  assumes "wf_fs f" "f p \<noteq> None" "p \<noteq> []"
  shows "last p \<in> set (dir_names (f (butlast p)))" and "\<exists>ns. f (butlast p) = Some (Dir ns)"
proof -
  have "f (butlast p @ [last p]) \<noteq> None" using assms by simp
  with assms(1) show *: "last p \<in> set (dir_names (f (butlast p)))"
    by (simp only: wf_fs_child)
  then show "\<exists>ns. f (butlast p) = Some (Dir ns)"
    by (cases "f (butlast p)"; cases "the (f (butlast p))") auto
qed

text \<open>Where the walk ends, an existing path is well placed, and a missing one is new in an
  existing directory.\<close>

lemma namei_parent:
  assumes "wf_fs f" "namei f cur ns = Inr p" "f p = None" "f cur \<noteq> None"
    and "\<forall>n\<in>set ns. SLASH \<notin> set n"
  shows "p \<noteq> [] \<and> (\<exists>es. f (butlast p) = Some (Dir es)) \<and> valid_name (last p)"
  using assms
proof (induction ns arbitrary: cur)
  case Nil
  then show ?case by auto
next
  case (Cons n ns)
  then obtain es where es: "f cur = Some (Dir es)"
    by (auto simp: namei.simps split: option.splits node.splits)
  consider (same) "n = [] \<or> n = ''.''" | (up) "n = ''..''"
    | (down) "valid_name n" "namei f (cur @ [n]) ns = Inr p"
    using Cons.prems es by (auto simp: namei.simps valid_name_def split: if_splits)
  then show ?case
  proof cases
    case same
    with Cons es show ?thesis by (auto simp: namei.simps split: if_splits)
  next
    case up
    have "f (butlast cur) \<noteq> None"
    proof (cases "cur = []")
      case False
      with wf_fs_parent(2) [OF Cons.prems(1) _ False] es show ?thesis by auto
    qed (use es in simp)
    with up Cons es show ?thesis by (auto simp: namei.simps)
  next
    case down
    show ?thesis
    proof (cases "f (cur @ [n])")
      case None
      with down(2) Cons.prems(3) have "ns = [] \<and> p = cur @ [n]"
        by (cases ns) (auto simp: namei.simps)
      with es down(1) show ?thesis by auto
    next
      case Some
      with Cons.IH [of "cur @ [n]"] Cons.prems down show ?thesis by auto
    qed
  qed
qed

lemma resolve_in_parent:
  assumes "wf_fs f" "resolve_in f cwd s = Inr p" "f p = None"
  shows "p \<noteq> [] \<and> (\<exists>es. f (butlast p) = Some (Dir es)) \<and> valid_name (last p)"
proof -
  let ?cur = "if hd s = SLASH then [] else cwd"
  from assms(2) have w: "namei f ?cur (split_slash s) = Inr p"
    by (auto simp: resolve_in_def split: if_splits)
  then have "f ?cur \<noteq> None"
    by (cases "split_slash s") (auto simp: namei.simps split: option.splits)
  with w assms show ?thesis
    by (intro namei_parent) (auto dest: split_slash_no_slash)
qed

lemma butlast_neq [simp]: "p \<noteq> [] \<Longrightarrow> butlast p \<noteq> p"
  by (metis append_butlast_last_id not_Cons_self2 append_self_conv)

lemma butlast_neq' [simp]: "p \<noteq> [] \<Longrightarrow> p \<noteq> butlast p"
  using butlast_neq by metis

lemma snoc_eq_iff: "p @ [n] = q \<longleftrightarrow> q \<noteq> [] \<and> p = butlast q \<and> n = last q"
  by auto

lemma wf_fs_no_children:
  assumes "wf_fs f" "dir_names (f p) = []"
  shows "f (p @ [n]) = None"
  using wf_fs_child [OF assms(1), of p n] assms(2) by auto

lemma wf_fs_add:
  assumes wf: "wf_fs f" and new: "f p = None" and ne: "p \<noteq> []"
    and par: "f (butlast p) = Some (Dir es)" and nm: "valid_name (last p)"
    and leaf: "dir_names (Some x) = []"
  shows "wf_fs (fs_add p x f)"
proof -
  have notin: "last p \<notin> set es"
    using wf_fs_child [OF wf, of "butlast p" "last p"] new ne par by simp
  have names: "dir_names (fs_add p x f q) =
      (if q = butlast p then es @ [last p] else dir_names (f q))" for q
    using leaf ne par new by (auto simp: fs_add_def)
  have ex: "fs_add p x f q \<noteq> None \<longleftrightarrow> f q \<noteq> None \<or> q = p" for q
    using par by (auto simp: fs_add_def)
  have "\<exists>ns. fs_add p x f [] = Some (Dir ns)"
    using wf_fs_root [OF wf] ne by (auto simp: fs_add_def)
  moreover have "fs_add p x f (q @ [n]) \<noteq> None \<longleftrightarrow> n \<in> set (dir_names (fs_add p x f q))" for q n
    unfolding ex names using wf_fs_child [OF wf, of q n] par ne
    by (auto simp: snoc_eq_iff)
  moreover have "distinct (dir_names (fs_add p x f q)) \<and>
      (\<forall>n\<in>set (dir_names (fs_add p x f q)). valid_name n)" for q
    unfolding names using wf_fs_names(1) [OF wf, of q] wf_fs_names(2) [OF wf, of _ q] par notin nm
    by (auto dest: wf_fs_names(2) [OF wf, of _ "butlast p"])
  ultimately show ?thesis unfolding wf_fs_def by blast
qed

lemma wf_fs_del:
  assumes wf: "wf_fs f" and old: "f p = Some x" and ne: "p \<noteq> []"
    and leaf: "dir_names (Some x) = []"
  shows "wf_fs (fs_del p f)"
proof -
  obtain es where par: "f (butlast p) = Some (Dir es)" and mem: "last p \<in> set es"
    using wf_fs_parent [OF wf, of p] old ne by auto
  have dist: "distinct es" using wf_fs_names(1) [OF wf, of "butlast p"] par by simp
  have names: "dir_names (fs_del p f q) =
      (if q = butlast p then remove1 (last p) es else dir_names (f q))" for q
    using leaf ne par old by (auto simp: fs_del_def)
  have ex: "fs_del p f q \<noteq> None \<longleftrightarrow> f q \<noteq> None \<and> q \<noteq> p" for q
    using par ne by (auto simp: fs_del_def)
  have "\<exists>ns. fs_del p f [] = Some (Dir ns)"
    using wf_fs_root [OF wf] ne by (auto simp: fs_del_def)
  moreover have "fs_del p f (q @ [n]) \<noteq> None \<longleftrightarrow> n \<in> set (dir_names (fs_del p f q))" for q n
    unfolding ex names using wf_fs_child [OF wf, of q n] par ne dist
    by (auto simp: snoc_eq_iff)
  moreover have "distinct (dir_names (fs_del p f q)) \<and>
      (\<forall>n\<in>set (dir_names (fs_del p f q)). valid_name n)" for q
    unfolding names using wf_fs_names(1) [OF wf, of q] wf_fs_names(2) [OF wf, of _ q]
      wf_fs_names(2) [OF wf, of _ "butlast p"] par dist
    by auto
  ultimately show ?thesis unfolding wf_fs_def by blast
qed

lemma wf_fs_write:
  assumes "wf_fs f" "f p = Some (Reg d)"
  shows "wf_fs (f(p \<mapsto> Reg d'))"
proof -
  have "dir_names ((f(p \<mapsto> Reg d')) q) = dir_names (f q)" for q
    using assms(2) by simp
  moreover have "(f(p \<mapsto> Reg d')) q \<noteq> None \<longleftrightarrow> f q \<noteq> None" for q
    using assms(2) by simp
  ultimately show ?thesis
    using assms unfolding wf_fs_def by (auto simp del: fun_upd_apply) (auto simp: fun_upd_apply)
qed

end
