(* ===== verification/Posix.thy ===== *)
theory Posix
  imports FileSys
begin

text \<open>
  The operating system the C code runs on: the documented behaviour of the C library and
  POSIX calls it makes, on a state \<open>world\<close> with the file tree, the table of open
  descriptors, \<^verbatim>\<open>errno\<close>, and the trace of what the outside sees (log lines, bytes sent,
  connections opened and closed).

  What the system is free to choose is a parameter or an oracle:
  \<^item> \<open>orc\<close> holds one outcome for each of the next system calls: to fail with some error,
    to transfer only part of the bytes, or to work; when it is used up every call works;
  \<^item> \<open>dir_order\<close> is the order in which \<^verbatim>\<open>readdir\<close> lists a directory;
  \<^item> \<open>reach\<close> tells which addresses accept a connection;
  \<^item> \<open>c_strtof\<close> is \<^verbatim>\<open>strtof\<close>: bits, number of characters used, range error.
\<close>

datatype outcome = Full | Short nat | Fail errno

text \<open>A descriptor: an open file with its offset, a directory stream, a socket not yet
  connected, or a connected socket with the bytes still to be read and the peer's address.\<close>

datatype desc = DReg path nat | DDir | DNew | DSock "char list" u32 u16

datatype event = EvPrint string | EvConnect nat u32 u16 | EvSend nat "char list" | EvClose nat
  | EvOverflow

record world =
  fs :: fs
  cwd :: path
  fds :: "(nat \<times> desc) list"
  orc :: "outcome list"
  err_no :: "errno option"
  trace :: "event list"
  reach :: "u32 \<Rightarrow> u16 \<Rightarrow> bool"
  dir_order :: "(string \<times> bool) list \<Rightarrow> (string \<times> bool) list"
  c_strtof :: "string \<Rightarrow> u32 \<times> nat \<times> bool"

type_synonym 'a prog = "(world, 'a) state"

abbreviation return :: "'a \<Rightarrow> 'a prog" where
  "return \<equiv> State_Monad.return"

definition resolve :: "world \<Rightarrow> string \<Rightarrow> errno + path" where
  "resolve w s = resolve_in (fs w) (cwd w) s"

subsection \<open>Descriptors\<close>

text \<open>A new descriptor gets the lowest number not in use.\<close>

definition fresh_fd :: "(nat \<times> desc) list \<Rightarrow> nat" where
  "fresh_fd t = hd (filter (\<lambda>n. n \<notin> fst ` set t) [0..<Suc (length t)])"

definition fd_add :: "desc \<Rightarrow> (nat \<times> desc) list \<Rightarrow> (nat \<times> desc) list" where
  "fd_add d t = (fresh_fd t, d) # t"

definition fd_set :: "nat \<Rightarrow> desc \<Rightarrow> (nat \<times> desc) list \<Rightarrow> (nat \<times> desc) list" where
  "fd_set n d t = map (\<lambda>(k, x). if k = n then (k, d) else (k, x)) t"

definition fd_del :: "nat \<Rightarrow> (nat \<times> desc) list \<Rightarrow> (nat \<times> desc) list" where
  "fd_del n t = filter (\<lambda>(k, x). k \<noteq> n) t"

subsection \<open>System calls\<close>

definition modify :: "(world \<Rightarrow> world) \<Rightarrow> unit prog" where
  "modify g = State (\<lambda>w. ((), g w))"

definition set_errno :: "errno option \<Rightarrow> unit prog" where
  "set_errno e = modify (\<lambda>w. w\<lparr>err_no := e\<rparr>)"

definition emit :: "event \<Rightarrow> unit prog" where
  "emit e = modify (\<lambda>w. w\<lparr>trace := trace w @ [e]\<rparr>)"

definition next_outcome :: "outcome prog" where
  "next_outcome = State (\<lambda>w. case orc w of [] \<Rightarrow> (Full, w) | x # xs \<Rightarrow> (x, w\<lparr>orc := xs\<rparr>))"

text \<open>
  The frame of a system call: it takes its outcome from the oracle, fails with \<open>bad\<close> and
  \<open>errno\<close> set, or acts on the world. The number given to the action is the most bytes it
  may transfer.
\<close>

definition syscall :: "'a \<Rightarrow> (nat option \<Rightarrow> world \<Rightarrow> errno + 'a \<times> world) \<Rightarrow> 'a prog" where
  "syscall bad act = do {
     r \<leftarrow> next_outcome;
     case r of
       Fail e \<Rightarrow> do { set_errno (Some e); return bad }
     | Full \<Rightarrow> State (\<lambda>w. case act None w of Inl e \<Rightarrow> (bad, w\<lparr>err_no := Some e\<rparr>) | Inr x \<Rightarrow> x)
     | Short n \<Rightarrow> State (\<lambda>w. case act (Some n) w of Inl e \<Rightarrow> (bad, w\<lparr>err_no := Some e\<rparr>) | Inr x \<Rightarrow> x) }"

text \<open>A transfer of at most \<open>n\<close> bytes moves at least one, if there is one.\<close>

definition limit :: "nat option \<Rightarrow> nat \<Rightarrow> nat" where
  "limit k n = (case k of None \<Rightarrow> n | Some j \<Rightarrow> min n (Suc j))"

text \<open>\<^verbatim>\<open>opendir\<close> with the entries \<^verbatim>\<open>readdir\<close> will return, each with the flag
  \<^verbatim>\<open>d_type == DT_DIR\<close>.\<close>

definition dir_entries :: "world \<Rightarrow> path \<Rightarrow> string list \<Rightarrow> (string \<times> bool) list" where
  "dir_entries w p ns =
     dir_order w ((''.'', True) # (''..'', True) #
       map (\<lambda>n. (n, case fs w (p @ [n]) of Some (Dir _) \<Rightarrow> True | _ \<Rightarrow> False)) ns)"

definition sys_opendir :: "string \<Rightarrow> (nat \<times> (string \<times> bool) list) option prog" where
  "sys_opendir s = syscall None (\<lambda>_ w.
     case resolve w s of
       Inl e \<Rightarrow> Inl e
     | Inr p \<Rightarrow> (case fs w p of
         None \<Rightarrow> Inl ENOENT
       | Some (Reg _) \<Rightarrow> Inl ENOTDIR
       | Some (Dir ns) \<Rightarrow>
           Inr (Some (fresh_fd (fds w), dir_entries w p ns), w\<lparr>fds := fd_add DDir (fds w)\<rparr>)))"

definition sys_closedir :: "nat \<Rightarrow> unit prog" where
  "sys_closedir n = modify (\<lambda>w. w\<lparr>fds := fd_del n (fds w)\<rparr>)"

definition sys_mkdir :: "string \<Rightarrow> int prog" where
  "sys_mkdir s = syscall (-1) (\<lambda>_ w.
     case resolve w s of
       Inl e \<Rightarrow> Inl e
     | Inr p \<Rightarrow> (if fs w p \<noteq> None then Inl EEXIST
                else Inr (0, w\<lparr>fs := fs_add p (Dir []) (fs w)\<rparr>)))"

text \<open>\<^verbatim>\<open>open\<close> with the flags the code passes: read only, create exclusively for writing,
  truncate for writing.\<close>

datatype oflags = O_RDONLY | O_WRONLY_CREAT_EXCL | O_WRONLY_TRUNC

definition sys_open :: "string \<Rightarrow> oflags \<Rightarrow> int prog" where
  "sys_open s fl = syscall (-1) (\<lambda>_ w.
     case resolve w s of
       Inl e \<Rightarrow> Inl e
     | Inr p \<Rightarrow> (case fs w p of
         None \<Rightarrow> (if fl = O_WRONLY_CREAT_EXCL
                  then Inr (int (fresh_fd (fds w)),
                            w\<lparr>fs := fs_add p (Reg []) (fs w), fds := fd_add (DReg p 0) (fds w)\<rparr>)
                  else Inl ENOENT)
       | Some (Reg d) \<Rightarrow> (case fl of
           O_RDONLY \<Rightarrow> Inr (int (fresh_fd (fds w)), w\<lparr>fds := fd_add (DReg p 0) (fds w)\<rparr>)
         | O_WRONLY_CREAT_EXCL \<Rightarrow> Inl EEXIST
         | O_WRONLY_TRUNC \<Rightarrow> Inr (int (fresh_fd (fds w)),
             w\<lparr>fs := (fs w)(p \<mapsto> Reg []), fds := fd_add (DReg p 0) (fds w)\<rparr>))
       | Some (Dir _) \<Rightarrow> (case fl of
           O_RDONLY \<Rightarrow> Inr (int (fresh_fd (fds w)), w\<lparr>fds := fd_add (DReg p 0) (fds w)\<rparr>)
         | O_WRONLY_CREAT_EXCL \<Rightarrow> Inl EEXIST
         | O_WRONLY_TRUNC \<Rightarrow> Inl EISDIR)))"

text \<open>\<^verbatim>\<open>read\<close> returns the number of bytes and the bytes; \<open>0\<close> is the end of the file
  or of the peer's stream.\<close>

definition sys_read :: "int \<Rightarrow> nat \<Rightarrow> (int \<times> char list) prog" where
  "sys_read d n = syscall (-1, []) (\<lambda>k w.
     if d < 0 then Inl EBADF else
     case map_of (fds w) (nat d) of
       Some (DReg p off) \<Rightarrow> (case fs w p of
         Some (Reg dat) \<Rightarrow>
           (let bs = take (limit k n) (drop off dat) in
            Inr ((int (length bs), bs), w\<lparr>fds := fd_set (nat d) (DReg p (off + length bs)) (fds w)\<rparr>))
       | Some (Dir _) \<Rightarrow> Inl EISDIR
       | None \<Rightarrow> Inr ((0, []), w))
     | Some (DSock inp ip pt) \<Rightarrow>
         (let bs = take (limit k n) inp in
          Inr ((int (length bs), bs), w\<lparr>fds := fd_set (nat d) (DSock (drop (length bs) inp) ip pt) (fds w)\<rparr>))
     | Some DNew \<Rightarrow> Inl ENOTCONN
     | Some DDir \<Rightarrow> Inl EISDIR
     | None \<Rightarrow> Inl EBADF)"

text \<open>\<^verbatim>\<open>write\<close> returns the number of bytes taken; on a file they replace the bytes at the
  offset, on a socket they go out. That is what a write does that returns: on a socket whose peer
  has closed it ends the process by \<^verbatim>\<open>SIGPIPE\<close> (the program sets a handler for \<^verbatim>\<open>SIGINT\<close> only),
  and there is no world after it.\<close>

definition sys_write :: "int \<Rightarrow> char list \<Rightarrow> int prog" where
  "sys_write d bs = syscall (-1) (\<lambda>k w.
     let b = take (limit k (length bs)) bs in
     if d < 0 then Inl EBADF else
     case map_of (fds w) (nat d) of
       Some (DReg p off) \<Rightarrow>
         (let t = fd_set (nat d) (DReg p (off + length b)) (fds w) in
          case fs w p of
            Some (Reg dat) \<Rightarrow>
              Inr (int (length b),
                   w\<lparr>fs := (fs w)(p \<mapsto> Reg (take off dat @ b @ drop (off + length b) dat)), fds := t\<rparr>)
          | Some (Dir _) \<Rightarrow> Inl EBADF
          | None \<Rightarrow> Inr (int (length b), w\<lparr>fds := t\<rparr>))
     | Some (DSock inp ip pt) \<Rightarrow>
         Inr (int (length b), w\<lparr>trace := trace w @ [EvSend (nat d) b]\<rparr>)
     | Some DNew \<Rightarrow> Inl ENOTCONN
     | Some DDir \<Rightarrow> Inl EBADF
     | None \<Rightarrow> Inl EBADF)"

text \<open>\<^verbatim>\<open>close\<close>: closing a socket ends the connection, which the peer sees.\<close>

definition sys_close :: "int \<Rightarrow> int prog" where
  "sys_close d = State (\<lambda>w.
     if d < 0 then (-1, w\<lparr>err_no := Some EBADF\<rparr>) else
     case map_of (fds w) (nat d) of
       None \<Rightarrow> (-1, w\<lparr>err_no := Some EBADF\<rparr>)
     | Some (DSock inp ip pt) \<Rightarrow>
         (0, w\<lparr>fds := fd_del (nat d) (fds w), trace := trace w @ [EvClose (nat d)]\<rparr>)
     | Some _ \<Rightarrow> (0, w\<lparr>fds := fd_del (nat d) (fds w)\<rparr>))"

text \<open>\<^verbatim>\<open>remove\<close>: unlinks a file, or removes an empty directory.\<close>

definition sys_remove :: "string \<Rightarrow> int prog" where
  "sys_remove s = syscall (-1) (\<lambda>_ w.
     case resolve w s of
       Inl e \<Rightarrow> Inl e
     | Inr p \<Rightarrow> (case fs w p of
         None \<Rightarrow> Inl ENOENT
       | Some (Reg _) \<Rightarrow> if p = [] then Inl EBUSY else Inr (0, w\<lparr>fs := fs_del p (fs w)\<rparr>)
       | Some (Dir ns) \<Rightarrow>
           if p = [] then Inl EBUSY
           else if ns \<noteq> [] then Inl ENOTEMPTY
           else Inr (0, w\<lparr>fs := fs_del p (fs w)\<rparr>)))"

definition sys_socket :: "int prog" where
  "sys_socket = syscall (-1) (\<lambda>_ w. Inr (int (fresh_fd (fds w)), w\<lparr>fds := fd_add DNew (fds w)\<rparr>))"

definition sys_connect :: "int \<Rightarrow> u32 \<Rightarrow> u16 \<Rightarrow> int prog" where
  "sys_connect d ip pt = syscall (-1) (\<lambda>_ w.
     if d < 0 \<or> map_of (fds w) (nat d) \<noteq> Some DNew then Inl EBADF
     else if \<not> reach w ip pt then Inl ECONNREFUSED
     else Inr (0, w\<lparr>fds := fd_set (nat d) (DSock [] ip pt) (fds w),
                   trace := trace w @ [EvConnect (nat d) ip pt]\<rparr>))"

definition sys_getpeername :: "int \<Rightarrow> (int \<times> u32 \<times> u16) prog" where
  "sys_getpeername d = syscall (-1, 0, 0) (\<lambda>_ w.
     if d < 0 then Inl EBADF else
     case map_of (fds w) (nat d) of
       Some (DSock inp ip pt) \<Rightarrow> Inr ((0, ip, pt), w)
     | Some _ \<Rightarrow> Inl ENOTCONN
     | None \<Rightarrow> Inl EBADF)"

text \<open>\<^verbatim>\<open>printf\<close> to the log, and \<^verbatim>\<open>sprintf\<close> into a buffer of a given size: text that does
  not fit with its terminating zero is written past the end, which the trace records; the
  text is used all the same.\<close>

definition sys_printf :: "string \<Rightarrow> unit prog" where
  "sys_printf s = emit (EvPrint s)"

definition sys_sprintf :: "nat \<Rightarrow> string \<Rightarrow> string prog" where
  "sys_sprintf cap s =
     (if length s < cap then return s else do { emit EvOverflow; return s })"

end
