(* ===== verification/PosixRel.thy ===== *)
theory PosixRel
  imports Posix
begin

text \<open>
  What system calls cannot do. A relation between worlds that is a preorder and holds of the
  primitive changes (an oracle step, \<^verbatim>\<open>errno\<close>, the descriptor table, new events, one new
  leaf of the file tree, one leaf removed, the bytes of one file) holds of every system call,
  and by the rules of \<open>step_rel\<close> of every program built from them, under any faults.
  The instances: the tree stays consistent, the events that happened stay, descriptors stay
  distinct, the environment and the working directory do not change, the oracle is only used up.
\<close>

locale os_rel = step_rel R for R :: "world \<Rightarrow> world \<Rightarrow> bool" +
  assumes R_orc: "orc w = x # xs \<Longrightarrow> R w (w\<lparr>orc := xs\<rparr>)"
    and R_errno: "R w (w\<lparr>err_no := e\<rparr>)"
    and R_fd_add: "R w (w\<lparr>fds := fd_add d (fds w)\<rparr>)"
    and R_fd_set: "R w (w\<lparr>fds := fd_set n d (fds w)\<rparr>)"
    and R_fd_del: "R w (w\<lparr>fds := fd_del n (fds w)\<rparr>)"
    and R_emit: "R w (w\<lparr>trace := trace w @ [e2]\<rparr>)"
    and R_new: "resolve w s = Inr p \<Longrightarrow> fs w p = None \<Longrightarrow> dir_names (Some x2) = [] \<Longrightarrow>
      R w (w\<lparr>fs := fs_add p x2 (fs w)\<rparr>)"
    and R_write: "fs w p = Some (Reg dat) \<Longrightarrow> R w (w\<lparr>fs := (fs w)(p \<mapsto> Reg dat2)\<rparr>)"
    and R_remove: "fs w p = Some x3 \<Longrightarrow> p \<noteq> [] \<Longrightarrow> dir_names (Some x3) = [] \<Longrightarrow>
      R w (w\<lparr>fs := fs_del p (fs w)\<rparr>)"
begin

lemma sat_modify: "(\<And>w. R w (g w)) \<Longrightarrow> state_io_rel R (modify g)"
  by (simp add: state_io_rel_def modify_def)

lemma sat_set_errno [prog_sat]: "state_io_rel R (set_errno e)"
  by (simp add: set_errno_def sat_modify R_errno)

lemma sat_emit [prog_sat]: "state_io_rel R (emit e)"
  by (simp add: emit_def sat_modify R_emit)

lemma sat_next_outcome: "state_io_rel R next_outcome"
  by (auto simp: state_io_rel_def next_outcome_def R_refl R_orc split: list.splits)

lemma sat_act:
  assumes "\<And>w a w'. act w = Inr (a, w') \<Longrightarrow> R w w'"
  shows "state_io_rel R (State (\<lambda>w. case act w of Inl e \<Rightarrow> (bad, w\<lparr>err_no := Some e\<rparr>) | Inr x \<Rightarrow> x))"
  using assms by (auto simp: state_io_rel_def R_errno split: sum.splits)

lemma sat_syscall:
  assumes "\<And>k w a w'. act k w = Inr (a, w') \<Longrightarrow> R w w'"
  shows "state_io_rel R (syscall bad act)"
proof -
  have "state_io_rel R (case r of
       Fail e \<Rightarrow> do { set_errno (Some e); return bad }
     | Full \<Rightarrow> State (\<lambda>w. case act None w of Inl e \<Rightarrow> (bad, w\<lparr>err_no := Some e\<rparr>) | Inr x \<Rightarrow> x)
     | Short n \<Rightarrow> State (\<lambda>w. case act (Some n) w of Inl e \<Rightarrow> (bad, w\<lparr>err_no := Some e\<rparr>) | Inr x \<Rightarrow> x))" for r
    by (cases r) (auto intro!: sat_act sat_bind sat_set_errno sat_return assms)
  then show ?thesis
    unfolding syscall_def by (intro sat_bind sat_next_outcome)
qed

lemma R_fs_fds:
  assumes "R w (w\<lparr>fs := f\<rparr>)" and "\<And>v. fds v = fds w \<Longrightarrow> R v (v\<lparr>fds := t\<rparr>)"
  shows "R w (w\<lparr>fs := f, fds := t\<rparr>)"
  using R_trans [OF assms(1) assms(2) [of "w\<lparr>fs := f\<rparr>"]] by simp

lemma R_fd_trace:
  assumes "\<And>v. fds v = fds w \<Longrightarrow> R v (v\<lparr>fds := t\<rparr>)"
  shows "R w (w\<lparr>fds := t, trace := trace w @ [e]\<rparr>)"
  using R_trans [OF assms [of w] R_emit [of "w\<lparr>fds := t\<rparr>" e]] by simp

lemma sat_opendir [prog_sat]: "state_io_rel R (sys_opendir s)"
  unfolding sys_opendir_def
  by (rule sat_syscall) (auto simp: R_fd_add split: sum.splits option.splits node.splits)

lemma sat_closedir [prog_sat]: "state_io_rel R (sys_closedir n)"
  by (simp add: sys_closedir_def sat_modify R_fd_del)

lemma sat_mkdir [prog_sat]: "state_io_rel R (sys_mkdir s)"
  unfolding sys_mkdir_def
  by (rule sat_syscall) (auto intro: R_new split: sum.splits if_splits)

lemma R_fd_add': "fds v = fds w \<Longrightarrow> R v (v\<lparr>fds := fd_add d (fds w)\<rparr>)"
  using R_fd_add [of v d] by simp

lemma R_fd_set': "fds v = fds w \<Longrightarrow> R v (v\<lparr>fds := fd_set n d (fds w)\<rparr>)"
  using R_fd_set [of v n d] by simp

lemma R_fd_del': "fds v = fds w \<Longrightarrow> R v (v\<lparr>fds := fd_del n (fds w)\<rparr>)"
  using R_fd_del [of v n] by simp

lemma sat_open [prog_sat]: "state_io_rel R (sys_open s fl)"
  unfolding sys_open_def
  by (rule sat_syscall)
    (auto intro!: R_fs_fds R_fd_add' intro: R_new R_write
      split: sum.splits option.splits node.splits oflags.splits if_splits)

lemma sat_read [prog_sat]: "state_io_rel R (sys_read d n)"
  unfolding sys_read_def
  by (rule sat_syscall)
    (auto simp: Let_def R_fd_set R_refl split: option.splits desc.splits node.splits if_splits)

lemma sat_write [prog_sat]: "state_io_rel R (sys_write d bs)"
  unfolding sys_write_def
  by (rule sat_syscall)
    (auto simp: Let_def R_fd_set R_emit intro!: R_fs_fds R_fd_set' intro: R_write
      split: option.splits desc.splits node.splits if_splits)

lemma sat_close [prog_sat]: "state_io_rel R (sys_close d)"
  unfolding sys_close_def state_io_rel_def
  by (auto simp: R_errno R_fd_del intro!: R_fd_trace R_fd_del' split: option.splits desc.splits)

lemma sat_remove [prog_sat]: "state_io_rel R (sys_remove s)"
  unfolding sys_remove_def
  by (rule sat_syscall)
    (auto intro: R_remove split: sum.splits option.splits node.splits if_splits)

lemma sat_socket [prog_sat]: "state_io_rel R sys_socket"
  unfolding sys_socket_def by (rule sat_syscall) (auto simp: R_fd_add)

lemma sat_connect [prog_sat]: "state_io_rel R (sys_connect d ip pt)"
  unfolding sys_connect_def
  by (rule sat_syscall) (auto intro!: R_fd_trace R_fd_set' split: if_splits)

lemma sat_getpeername [prog_sat]: "state_io_rel R (sys_getpeername d)"
  unfolding sys_getpeername_def
  by (rule sat_syscall) (auto simp: R_refl split: option.splits desc.splits if_splits)

lemma sat_printf [prog_sat]: "state_io_rel R (sys_printf s)"
  by (simp add: sys_printf_def sat_emit)

lemma sat_sprintf [prog_sat]: "state_io_rel R (sys_sprintf n s)"
  by (simp add: sys_sprintf_def sat_emit sat_bind sat_return)

end

subsection \<open>Instances\<close>

definition fs_rel :: "world \<Rightarrow> world \<Rightarrow> bool" where
  "fs_rel w w' \<longleftrightarrow> (wf_fs (fs w) \<longrightarrow> wf_fs (fs w'))"

definition trace_rel :: "world \<Rightarrow> world \<Rightarrow> bool" where
  "trace_rel w w' \<longleftrightarrow> take (length (trace w)) (trace w') = trace w"

definition env_rel :: "world \<Rightarrow> world \<Rightarrow> bool" where
  "env_rel w w' \<longleftrightarrow> cwd w' = cwd w \<and> reach w' = reach w \<and> dir_order w' = dir_order w \<and>
     c_strtof w' = c_strtof w"

definition orc_rel :: "world \<Rightarrow> world \<Rightarrow> bool" where
  "orc_rel w w' \<longleftrightarrow> (\<exists>n. orc w' = drop n (orc w))"

definition fds_rel :: "world \<Rightarrow> world \<Rightarrow> bool" where
  "fds_rel w w' \<longleftrightarrow> (distinct (map fst (fds w)) \<longrightarrow> distinct (map fst (fds w')))"

lemma map_fst_fd_set [simp]: "map fst (fd_set n d t) = map fst t"
  by (auto simp: fd_set_def)

lemma fresh_fd_notin [simp]: "fresh_fd t \<notin> fst ` set t"
proof -
  let ?P = "filter (\<lambda>n. n \<notin> fst ` set t) [0..<Suc (length t)]"
  have "?P \<noteq> []"
  proof
    assume "?P = []"
    then have "set [0..<Suc (length t)] \<subseteq> fst ` set t" by (auto simp: filter_empty_conv simp del: upt_Suc)
    then have "card (set [0..<Suc (length t)]) \<le> card (fst ` set t)" by (intro card_mono) auto
    also have "\<dots> \<le> length t" using card_length [of "map fst t"] by simp
    finally show False by simp
  qed
  then have "fresh_fd t \<in> set ?P" unfolding fresh_fd_def by (rule hd_in_set)
  then show ?thesis by (simp del: upt_Suc)
qed

lemma fresh_fd_map [simp]: "map_of t (fresh_fd t) = None"
  by (simp add: map_of_eq_None_iff)

interpretation fs_os: os_rel fs_rel
proof unfold_locales
  fix w s p x2
  assume "resolve w s = Inr p" "fs w p = None" "dir_names (Some x2) = []"
  then show "fs_rel w (w\<lparr>fs := fs_add p x2 (fs w)\<rparr>)"
    unfolding fs_rel_def resolve_def using resolve_in_parent wf_fs_add by fastforce
qed (auto simp: fs_rel_def intro: wf_fs_write wf_fs_del)

interpretation trace_os: os_rel trace_rel
proof unfold_locales
  fix s t u
  assume "trace_rel s t" "trace_rel t u"
  then show "trace_rel s u"
    unfolding trace_rel_def by (metis min.absorb1 nle_le take_all take_take)
qed (auto simp: trace_rel_def)

interpretation env_os: os_rel env_rel
  by unfold_locales (auto simp: env_rel_def)

interpretation orc_os: os_rel orc_rel
proof unfold_locales
  fix s t u
  assume "orc_rel s t" "orc_rel t u"
  then show "orc_rel s u" by (auto simp: orc_rel_def)
next
  fix w :: world and x xs
  assume "orc w = x # xs"
  then have "orc (w\<lparr>orc := xs\<rparr>) = drop 1 (orc w)" by simp
  then show "orc_rel w (w\<lparr>orc := xs\<rparr>)" unfolding orc_rel_def by blast
qed (auto simp: orc_rel_def intro: exI [of _ 0])

interpretation fds_os: os_rel fds_rel
  by unfold_locales
    (auto simp: fds_rel_def fd_add_def fd_del_def distinct_map_filter)

end
