(* ===== verification/PosixQuiet.thy ===== *)
theory PosixQuiet
  imports PosixRel
begin

text \<open>
  System calls in a quiet world, one whose oracle injects no fault and no short transfer:
  each is an equation from the state of the tree and the descriptors to its result and the
  world after it. These equations, collected in \<open>quiet_simps\<close>, run the program symbolically.
\<close>

definition quiet :: "world \<Rightarrow> bool" where
  "quiet w \<longleftrightarrow> orc w = []"

lemma quiet_update [simp]:
  "quiet (w\<lparr>fs := a\<rparr>) = quiet w" "quiet (w\<lparr>fds := b\<rparr>) = quiet w"
  "quiet (w\<lparr>err_no := c\<rparr>) = quiet w" "quiet (w\<lparr>trace := d\<rparr>) = quiet w"
  by (simp_all add: quiet_def)

lemma resolve_update [simp]:
  "resolve (w\<lparr>fds := b\<rparr>) s = resolve w s" "resolve (w\<lparr>err_no := c\<rparr>) s = resolve w s"
  "resolve (w\<lparr>trace := d\<rparr>) s = resolve w s"
  by (simp_all add: resolve_def)

lemma dir_entries_update [simp]:
  "dir_entries (w\<lparr>fds := b\<rparr>) = dir_entries w" "dir_entries (w\<lparr>err_no := c\<rparr>) = dir_entries w"
  "dir_entries (w\<lparr>trace := d\<rparr>) = dir_entries w"
  by (simp_all add: dir_entries_def fun_eq_iff)

lemma orc_rel_quiet: "orc_rel w w' \<Longrightarrow> quiet w \<Longrightarrow> quiet w'"
  by (auto simp: orc_rel_def quiet_def)

subsection \<open>Descriptors\<close>

lemma fd_set_absent: "n \<notin> fst ` set t \<Longrightarrow> fd_set n d t = t"
  by (induction t) (auto simp: fd_set_def)

lemma fd_del_absent: "n \<notin> fst ` set t \<Longrightarrow> fd_del n t = t"
  by (induction t) (auto simp: fd_del_def)

lemma fd_set_Cons: "fd_set n d ((k, x) # t) = (k, if k = n then d else x) # fd_set n d t"
  by (simp add: fd_set_def)

lemma fd_del_Cons: "fd_del n ((k, x) # t) = (if k = n then fd_del n t else (k, x) # fd_del n t)"
  by (simp add: fd_del_def)

lemma fd_fresh [simp]:
  "map_of (fd_add d t) (fresh_fd t) = Some d"
  "fd_set (fresh_fd t) d' (fd_add d t) = fd_add d' t"
  "fd_del (fresh_fd t) (fd_add d t) = t"
  by (simp_all add: fd_add_def fd_set_Cons fd_del_Cons fd_set_absent fd_del_absent)

lemma map_of_fd_add: "map_of (fd_add d t) k = (if k = fresh_fd t then Some d else map_of t k)"
  by (simp add: fd_add_def)

lemma map_of_fd_add_old: "map_of t n = Some x \<Longrightarrow> map_of (fd_add d t) n = Some x"
  by (auto simp: fd_add_def)

lemma map_of_fd_set: "map_of (fd_set n d t) k = (if k = n \<and> map_of t k \<noteq> None then Some d else map_of t k)"
  by (induction t) (auto simp: fd_set_def)

lemma map_of_fd_del: "map_of (fd_del n t) k = (if k = n then None else map_of t k)"
  by (induction t) (auto simp: fd_del_def)

lemma fresh_fd_neq [simp]: "map_of t n = Some x \<Longrightarrow> fresh_fd t \<noteq> n" "map_of t n = Some x \<Longrightarrow> n \<noteq> fresh_fd t"
  by auto

subsection \<open>System calls\<close>

lemma run_return [quiet_simps]: "run_state (return x) w = (x, w)"
  by simp

lemma run_bind [quiet_simps]:
  "run_state (State_Monad.bind m f) w = (case run_state m w of (a, w') \<Rightarrow> run_state (f a) w')"
  by simp

lemma run_modify [quiet_simps]: "run_state (modify g) w = ((), g w)"
  by (simp add: modify_def)

lemma run_get [quiet_simps]: "run_state State_Monad.get w = (w, w)"
  by simp

lemma run_set_errno [quiet_simps]: "run_state (set_errno e) w = ((), w\<lparr>err_no := e\<rparr>)"
  by (simp add: set_errno_def run_modify)

lemma run_emit [quiet_simps]: "run_state (emit e) w = ((), w\<lparr>trace := trace w @ [e]\<rparr>)"
  by (simp add: emit_def run_modify)

lemma run_printf [quiet_simps]: "run_state (sys_printf s) w = ((), w\<lparr>trace := trace w @ [EvPrint s]\<rparr>)"
  by (simp add: sys_printf_def run_emit)

lemma run_sprintf [quiet_simps]:
  "length s < n \<Longrightarrow> run_state (sys_sprintf n s) w = (s, w)"
  by (simp add: sys_sprintf_def)

lemma run_syscall:
  "quiet w \<Longrightarrow> run_state (syscall bad act) w =
     (case act None w of Inl e \<Rightarrow> (bad, w\<lparr>err_no := Some e\<rparr>) | Inr x \<Rightarrow> x)"
  by (simp add: syscall_def next_outcome_def quiet_def)

lemma run_opendir [quiet_simps]:
  "quiet w \<Longrightarrow> resolve w s = Inl e \<Longrightarrow> run_state (sys_opendir s) w = (None, w\<lparr>err_no := Some e\<rparr>)"
  "quiet w \<Longrightarrow> resolve w s = Inr p \<Longrightarrow> fs w p = None \<Longrightarrow>
     run_state (sys_opendir s) w = (None, w\<lparr>err_no := Some ENOENT\<rparr>)"
  "quiet w \<Longrightarrow> resolve w s = Inr p \<Longrightarrow> fs w p = Some (Reg dat) \<Longrightarrow>
     run_state (sys_opendir s) w = (None, w\<lparr>err_no := Some ENOTDIR\<rparr>)"
  "quiet w \<Longrightarrow> resolve w s = Inr p \<Longrightarrow> fs w p = Some (Dir ns) \<Longrightarrow>
     run_state (sys_opendir s) w =
       (Some (fresh_fd (fds w), dir_entries w p ns), w\<lparr>fds := fd_add DDir (fds w)\<rparr>)"
  by (simp_all add: sys_opendir_def run_syscall)

lemma run_closedir [quiet_simps]: "run_state (sys_closedir n) w = ((), w\<lparr>fds := fd_del n (fds w)\<rparr>)"
  by (simp add: sys_closedir_def run_modify)

lemma run_mkdir [quiet_simps]:
  "quiet w \<Longrightarrow> resolve w s = Inl e \<Longrightarrow> run_state (sys_mkdir s) w = (-1, w\<lparr>err_no := Some e\<rparr>)"
  "quiet w \<Longrightarrow> resolve w s = Inr p \<Longrightarrow> fs w p = Some x \<Longrightarrow>
     run_state (sys_mkdir s) w = (-1, w\<lparr>err_no := Some EEXIST\<rparr>)"
  "quiet w \<Longrightarrow> resolve w s = Inr p \<Longrightarrow> fs w p = None \<Longrightarrow>
     run_state (sys_mkdir s) w = (0, w\<lparr>fs := fs_add p (Dir []) (fs w)\<rparr>)"
  by (simp_all add: sys_mkdir_def run_syscall)

lemma run_open [quiet_simps]:
  "quiet w \<Longrightarrow> resolve w s = Inl e \<Longrightarrow> run_state (sys_open s fl) w = (-1, w\<lparr>err_no := Some e\<rparr>)"
  "quiet w \<Longrightarrow> resolve w s = Inr p \<Longrightarrow> fs w p = None \<Longrightarrow> fl \<noteq> O_WRONLY_CREAT_EXCL \<Longrightarrow>
     run_state (sys_open s fl) w = (-1, w\<lparr>err_no := Some ENOENT\<rparr>)"
  "quiet w \<Longrightarrow> resolve w s = Inr p \<Longrightarrow> fs w p = Some x \<Longrightarrow>
     run_state (sys_open s O_WRONLY_CREAT_EXCL) w = (-1, w\<lparr>err_no := Some EEXIST\<rparr>)"
  "quiet w \<Longrightarrow> resolve w s = Inr p \<Longrightarrow> fs w p = None \<Longrightarrow>
     run_state (sys_open s O_WRONLY_CREAT_EXCL) w =
       (int (fresh_fd (fds w)), w\<lparr>fs := fs_add p (Reg []) (fs w), fds := fd_add (DReg p 0) (fds w)\<rparr>)"
  "quiet w \<Longrightarrow> resolve w s = Inr p \<Longrightarrow> fs w p = Some x \<Longrightarrow>
     run_state (sys_open s O_RDONLY) w =
       (int (fresh_fd (fds w)), w\<lparr>fds := fd_add (DReg p 0) (fds w)\<rparr>)"
  "quiet w \<Longrightarrow> resolve w s = Inr p \<Longrightarrow> fs w p = Some (Reg dat) \<Longrightarrow>
     run_state (sys_open s O_WRONLY_TRUNC) w =
       (int (fresh_fd (fds w)), w\<lparr>fs := (fs w)(p \<mapsto> Reg []), fds := fd_add (DReg p 0) (fds w)\<rparr>)"
  by (simp_all add: sys_open_def run_syscall split: node.splits oflags.splits)

lemma run_read_file [quiet_simps]:
  "quiet w \<Longrightarrow> map_of (fds w) n = Some (DReg p off) \<Longrightarrow> fs w p = Some (Reg dat) \<Longrightarrow>
   run_state (sys_read (int n) k) w =
     ((int (length (take k (drop off dat))), take k (drop off dat)),
      w\<lparr>fds := fd_set n (DReg p (off + length (take k (drop off dat)))) (fds w)\<rparr>)"
  by (simp add: sys_read_def run_syscall limit_def Let_def)

lemma run_read_sock [quiet_simps]:
  "quiet w \<Longrightarrow> map_of (fds w) n = Some (DSock inp ip pt) \<Longrightarrow>
   run_state (sys_read (int n) k) w =
     ((int (length (take k inp)), take k inp),
      w\<lparr>fds := fd_set n (DSock (drop (length (take k inp)) inp) ip pt) (fds w)\<rparr>)"
  by (simp add: sys_read_def run_syscall limit_def Let_def)

lemma run_write_file [quiet_simps]:
  "quiet w \<Longrightarrow> map_of (fds w) n = Some (DReg p off) \<Longrightarrow> fs w p = Some (Reg dat) \<Longrightarrow>
   run_state (sys_write (int n) bs) w =
     (int (length bs),
      w\<lparr>fs := (fs w)(p \<mapsto> Reg (take off dat @ bs @ drop (off + length bs) dat)),
        fds := fd_set n (DReg p (off + length bs)) (fds w)\<rparr>)"
  by (simp add: sys_write_def run_syscall limit_def Let_def)

lemma run_write_sock [quiet_simps]:
  "quiet w \<Longrightarrow> map_of (fds w) n = Some (DSock inp ip pt) \<Longrightarrow>
   run_state (sys_write (int n) bs) w = (int (length bs), w\<lparr>trace := trace w @ [EvSend n bs]\<rparr>)"
  by (simp add: sys_write_def run_syscall limit_def Let_def)

lemma run_close [quiet_simps]:
  "map_of (fds w) n = Some (DReg p off) \<Longrightarrow>
     run_state (sys_close (int n)) w = (0, w\<lparr>fds := fd_del n (fds w)\<rparr>)"
  "map_of (fds w) n = Some (DSock inp ip pt) \<Longrightarrow>
     run_state (sys_close (int n)) w =
       (0, w\<lparr>fds := fd_del n (fds w), trace := trace w @ [EvClose n]\<rparr>)"
  by (simp_all add: sys_close_def)

lemma run_remove [quiet_simps]:
  "quiet w \<Longrightarrow> resolve w s = Inl e \<Longrightarrow> run_state (sys_remove s) w = (-1, w\<lparr>err_no := Some e\<rparr>)"
  "quiet w \<Longrightarrow> resolve w s = Inr p \<Longrightarrow> fs w p = None \<Longrightarrow>
     run_state (sys_remove s) w = (-1, w\<lparr>err_no := Some ENOENT\<rparr>)"
  "quiet w \<Longrightarrow> resolve w s = Inr p \<Longrightarrow> fs w p = Some (Reg dat) \<Longrightarrow> p \<noteq> [] \<Longrightarrow>
     run_state (sys_remove s) w = (0, w\<lparr>fs := fs_del p (fs w)\<rparr>)"
  "quiet w \<Longrightarrow> resolve w s = Inr p \<Longrightarrow> fs w p = Some (Dir []) \<Longrightarrow> p \<noteq> [] \<Longrightarrow>
     run_state (sys_remove s) w = (0, w\<lparr>fs := fs_del p (fs w)\<rparr>)"
  "quiet w \<Longrightarrow> resolve w s = Inr p \<Longrightarrow> fs w p = Some (Dir (n # ns)) \<Longrightarrow> p \<noteq> [] \<Longrightarrow>
     run_state (sys_remove s) w = (-1, w\<lparr>err_no := Some ENOTEMPTY\<rparr>)"
  by (simp_all add: sys_remove_def run_syscall)

lemma run_socket [quiet_simps]:
  "quiet w \<Longrightarrow> run_state sys_socket w = (int (fresh_fd (fds w)), w\<lparr>fds := fd_add DNew (fds w)\<rparr>)"
  by (simp add: sys_socket_def run_syscall)

lemma run_connect [quiet_simps]:
  "quiet w \<Longrightarrow> map_of (fds w) n = Some DNew \<Longrightarrow> reach w ip pt \<Longrightarrow>
     run_state (sys_connect (int n) ip pt) w =
       (0, w\<lparr>fds := fd_set n (DSock [] ip pt) (fds w), trace := trace w @ [EvConnect n ip pt]\<rparr>)"
  "quiet w \<Longrightarrow> map_of (fds w) n = Some DNew \<Longrightarrow> \<not> reach w ip pt \<Longrightarrow>
     run_state (sys_connect (int n) ip pt) w = (-1, w\<lparr>err_no := Some ECONNREFUSED\<rparr>)"
  by (simp_all add: sys_connect_def run_syscall)

lemma run_getpeername [quiet_simps]:
  "quiet w \<Longrightarrow> map_of (fds w) n = Some (DSock inp ip pt) \<Longrightarrow>
   run_state (sys_getpeername (int n)) w = ((0, ip, pt), w)"
  by (simp add: sys_getpeername_def run_syscall)

end
