(* ===== verification/Checks.thy ===== *)
theory Checks
  imports UtilH PosixQuiet
begin

text \<open>
  The error-checking macros of \<^verbatim>\<open>util.h\<close>. A macro ends the function it is used in: the rest
  of the function is its last argument, the value returned on an error the one before. What the
  macros print goes to \<^verbatim>\<open>stderr\<close>, which the model leaves out, so the variants with and without
  \<^verbatim>\<open>perror\<close> differ in name only. They unfold in simplification.
\<close>

definition CHECK_ERROR_WITH_ERRNO :: "bool \<Rightarrow> 'a \<Rightarrow> 'a prog \<Rightarrow> 'a prog" where
  [simp]: "CHECK_ERROR_WITH_ERRNO condition err cont = (if condition then return err else cont)"

definition CHECK_FUNC_ERROR :: "int \<Rightarrow> 'a \<Rightarrow> 'a prog \<Rightarrow> 'a prog" where
  [simp]: "CHECK_FUNC_ERROR ret_val err cont = (if ret_val < 0 then return err else cont)"

definition CHECK_FUNC_ERROR_WITH_ERRNO :: "int \<Rightarrow> 'a \<Rightarrow> 'a prog \<Rightarrow> 'a prog" where
  [simp]: "CHECK_FUNC_ERROR_WITH_ERRNO ret_val err cont = (if ret_val < 0 then return err else cont)"

definition CHECK_ARGS :: "bool \<Rightarrow> 'a \<Rightarrow> 'a prog \<Rightarrow> 'a prog" where
  [simp]: "CHECK_ARGS condition err cont = (if condition then return err else cont)"

definition CHECK_SOCK_ERROR :: "int \<Rightarrow> int \<Rightarrow> 'a \<Rightarrow> 'a prog \<Rightarrow> 'a prog" where
  "CHECK_SOCK_ERROR ret_val socket err cont =
     (if ret_val < 0 then do { _ \<leftarrow> sys_close socket; return err } else cont)"

context os_rel begin

lemma sat_check_sock [prog_sat]:
  "state_io_rel R m \<Longrightarrow> state_io_rel R (CHECK_SOCK_ERROR r s e m)"
  by (auto simp: CHECK_SOCK_ERROR_def intro!: prog_sat)

end

end
