(* ===== verification/Util.thy ===== *)
theory Util
  imports Checks
begin

text \<open>
  \<^verbatim>\<open>src/util.c\<close>: number parsing and the descriptor transfer loops. \<^verbatim>\<open>str_to_num\<close> returns
  its status and, on success, the four bytes it stores; \<^verbatim>\<open>write_bytes\<close>, \<^verbatim>\<open>read_bytes\<close>
  and \<^verbatim>\<open>read_line\<close> are loops over system calls, each with a termination proof that holds
  for every oracle. A \<^verbatim>\<open>NULL\<close> buffer, which no caller passes, has no counterpart.
\<close>

subsection \<open>\<^verbatim>\<open>str_to_num\<close>\<close>

definition is_space :: "char \<Rightarrow> bool" where
  "is_space c \<longleftrightarrow> c = CHR '' '' \<or> (9 \<le> (of_char c :: nat) \<and> (of_char c :: nat) \<le> 13)"

text \<open>\<^verbatim>\<open>strtol(s, &end, 10)\<close> of the C library: blanks, an optional sign, digits; the value
  saturates at the bounds of a 64-bit \<^verbatim>\<open>long\<close> with \<^verbatim>\<open>ERANGE\<close>. The second component is
  the number of characters used, 0 if there was no digit.\<close>

definition LONG_MAX :: int where "LONG_MAX = 9223372036854775807"
definition LONG_MIN :: int where "LONG_MIN = -9223372036854775808"

definition digits_value :: "string \<Rightarrow> nat" where
  "digits_value ds = foldl (\<lambda>a c. 10 * a + digit_val c) 0 ds"

definition strtol :: "string \<Rightarrow> int \<times> nat \<times> bool" where
  "strtol s =
     (let t = dropWhile is_space s;
          neg = (t \<noteq> [] \<and> hd t = CHR ''-'');
          u = (if t \<noteq> [] \<and> (hd t = CHR ''-'' \<or> hd t = CHR ''+'') then tl t else t);
          ds = takeWhile is_digit u;
          v = (if neg then - int (digits_value ds) else int (digits_value ds))
      in if ds = [] then (0, 0, False)
         else (max LONG_MIN (min LONG_MAX v), length s - length u + length ds,
               v < LONG_MIN \<or> LONG_MAX < v))"

definition str_to_num :: "string \<Rightarrow> char \<Rightarrow> (int \<times> u32 option) prog" where
  "str_to_num s ty = do {
     set_errno None;
     CHECK_ARGS (ty \<noteq> INT_TYPE \<and> ty \<noteq> FLOAT_TYPE \<and> ty \<noteq> UINT_TYPE) (GEN_ERR_INV_ARGS, None) (
     CHECK_ARGS (length s = 0) (GEN_ERR_INV_ARGS, None) (do {
       w \<leftarrow> State_Monad.get;
       let (num, endp, erange) =
         (if ty = INT_TYPE then (case strtol s of (v, n, r) \<Rightarrow> (word_of_int v, n, r))
          else if ty = UINT_TYPE then (case strtol s of (v, n, r) \<Rightarrow> (word_of_int v, n, r))
          else c_strtof w s);
       (if erange then set_errno (Some ERANGE) else return ());
       w \<leftarrow> State_Monad.get;
       if err_no w \<noteq> None then return (GEN_ERR_ANY, None)
       else if endp = 0 then return (GEN_ERR_ANY, None)
       else return (0, Some num) })) }"

subsection \<open>\<^verbatim>\<open>write_bytes\<close>\<close>

lemma syscall_cases:
  assumes "run_state (syscall bad act) w = (a, w')"
  obtains (fail) e xs where "orc w = Fail e # xs" "a = bad" "w' = w\<lparr>orc := xs, err_no := Some e\<rparr>"
  | (err) k xs e where "orc w = xs \<or> (\<exists>r. orc w = r # xs)" "act k (w\<lparr>orc := xs\<rparr>) = Inl e" "a = bad"
      "w' = w\<lparr>orc := xs, err_no := Some e\<rparr>"
  | (ok) k xs where "orc w = xs \<or> (\<exists>r. orc w = r # xs)" "act k (w\<lparr>orc := xs\<rparr>) = Inr (a, w')"
proof (cases "orc w")
  case Nil
  then have e: "w\<lparr>orc := []\<rparr> = w" by simp
  have r: "(a, w') = (case act None w of Inl e \<Rightarrow> (bad, w\<lparr>err_no := Some e\<rparr>) | Inr x \<Rightarrow> x)"
    using assms Nil by (simp add: run_syscall quiet_def)
  show ?thesis
  proof (cases "act None w")
    case (Inl x)
    with r Nil show ?thesis by (intro err [of "[]" None x]) (simp_all only: e, simp_all)
  next
    case (Inr x)
    with r Nil show ?thesis by (intro ok [of "[]" None]) (simp_all only: e, simp_all)
  qed
next
  case (Cons r xs)
  with assms show ?thesis
    by (cases r) (auto simp: syscall_def next_outcome_def run_set_errno split: sum.splits
        intro: fail err [of xs None] err [of xs "Some _"] ok [of xs None] ok [of xs "Some _"])
qed

lemma limit_le [simp]: "limit k n \<le> n"
  by (auto simp: limit_def split: option.splits)

lemma limit_pos [simp]: "0 < limit k n \<longleftrightarrow> 0 < n"
  by (auto simp: limit_def split: option.splits)

lemma sys_write_range:
  assumes "run_state (sys_write d bs) w = (r, w')"
  shows "r = -1 \<or> 0 \<le> r \<and> r \<le> int (length bs) \<and> (bs \<noteq> [] \<longrightarrow> 0 < r)"
  using assms unfolding sys_write_def
  by (cases rule: syscall_cases)
    (auto simp: Let_def min_def split: if_splits option.splits desc.splits node.splits)

text \<open>The loop of \<^verbatim>\<open>write_bytes\<close>: \<open>buf\<close> is what is left to write.\<close>

function write_loop :: "int \<Rightarrow> char list \<Rightarrow> int \<Rightarrow> world \<Rightarrow> int \<times> world" where
  "write_loop d buf tot w =
     (case run_state (sys_write d buf) w of (bytes_written, w1) \<Rightarrow>
        let left = int (length buf) - bytes_written; tot' = tot + bytes_written in
        if left > 0 \<and> bytes_written \<ge> 0 then write_loop d (drop (nat bytes_written) buf) tot' w1
        else if bytes_written < 0 then (GEN_ERR_ANY, w1) else (tot', w1))"
  by pat_completeness auto
termination
  by (relation "measure (\<lambda>(d, buf, tot, w). length buf)")
    (auto dest!: sys_write_range [OF sym])

declare write_loop.simps [simp del]

definition write_bytes :: "int \<Rightarrow> char list \<Rightarrow> int prog" where
  "write_bytes d buf =
     CHECK_ARGS (length buf = 0) GEN_ERR_INV_ARGS (State (write_loop d buf 0))"

subsection \<open>\<^verbatim>\<open>read_bytes\<close>\<close>

lemma length_take_limit [simp]: "length (take (limit k n) xs) \<le> n"
  using limit_le [of k n] by (simp add: min.coboundedI2)

lemma limit_one [simp]: "limit k (Suc 0) = Suc 0"
  by (auto simp: limit_def split: option.splits)

lemma sys_read_range:
  assumes "run_state (sys_read d n) w = ((r, bs), w')"
  shows "r = -1 \<and> bs = [] \<or> r = int (length bs) \<and> length bs \<le> n"
  using assms unfolding sys_read_def
  by (cases rule: syscall_cases)
    (auto simp: Let_def simp del: length_take split: if_splits option.splits desc.splits node.splits)

text \<open>The loop of \<^verbatim>\<open>read_bytes\<close>: \<open>left\<close> bytes go to the buffer's offset \<open>off\<close>.\<close>

function read_loop :: "int \<Rightarrow> nat \<Rightarrow> nat \<Rightarrow> int \<Rightarrow> mem \<Rightarrow> world \<Rightarrow> (int \<times> mem) \<times> world" where
  "read_loop d off left tot m w =
     (case run_state (sys_read d left) w of ((bytes_read, bs), w1) \<Rightarrow>
        let m' = poke off bs m; tot' = tot + bytes_read in
        if int left - bytes_read > 0 \<and> bytes_read > 0
        then read_loop d (off + length bs) (left - nat bytes_read) tot' m' w1
        else if bytes_read < 0 then ((GEN_ERR_ANY, m'), w1) else ((tot', m'), w1))"
  by pat_completeness auto
termination
  by (relation "measure (\<lambda>(d, off, left, tot, m, w). left)") auto

declare read_loop.simps [simp del]

definition read_bytes :: "int \<Rightarrow> mem \<Rightarrow> nat \<Rightarrow> (int \<times> mem) prog" where
  "read_bytes d buffer len =
     CHECK_ARGS (len = 0) (GEN_ERR_INV_ARGS, buffer) (State (read_loop d 0 len 0 buffer))"

subsection \<open>\<^verbatim>\<open>read_line\<close>\<close>

text \<open>The bytes a descriptor still offers: with the length of the oracle, what bounds the
  number of one-byte reads.\<close>

definition avail :: "int \<Rightarrow> world \<Rightarrow> nat" where
  "avail d w = (case map_of (fds w) (nat d) of
     Some (DReg p off) \<Rightarrow> (case fs w p of Some (Reg dat) \<Rightarrow> length dat - off | _ \<Rightarrow> 0)
   | Some (DSock inp ip pt) \<Rightarrow> length inp
   | _ \<Rightarrow> 0)"

lemma avail_update [simp]: "avail d (w\<lparr>orc := xs\<rparr>) = avail d w" "avail d (w\<lparr>err_no := e\<rparr>) = avail d w"
  by (auto simp: avail_def split: option.splits desc.splits node.splits)

lemma sys_read_one:
  assumes "run_state (sys_read d (Suc 0)) w = ((r, bs), w')"
  shows "r = -1 \<Longrightarrow> err_no w' = Some EINTR \<Longrightarrow>
      length (orc w') + avail d w' < length (orc w) + avail d w"
    and "r \<noteq> -1 \<Longrightarrow> bs \<noteq> [] \<Longrightarrow> length (orc w') + avail d w' < length (orc w) + avail d w"
  using assms unfolding sys_read_def
  by (cases rule: syscall_cases;
      force simp: Let_def avail_def map_of_fd_set split: if_splits option.splits desc.splits node.splits)+

function read_line_loop :: "int \<Rightarrow> nat \<Rightarrow> nat \<Rightarrow> nat \<Rightarrow> mem \<Rightarrow> world \<Rightarrow> (int \<times> mem) \<times> world" where
  "read_line_loop d off buf_space tot m w =
     (case run_state (sys_read d 1) w of ((bytes_read, bs), w1) \<Rightarrow>
        if bytes_read = -1 then
          (if err_no w1 = Some EINTR then read_line_loop d off buf_space tot m w1
           else ((GEN_ERR_ANY, m), w1))
        else if bs = [] then
          (if tot = 0 then ((0, m), w1) else ((int tot, poke (off + tot) [NUL] m), w1))
        else if hd bs = LF \<or> hd bs = NUL then ((int tot, poke (off + tot) [NUL] m), w1)
        else if tot < buf_space - 1
        then read_line_loop d off buf_space (tot + 1) (poke (off + tot) [hd bs] m) w1
        else read_line_loop d off buf_space tot m w1)"
  by pat_completeness auto
termination
  by (relation "measure (\<lambda>(d, off, buf_space, tot, m, w). length (orc w) + avail d w)")
    (auto dest: sys_read_one [OF sym])

declare read_line_loop.simps [simp del]

definition read_line :: "int \<Rightarrow> nat \<Rightarrow> nat \<Rightarrow> mem \<Rightarrow> (int \<times> mem) prog" where
  "read_line d off buf_space m = do {
     set_errno None;
     CHECK_ARGS (buf_space = 0) (GEN_ERR_INV_ARGS, m) (State (read_line_loop d off buf_space 0 m)) }"

end
