(* ===== verification/UtilLaws.thy ===== *)
theory UtilLaws
  imports Util
begin

text \<open>
  What the loops of \<open>Util\<close> do: they keep every relation of \<open>os_rel\<close>; a transfer is all or
  nothing under short transfers; a line is read back as it was sent, whatever interrupts occur;
  decimal numerals survive printing and parsing.
\<close>

subsection \<open>Preorders\<close>

context os_rel begin

lemma sat_State: "(\<And>w. R w (snd (f w))) \<Longrightarrow> state_io_rel R (State f)"
  by (simp add: state_io_rel_def)

lemma write_loop_rel: "R w (snd (write_loop d buf tot w))"
proof (induction d buf tot w rule: write_loop.induct)
  case (1 d buf tot w)
  obtain r w1 where run: "run_state (sys_write d buf) w = (r, w1)" by fastforce
  then have "R w w1" using sat_run [OF sat_write] by blast
  then show ?case
    using "1" [OF run [symmetric] refl refl]
    by (subst write_loop.simps) (auto simp: run Let_def intro: R_trans)
qed

lemma read_loop_rel: "R w (snd (read_loop d off left tot m w))"
proof (induction d off left tot m w rule: read_loop.induct)
  case (1 d off left tot m w)
  obtain r bs w1 where run: "run_state (sys_read d left) w = ((r, bs), w1)" by (metis prod.exhaust)
  then have "R w w1" using sat_run [OF sat_read] by blast
  then show ?case
    using "1" [OF run [symmetric] refl refl refl]
    by (subst read_loop.simps) (auto simp: run Let_def intro: R_trans)
qed

lemma read_line_loop_rel: "R w (snd (read_line_loop d off sp tot m w))"
proof (induction d off sp tot m w rule: read_line_loop.induct)
  case (1 d off sp tot m w)
  obtain r bs w1 where run: "run_state (sys_read d 1) w = ((r, bs), w1)" by (metis prod.exhaust)
  then have w1: "R w w1" using sat_run [OF sat_read] by blast
  note IH = "1" [OF run [symmetric] refl]
  show ?case
  proof (cases "r = -1")
    case True
    with w1 IH show ?thesis
      by (subst read_line_loop.simps) (auto simp: run [simplified] intro: R_trans)
  next
    case False
    with w1 IH show ?thesis
      by (subst read_line_loop.simps) (auto simp: run [simplified] intro: R_trans)
  qed
qed

lemma sat_write_bytes [prog_sat]: "state_io_rel R (write_bytes d buf)"
  by (simp add: write_bytes_def sat_return sat_State write_loop_rel)

lemma sat_read_bytes [prog_sat]: "state_io_rel R (read_bytes d m len)"
  by (simp add: read_bytes_def sat_return sat_State read_loop_rel)

lemma sat_read_line [prog_sat]: "state_io_rel R (read_line d off sp m)"
  by (auto simp: read_line_def intro!: sat_bind sat_set_errno sat_return sat_State read_line_loop_rel)

lemma sat_str_to_num [prog_sat]: "state_io_rel R (str_to_num s ty)"
  by (auto simp: str_to_num_def Let_def split: prod.splits
      intro!: sat_bind sat_set_errno sat_return sat_get)

end

subsection \<open>Quiet transfers\<close>

lemma fd_set_twice [simp]: "fd_set n d (fd_set n d' t) = fd_set n d t"
  by (auto simp: fd_set_def)

lemma run_write_bytes_sock [quiet_simps]:
  "quiet w \<Longrightarrow> map_of (fds w) n = Some (DSock inp ip pt) \<Longrightarrow> bs \<noteq> [] \<Longrightarrow>
   run_state (write_bytes (int n) bs) w = (int (length bs), w\<lparr>trace := trace w @ [EvSend n bs]\<rparr>)"
  by (simp add: write_bytes_def write_loop.simps [of "int n" bs] run_write_sock)

lemma run_write_bytes_file [quiet_simps]:
  "quiet w \<Longrightarrow> map_of (fds w) n = Some (DReg p 0) \<Longrightarrow> fs w p = Some (Reg []) \<Longrightarrow> bs \<noteq> [] \<Longrightarrow>
   run_state (write_bytes (int n) bs) w =
     (int (length bs), w\<lparr>fs := (fs w)(p \<mapsto> Reg bs), fds := fd_set n (DReg p (length bs)) (fds w)\<rparr>)"
  by (simp add: write_bytes_def write_loop.simps [of "int n" bs] run_write_file)

lemma run_read_bytes_file [quiet_simps]:
  assumes "quiet w" "map_of (fds w) n = Some (DReg p 0)" "fs w p = Some (Reg dat)"
    and "length dat = k" "0 < k"
  shows "run_state (read_bytes (int n) m k) w =
     ((int k, poke 0 dat m), w\<lparr>fds := fd_set n (DReg p k) (fds w)\<rparr>)"
  using assms
  by (simp add: read_bytes_def read_loop.simps [of "int n" 0 k] run_read_file)

lemma run_read_bytes_empty [quiet_simps]:
  assumes "quiet w" "map_of (fds w) n = Some (DReg p 0)" "fs w p = Some (Reg [])" "0 < k"
  shows "run_state (read_bytes (int n) m k) w = ((0, m), w\<lparr>fds := fd_set n (DReg p 0) (fds w)\<rparr>)"
  using assms
  by (simp add: read_bytes_def read_loop.simps [of "int n" 0 k] run_read_file)

lemma poke_Cons:
  "off + length bs < length m \<Longrightarrow> poke (Suc off) bs (poke off [c] m) = poke off (c # bs) m"
  by (simp add: poke_def min_def add.commute)

lemma read_line_loop_sock:
  assumes "quiet w" "map_of (fds w) n = Some (DSock (s @ c # rest) ip pt)" "c = NUL \<or> c = LF"
    and "wire_string s" "tot < sp" "off + sp \<le> length m"
  shows "read_line_loop (int n) off sp tot m w =
    ((int (min (tot + length s) (sp - 1)), poke (off + tot) (take (sp - 1 - tot) s @ [NUL]) m),
     w\<lparr>fds := fd_set n (DSock rest ip pt) (fds w)\<rparr>)"
  using assms
proof (induction s arbitrary: w tot m)
  case Nil
  then show ?case
    by (subst read_line_loop.simps) (auto simp: run_read_sock min_def)
next
  case (Cons x s)
  let ?w = "w\<lparr>fds := fd_set n (DSock (s @ c # rest) ip pt) (fds w)\<rparr>"
  have look: "map_of (fds ?w) n = Some (DSock (s @ c # rest) ip pt)"
    using Cons.prems by (simp add: map_of_fd_set)
  show ?case
  proof (cases "tot < sp - 1")
    case True
    then have "sp - 1 - tot = Suc (sp - 1 - Suc tot)" by simp
    with True Cons.prems Cons.IH [of ?w "Suc tot" "poke (off + tot) [x] m"] look show ?thesis
      by (subst read_line_loop.simps) (auto simp: run_read_sock poke_Cons)
  next
    case False
    with Cons.prems Cons.IH [of ?w tot m] look show ?thesis
      by (subst read_line_loop.simps) (auto simp: run_read_sock)
  qed
qed

text \<open>A line of the protocol, sent with its terminating zero, is received whole up to the
  buffer's size; the bytes behind it stay in the stream.\<close>

lemma run_read_line_sock [quiet_simps]:
  assumes "quiet w" "map_of (fds w) n = Some (DSock (s @ NUL # rest) ip pt)" "wire_string s"
    and "0 < sp" "off + sp \<le> length m"
  shows "run_state (read_line (int n) off sp m) w =
    ((int (min (length s) (sp - 1)), strcpy off (take (sp - 1) s) m),
     w\<lparr>err_no := None, fds := fd_set n (DSock rest ip pt) (fds w)\<rparr>)"
  using assms read_line_loop_sock [of "w\<lparr>err_no := None\<rparr>" n s NUL rest ip pt 0 sp off m]
  by (simp add: read_line_def run_set_errno strcpy_def)

text \<open>At the end of the stream \<^verbatim>\<open>read_line\<close> reports 0 bytes and leaves the buffer as it
  was: not even a terminating zero is stored.\<close>

lemma run_read_line_eof [quiet_simps]:
  assumes "quiet w" "map_of (fds w) n = Some (DSock [] ip pt)" "0 < sp"
  shows "run_state (read_line (int n) off sp m) w =
    ((0, m), w\<lparr>err_no := None, fds := fd_set n (DSock [] ip pt) (fds w)\<rparr>)"
  using assms
  by (simp add: read_line_def run_set_errno read_line_loop.simps [of "int n" off sp 0 m] run_read_sock)

lemma fd_set_same: "distinct (map fst t) \<Longrightarrow> map_of t n = Some d \<Longrightarrow> fd_set n d t = t"
  by (induction t) (auto simp: fd_set_Cons fd_set_absent split: if_splits)

subsection \<open>Numbers\<close>

lemma digits_value_append: "digits_value (ds @ [c]) = 10 * digits_value ds + digit_val c"
  by (simp add: digits_value_def)

lemma digits_value_show_nat [simp]: "digits_value (show_nat n) = n"
proof (induction n rule: show_nat.induct)
  case (1 n)
  show ?case
  proof (cases "n < 10")
    case True
    then show ?thesis by (simp add: show_nat.simps [of n] digits_value_def)
  next
    case False
    with "1" show ?thesis by (simp add: show_nat.simps [of n] digits_value_append)
  qed
qed

lemma is_digit_not_space: "is_digit c \<Longrightarrow> \<not> is_space c \<and> c \<noteq> CHR ''-'' \<and> c \<noteq> CHR ''+''"
  by (auto simp: is_digit_def is_space_def)

lemma strtol_digits:
  assumes "s \<noteq> []" "\<forall>c\<in>set s. is_digit c" "int (digits_value s) \<le> LONG_MAX"
  shows "strtol s = (int (digits_value s), length s, False)"
proof -
  have hd: "is_digit (hd s)" using assms by simp
  then have dw: "dropWhile is_space s = s"
    using assms(1) is_digit_not_space by (cases s) auto
  have tw: "takeWhile is_digit s = s" using assms(2) by (simp add: takeWhile_eq_all_conv)
  show ?thesis
    using assms is_digit_not_space [OF hd]
    by (simp add: strtol_def Let_def dw tw LONG_MIN_def max_def min_def)
qed

lemma strtol_show_nat: "n < 2 ^ 63 \<Longrightarrow> strtol (show_nat n) = (int n, length (show_nat n), False)"
  using strtol_digits [of "show_nat n"] show_nat_digits [of n] by (simp add: LONG_MAX_def)

lemma run_str_to_num_show [quiet_simps]:
  "n < 2 ^ 63 \<Longrightarrow> run_state (str_to_num (show_nat n) UINT_TYPE) w =
     ((0, Some (word_of_nat n)), w\<lparr>err_no := None\<rparr>)"
  "n < 2 ^ 63 \<Longrightarrow> run_state (str_to_num (show_nat n) INT_TYPE) w =
     ((0, Some (word_of_nat n)), w\<lparr>err_no := None\<rparr>)"
  by (simp_all add: str_to_num_def cast_defs run_set_errno strtol_show_nat)

end
