(* ===== verification/NetUtil.thy ===== *)
theory NetUtil
  imports UtilLaws
begin

text \<open>
  \<^verbatim>\<open>src/netUtil.c\<close>: a server reply is one byte, a string travels with its terminating
  zero, and a received string is one line of at most \<^verbatim>\<open>MAX_MSG_SIZE - 1\<close> characters stored
  at an offset of the caller's structure. A failing transfer closes the socket, as the macro
  \<^verbatim>\<open>CHECK_SOCK_ERROR\<close> of \<^verbatim>\<open>util.h\<close> does.
\<close>

definition send_server_reply :: "int \<Rightarrow> u8 \<Rightarrow> int prog" where
  "send_server_reply socket reply = do {
     ret_val \<leftarrow> write_bytes socket (enc_le 1 (unat reply));
     CHECK_SOCK_ERROR ret_val socket GEN_ERR_ANY (return 0) }"

definition send_string :: "int \<Rightarrow> string \<Rightarrow> int prog" where
  "send_string socket s = do {
     ret_val \<leftarrow> write_bytes socket (s @ [NUL]);
     CHECK_SOCK_ERROR ret_val socket GEN_ERR_ANY (return 0) }"

definition recv_string :: "int \<Rightarrow> nat \<Rightarrow> mem \<Rightarrow> (int \<times> mem) prog" where
  "recv_string socket off m = do {
     (ret_val, m) \<leftarrow> read_line socket off MAX_MSG_SIZE m;
     CHECK_SOCK_ERROR ret_val socket (GEN_ERR_ANY, m) (return (0, m)) }"

context os_rel begin

lemma sat_send_server_reply [prog_sat]: "state_io_rel R (send_server_reply s r)"
  by (auto simp: send_server_reply_def intro!: prog_sat)

lemma sat_send_string [prog_sat]: "state_io_rel R (send_string s t)"
  by (auto simp: send_string_def intro!: prog_sat)

lemma sat_recv_string [prog_sat]: "state_io_rel R (recv_string s off m)"
  by (auto simp: recv_string_def intro!: prog_sat)

end

lemma run_send_server_reply [quiet_simps]:
  "quiet w \<Longrightarrow> map_of (fds w) n = Some (DSock inp ip pt) \<Longrightarrow>
   run_state (send_server_reply (int n) r) w =
     (0, w\<lparr>trace := trace w @ [EvSend n [char_of (unat r)]]\<rparr>)"
  by (simp add: send_server_reply_def CHECK_SOCK_ERROR_def run_write_bytes_sock)

lemma run_send_string [quiet_simps]:
  "quiet w \<Longrightarrow> map_of (fds w) n = Some (DSock inp ip pt) \<Longrightarrow>
   run_state (send_string (int n) s) w = (0, w\<lparr>trace := trace w @ [EvSend n (s @ [NUL])]\<rparr>)"
  by (simp add: send_string_def CHECK_SOCK_ERROR_def run_write_bytes_sock)

lemma run_recv_string [quiet_simps]:
  assumes "quiet w" "map_of (fds w) n = Some (DSock (s @ NUL # rest) ip pt)" "wire_string s"
    and "off + MAX_MSG_SIZE \<le> length m"
  shows "run_state (recv_string (int n) off m) w =
    ((0, strcpy off (take 255 s) m),
     w\<lparr>err_no := None, fds := fd_set n (DSock rest ip pt) (fds w)\<rparr>)"
  using assms run_read_line_sock [OF assms(1-3) _ assms(4)]
  by (simp add: recv_string_def CHECK_SOCK_ERROR_def MAX_MSG_SIZE_def)

lemma run_recv_string_eof [quiet_simps]:
  assumes "quiet w" "map_of (fds w) n = Some (DSock [] ip pt)"
  shows "run_state (recv_string (int n) off m) w =
    ((0, m), w\<lparr>err_no := None, fds := fd_set n (DSock [] ip pt) (fds w)\<rparr>)"
  using assms run_read_line_eof [OF assms, of MAX_MSG_SIZE]
  by (simp add: recv_string_def CHECK_SOCK_ERROR_def MAX_MSG_SIZE_def)

end
