(* ===== verification/DbmsUtil.thy ===== *)
theory DbmsUtil
  imports UtilLaws
begin

text \<open>
  \<^verbatim>\<open>src/dbms/dbmsUtil.c\<close>: opening files and directories in the program's modes, recursive
  removal, and the transfer of one \<^verbatim>\<open>entry_t\<close> between memory and an open file.
\<close>

text \<open>A \<^verbatim>\<open>DIR *\<close>: its descriptor and the entries \<^verbatim>\<open>readdir\<close> will return.\<close>

type_synonym dstream = "nat \<times> (string \<times> bool) list"

definition open_file :: "string \<Rightarrow> char \<Rightarrow> int prog" where
  "open_file path mode =
     (if mode = READ then sys_open path O_RDONLY
      else if mode = CREATE then sys_open path O_WRONLY_CREAT_EXCL
      else if mode = MODIFY then sys_open path O_WRONLY_TRUNC
      else return GEN_ERR_INV_ARGS)"

definition open_directory :: "string \<Rightarrow> char \<Rightarrow> (int \<times> dstream option) prog" where
  "open_directory path mode = do {
     set_errno None;
     CHECK_ARGS (mode \<noteq> CREATE \<and> mode \<noteq> READ \<and> mode \<noteq> OVERWRITE) (GEN_ERR_INV_ARGS, None) (do {
       directory \<leftarrow> sys_opendir path;
       w \<leftarrow> State_Monad.get;
       if directory = None then
         (if err_no w = Some ENOENT then
            (if mode = CREATE \<or> mode = OVERWRITE then do {
               ret_val \<leftarrow> sys_mkdir path;
               CHECK_FUNC_ERROR_WITH_ERRNO ret_val (DBMS_ERR_ANY, None) (do {
                 directory \<leftarrow> sys_opendir path;
                 CHECK_ERROR_WITH_ERRNO (directory = None) (DBMS_ERR_ANY, None) (
                   return (DBMS_SUCCESS, directory)) }) }
             else return (DBMS_ERR_NOT_EXISTS, None))
          else return (DBMS_ERR_ANY, None))
       else return (if mode = CREATE then DBMS_ERR_EXISTS else DBMS_SUCCESS, directory) }) }"

text \<open>The end of \<^verbatim>\<open>remove_recursive\<close>, reached whether or not the path was a directory.\<close>

definition remove_finish :: "string \<Rightarrow> int prog" where
  "remove_finish path = do {
     w \<leftarrow> State_Monad.get;
     if err_no w = Some ENOENT then return DBMS_ERR_NOT_EXISTS
     else sys_remove path }"

lemma sys_opendir_short:
  assumes "run_state (sys_opendir s) w = (Some x, w')"
  shows "length s < PATH_MAX"
  using assms unfolding sys_opendir_def
  by (cases rule: syscall_cases)
    (auto simp: resolve_def resolve_in_def split: sum.splits option.splits node.splits if_splits)

text \<open>
  \<^verbatim>\<open>remove_recursive\<close> and the loop over the entries of one directory, which returns the
  error that ends it early, or \<open>None\<close>. The recursion ends because a path longer than
  \<^verbatim>\<open>PATH_MAX\<close> cannot be opened as a directory.
\<close>

function (sequential) remove_recursive :: "string \<Rightarrow> world \<Rightarrow> int \<times> world"
  and remove_entries :: "string \<Rightarrow> nat \<Rightarrow> (string \<times> bool) list \<Rightarrow> world \<Rightarrow> int option \<times> world"
where
  "remove_recursive path w =
     (case run_state (sys_opendir path) (w\<lparr>err_no := None\<rparr>) of
        (Some (directory, entries), w1) \<Rightarrow>
          (case remove_entries path directory entries w1 of
             (Some err, w2) \<Rightarrow> (err, w2)
           | (None, w2) \<Rightarrow>
               run_state (do { sys_closedir directory; remove_finish path }) w2)
      | (None, w1) \<Rightarrow> run_state (remove_finish path) w1)"
| "remove_entries path directory [] w = (None, w)"
| "remove_entries path directory ((name, is_dir) # entries) w =
     (if name = ''.'' \<or> name = ''..'' then remove_entries path directory entries w
      else
        (case (if is_dir then remove_recursive (path @ SLASH # name) w
               else run_state (sys_remove (path @ SLASH # name)) w) of (ret_val, w1) \<Rightarrow>
           if ret_val < 0
           then run_state (do { sys_closedir directory; return (Some DBMS_ERR_ANY) }) w1
           else remove_entries path directory entries w1))"
  by pat_completeness auto
termination
  by (relation "measures [
        \<lambda>x. case x of
             Inl (path, w) \<Rightarrow> 2 * (PATH_MAX - length path)
           | Inr (path, directory, entries, w) \<Rightarrow>
               (if length path < PATH_MAX then 2 * (PATH_MAX - length path) - 1 else 1),
        \<lambda>x. case x of Inl _ \<Rightarrow> 0 | Inr (path, directory, entries, w) \<Rightarrow> length entries]")
    (auto dest!: sys_opendir_short [OF sym])

declare remove_recursive.simps [simp del] remove_entries.simps(2) [simp del]

definition read_entry :: "int \<Rightarrow> mem \<Rightarrow> (int \<times> mem) prog" where
  "read_entry entry_fd entry = do {
     (bytes_read, entry) \<leftarrow> read_bytes entry_fd entry sizeof_entry;
     if bytes_read = -1 then do { _ \<leftarrow> sys_close entry_fd; return (DBMS_ERR_ANY, entry) }
     else if bytes_read = 0 then do { _ \<leftarrow> sys_close entry_fd; return (DBMS_ERR_ANY, entry) }
     else return (DBMS_SUCCESS, entry) }"

definition write_entry :: "int \<Rightarrow> mem \<Rightarrow> (int \<times> mem) prog" where
  "write_entry entry_fd entry = do {
     bytes_written \<leftarrow> write_bytes entry_fd (take sizeof_entry entry);
     if bytes_written = -1 then do { _ \<leftarrow> sys_close entry_fd; return (DBMS_ERR_ANY, entry) }
     else return (DBMS_SUCCESS, entry) }"

context os_rel begin

lemma sat_open_file [prog_sat]: "state_io_rel R (open_file p c)"
  by (auto simp: open_file_def intro!: prog_sat)

lemma sat_open_directory [prog_sat]: "state_io_rel R (open_directory p c)"
  by (auto simp: open_directory_def intro!: prog_sat)

lemma sat_remove_finish [prog_sat]: "state_io_rel R (remove_finish p)"
  by (auto simp: remove_finish_def intro!: prog_sat)

lemma remove_rel:
  "R w (snd (remove_recursive path w))"
  "R v (snd (remove_entries path2 d es v))"
proof (induction path w and path2 d es v rule: remove_recursive_remove_entries.induct)
  case (1 path w)
  obtain r w1 where run: "run_state (sys_opendir path) (w\<lparr>err_no := None\<rparr>) = (r, w1)" by fastforce
  then have w1: "R w w1"
    using sat_run [OF sat_opendir] R_trans R_errno by blast
  show ?case
  proof (cases r)
    case None
    with run w1 sat_snd [OF sat_remove_finish, of w1 path] show ?thesis
      by (auto simp: remove_recursive.simps [of path w] intro: R_trans)
  next
    case (Some x)
    obtain d es where x: "x = (d, es)" by fastforce
    obtain e w2 where loop: "remove_entries path d es w1 = (e, w2)" by fastforce
    have "R w1 (snd (remove_entries path d es w1))"
      by (rule "1" [OF run [symmetric] Some x [symmetric]])
    with loop have "R w1 w2" by simp
    with w1 have w2: "R w w2" by (rule R_trans)
    have fin: "R w2 (snd (run_state (do { sys_closedir d; remove_finish path }) w2))"
      by (intro sat_snd prog_sat)
    show ?thesis
    proof (cases e)
      case None
      with w2 fin loop run Some x show ?thesis
        by (simp add: remove_recursive.simps [of path w] del: run_state_bind) (rule R_trans)
    next
      case (Some err)
      with w2 loop run \<open>r = Some x\<close> x show ?thesis
        by (simp add: remove_recursive.simps [of path w])
    qed
  qed
next
  case (2 path d w)
  then show ?case by (simp add: R_refl remove_entries.simps)
next
  case (3 path d name is_dir es w)
  show ?case
  proof (cases "name = ''.'' \<or> name = ''..''")
    case True
    with 3 show ?thesis by (auto simp: remove_entries.simps)
  next
    case False
    obtain r w1 where rm: "(if is_dir then remove_recursive (path @ SLASH # name) w
        else run_state (sys_remove (path @ SLASH # name)) w) = (r, w1)" by fastforce
    have w1: "R w w1"
    proof (cases is_dir)
      case True
      with "3.IH"(2) [OF False] rm show ?thesis by auto
    next
      case not_dir: False
      with rm show ?thesis using sat_run [OF sat_remove] by auto
    qed
    have err: "R w1 (snd (run_state (do { sys_closedir d; return (Some DBMS_ERR_ANY) }) w1))"
      by (intro sat_snd prog_sat)
    show ?thesis
      using w1 err "3.IH"(3) [OF False rm [symmetric]] False rm
      by (auto simp: remove_entries.simps(2) simp del: run_state_bind intro: R_trans)
  qed
qed

lemma sat_remove_recursive [prog_sat]: "state_io_rel R (State (remove_recursive path))"
  by (intro sat_State remove_rel)

lemma sat_read_entry [prog_sat]: "state_io_rel R (read_entry d m)"
  by (auto simp: read_entry_def intro!: prog_sat)

lemma sat_write_entry [prog_sat]: "state_io_rel R (write_entry d m)"
  by (auto simp: write_entry_def intro!: prog_sat)

end

end
