(* ===== verification/Dbms.thy ===== *)
theory Dbms
  imports UtilH DbmsUtil
begin

text \<open>
  \<^verbatim>\<open>src/dbms/dbms.c\<close>, the database of the server: one directory per user below
  \<^verbatim>\<open>users\<close>, holding the file \<^verbatim>\<open>userdata.entry\<close> and the directory \<^verbatim>\<open>pend_msgs-table\<close>
  with one file per pending message, named by the message's number. Path strings are built with
  \<open>sys_sprintf\<close> into buffers of the sizes the code declares.
\<close>

definition TRUE :: int where "TRUE = 1"
definition FALSE :: int where "FALSE = 0"

definition close_stream :: "dstream option \<Rightarrow> unit prog" where
  "close_stream d = (case d of Some (n, _) \<Rightarrow> sys_closedir n | None \<Rightarrow> return ())"

definition user_table_str :: "string \<Rightarrow> string" where
  "user_table_str u = DB_DIR @ SLASH # u @ ''-table''"

definition db_init_db :: "int prog" where
  "db_init_db = do {
     (ret_val, db) \<leftarrow> open_directory DB_DIR OVERWRITE;
     CHECK_FUNC_ERROR ret_val DBMS_ERR_ANY (do { close_stream db; return DBMS_SUCCESS }) }"

definition db_empty_db :: "int prog" where
  "db_empty_db = State (remove_recursive DB_DIR)"

definition db_user_exists :: "string \<Rightarrow> int prog" where
  "db_user_exists username = do {
     user_path \<leftarrow> sys_sprintf (length DB_DIR + length username + 7) (user_table_str username);
     (result, user_table) \<leftarrow> open_directory user_path READ;
     if result = DBMS_ERR_NOT_EXISTS then return FALSE
     else if result = DBMS_SUCCESS then do { close_stream user_table; return TRUE }
     else return result }"

text \<open>The path of an entry, and the size of the buffer it is printed to.\<close>

definition entry_path_str :: "mem \<Rightarrow> string" where
  "entry_path_str entry =
     (if get_type entry = ENT_TYPE_UD
      then user_table_str (cstr en_username entry) @ SLASH # USERDATA_ENTRY
      else user_table_str (cstr en_username entry) @ SLASH # PEND_MSGS_TABLE @ SLASH #
             show_nat (unat (get_u32 ms_id entry)))"

definition entry_len :: "mem \<Rightarrow> nat" where
  "entry_len entry =
     length DB_DIR + length (cstr en_username entry) + 9 +
     (if get_type entry = ENT_TYPE_UD then length USERDATA_ENTRY
      else length PEND_MSGS_TABLE + 1 + MSG_ID_MAX_STR_SIZE)"

definition db_io_op_usr_ent :: "mem \<Rightarrow> char \<Rightarrow> (int \<times> mem) prog" where
  "db_io_op_usr_ent entry mode =
     CHECK_ARGS (get_type entry \<noteq> ENT_TYPE_UD \<and> get_type entry \<noteq> ENT_TYPE_P_MSG)
       (GEN_ERR_INV_ARGS, entry) (
     CHECK_ARGS (mode \<noteq> CREATE \<and> mode \<noteq> MODIFY \<and> mode \<noteq> READ \<and> mode \<noteq> DELETE)
       (GEN_ERR_INV_ARGS, entry) (do {
        entry_path \<leftarrow> sys_sprintf (entry_len entry) (entry_path_str entry);
        if mode = DELETE then do {
          result \<leftarrow> State (remove_recursive entry_path);
          return (if result < 0 then result else DBMS_SUCCESS, entry) }
        else do {
          entry_fd \<leftarrow> open_file entry_path mode;
          if entry_fd = -1 then do {
            w \<leftarrow> State_Monad.get;
            if err_no w = Some ENOENT then return (DBMS_ERR_NOT_EXISTS, entry)
            else return (DBMS_ERR_ANY, entry) }
          else do {
            (result, entry) \<leftarrow> (if mode = READ then read_entry else write_entry) entry_fd entry;
            _ \<leftarrow> sys_close entry_fd;
            return (result, entry) } } }))"

text \<open>
  The loop of \<^verbatim>\<open>db_get_pend_msg\<close> over the directory entries: it stops at the first message.
  The result's first component is the error that ends the function at once, the second tells
  whether no message was found.
\<close>

fun pend_scan :: "(string \<times> bool) list \<Rightarrow> bool \<Rightarrow> mem \<Rightarrow> (int option \<times> bool \<times> mem) prog" where
  "pend_scan [] is_empty entry = return (None, is_empty, entry)"
| "pend_scan ((d_name, d_dir) # es) is_empty entry =
     (if \<not> is_empty then return (None, is_empty, entry)
      else if d_name = ''.'' \<or> d_name = ''..'' then pend_scan es is_empty entry
      else do {
        (ret_val, num) \<leftarrow> str_to_num d_name UINT_TYPE;
        let entry = (case num of Some v \<Rightarrow> set_u32 ms_id v entry | None \<Rightarrow> entry);
        CHECK_FUNC_ERROR ret_val (Some DBMS_ERR_ANY, is_empty, entry) (do {
          (_, entry) \<leftarrow> db_io_op_usr_ent entry READ;
          pend_scan es False entry }) })"

declare pend_scan.simps(2) [simp del]

definition db_get_pend_msg :: "mem \<Rightarrow> (int \<times> mem) prog" where
  "db_get_pend_msg entry =
     CHECK_ARGS (get_type entry \<noteq> ENT_TYPE_P_MSG) (GEN_ERR_INV_ARGS, entry) (do {
        let u = cstr en_username entry;
        table_path \<leftarrow> sys_sprintf (length DB_DIR + length u + length PEND_MSGS_TABLE + 9)
          (user_table_str u @ SLASH # PEND_MSGS_TABLE);
        (ret_val, pend_msg_table) \<leftarrow> open_directory table_path READ;
        CHECK_FUNC_ERROR ret_val (DBMS_ERR_ANY, entry) (do {
          (early, is_empty, entry) \<leftarrow>
            pend_scan (case pend_msg_table of Some (_, es) \<Rightarrow> es | None \<Rightarrow> []) True entry;
          case early of
            Some err \<Rightarrow> return (err, entry)
          | None \<Rightarrow> do {
              close_stream pend_msg_table;
              return (if \<not> is_empty then DBMS_SUCCESS else DBMS_ERR_NOT_EXISTS, entry) } }) })"

definition db_creat_usr_tbl :: "mem \<Rightarrow> (int \<times> mem) prog" where
  "db_creat_usr_tbl entry = do {
     let u = cstr en_username entry;
     user_table_path \<leftarrow> sys_sprintf (length DB_DIR + length u + 8) (user_table_str u);
     ud_entry_path \<leftarrow> sys_sprintf (length user_table_path + length USERDATA_ENTRY + 2)
       (user_table_path @ SLASH # USERDATA_ENTRY);
     p_msg_table_path \<leftarrow> sys_sprintf (length user_table_path + length PEND_MSGS_TABLE + 2)
       (user_table_path @ SLASH # PEND_MSGS_TABLE);
     (result, user_table) \<leftarrow> open_directory user_table_path CREATE;
     if result = DBMS_ERR_EXISTS then do { close_stream user_table; return (DBMS_ERR_EXISTS, entry) }
     else if result < 0 then return (DBMS_ERR_ANY, entry)
     else do {
       (r, entry) \<leftarrow> db_io_op_usr_ent entry CREATE;
       if r < 0 then return (DBMS_ERR_ANY, entry)
       else do {
         (r, p_msg_table) \<leftarrow> open_directory p_msg_table_path CREATE;
         if r < 0 then return (DBMS_ERR_ANY, entry)
         else do { close_stream p_msg_table; return (DBMS_SUCCESS, entry) } } } }"

definition db_del_usr_tbl :: "string \<Rightarrow> int prog" where
  "db_del_usr_tbl username = do {
     table_path \<leftarrow> sys_sprintf (length DB_DIR + length username + 8) (user_table_str username);
     State (remove_recursive table_path) }"

context os_rel begin

lemma sat_close_stream [prog_sat]: "state_io_rel R (close_stream d)"
  by (auto simp: close_stream_def intro!: prog_sat)

lemma sat_db_init_db [prog_sat]: "state_io_rel R db_init_db"
  by (auto simp: db_init_db_def intro!: prog_sat)

lemma sat_db_empty_db [prog_sat]: "state_io_rel R db_empty_db"
  by (auto simp: db_empty_db_def intro!: prog_sat)

lemma sat_db_user_exists [prog_sat]: "state_io_rel R (db_user_exists u)"
  by (auto simp: db_user_exists_def intro!: prog_sat)

lemma sat_db_io_op_usr_ent [prog_sat]: "state_io_rel R (db_io_op_usr_ent e c)"
  by (auto simp: db_io_op_usr_ent_def intro!: prog_sat)

lemma sat_pend_scan [prog_sat]: "state_io_rel R (pend_scan es b e)"
  by (induction es b e rule: pend_scan.induct)
    (auto simp: pend_scan.simps Let_def intro!: prog_sat)

lemma sat_db_get_pend_msg [prog_sat]: "state_io_rel R (db_get_pend_msg e)"
  by (auto simp: db_get_pend_msg_def Let_def intro!: prog_sat)

lemma sat_db_creat_usr_tbl [prog_sat]: "state_io_rel R (db_creat_usr_tbl e)"
  by (auto simp: db_creat_usr_tbl_def Let_def intro!: prog_sat)

lemma sat_db_del_usr_tbl [prog_sat]: "state_io_rel R (db_del_usr_tbl u)"
  by (auto simp: db_del_usr_tbl_def intro!: prog_sat)

end

end
