(* ===== verification/Services.thy ===== *)
theory Services
  imports NetUtil Dbms
begin

text \<open>
  \<^verbatim>\<open>src/services.c\<close>: the five services of the server, REGISTER, UNREGISTER, CONNECT,
  DISCONNECT and SEND, and the two it calls at a client's listening thread. A service gets the
  socket and the \<^verbatim>\<open>request_t\<close> of the service thread, which it fills in, so the memory of
  the request is a result. Function arguments passed by pointer and changed are results too.

  What stack variables hold before they are set is not determined; \<open>junk\<close> supplies it.
\<close>

record junk =
  jk_reply :: u8
  jk_send_msg_reply :: u8
  jk_entry :: mem
  jk_msg_entry :: mem
  jk_recipient_entry :: mem
  jk_sender_entry :: mem
  jk_pend_msg_entry :: mem
  jk_send_msg_request :: mem
  jk_send_msg_ack_request :: mem

subsection \<open>Services at the client's listening thread\<close>

definition aux_connect_clt_listen_thread :: "mem \<Rightarrow> (int \<times> mem) prog" where
  "aux_connect_clt_listen_thread entry = do {
     (r, entry) \<leftarrow> db_io_op_usr_ent entry READ;
     if r < 0 then return (DBMS_ERR_ANY, entry)
     else do {
       clt_listen_socket \<leftarrow> sys_socket;
       CHECK_FUNC_ERROR_WITH_ERRNO clt_listen_socket (GEN_ERR_ANY, entry) (do {
         ret_val \<leftarrow> sys_connect clt_listen_socket (get_u32 ud_ip entry) (get_u16 ud_port entry);
         CHECK_FUNC_ERROR_WITH_ERRNO ret_val (GEN_ERR_ANY, entry) (return (clt_listen_socket, entry)) }) } }"

definition clt_send_message :: "mem \<Rightarrow> mem \<Rightarrow> (int \<times> mem) prog" where
  "clt_send_message request entry = do {
     (clt_listen_socket, entry) \<leftarrow> aux_connect_clt_listen_thread entry;
     CHECK_FUNC_ERROR clt_listen_socket (GEN_ERR_ANY, entry) (do {
       msg_id_str \<leftarrow> sys_sprintf 16 (show_nat (unat (get_u32 rq_msg_id request)));
       r \<leftarrow> send_string clt_listen_socket (cstr rq_op_code request);
       if r < 0 then return (GEN_ERR_ANY, entry) else do {
       r \<leftarrow> send_string clt_listen_socket (cstr rq_sender request);
       if r < 0 then return (GEN_ERR_ANY, entry) else do {
       r \<leftarrow> send_string clt_listen_socket msg_id_str;
       if r < 0 then return (GEN_ERR_ANY, entry) else do {
       r \<leftarrow> send_string clt_listen_socket (cstr rq_content request);
       if r < 0 then return (GEN_ERR_ANY, entry) else do {
       _ \<leftarrow> sys_close clt_listen_socket;
       return (uint SRV_SUCCESS, entry) } } } } }) }"

definition clt_send_mess_ack :: "mem \<Rightarrow> mem \<Rightarrow> (int \<times> mem) prog" where
  "clt_send_mess_ack request entry = do {
     (clt_listen_socket, entry) \<leftarrow> aux_connect_clt_listen_thread entry;
     CHECK_FUNC_ERROR clt_listen_socket (GEN_ERR_ANY, entry) (do {
       msg_id_str \<leftarrow> sys_sprintf 16 (show_nat (unat (get_u32 rq_msg_id request)));
       _ \<leftarrow> send_string clt_listen_socket (cstr rq_op_code request);
       _ \<leftarrow> send_string clt_listen_socket msg_id_str;
       _ \<leftarrow> sys_close clt_listen_socket;
       return (uint SRV_SUCCESS, entry) }) }"

subsection \<open>Parts of SEND\<close>

text \<open>\<^verbatim>\<open>(last_msg_id + 1) % MSG_ID_MAX_VALUE\<close>: the sum wraps as an \<^verbatim>\<open>unsigned int\<close>, the
  remainder is taken as a \<^verbatim>\<open>long\<close>.\<close>

definition next_msg_id :: "u32 \<Rightarrow> u32" where
  "next_msg_id v = word_of_nat (unat (v + 1) mod MSG_ID_MAX_VALUE)"

definition aux_send_init :: "mem \<Rightarrow> mem \<Rightarrow> (u8 \<times> mem) prog" where
  "aux_send_init request entry = do {
     sender_exists \<leftarrow> db_user_exists (cstr rq_sender request);
     recipient_exists \<leftarrow> db_user_exists (cstr rq_recipient request);
     if sender_exists = 0 \<or> recipient_exists = 0 then return (SRV_ERR_SEND_USR_NOT_EXISTS, entry)
     else if sender_exists < 0 \<or> recipient_exists < 0 then return (SRV_ERR_SEND_ANY, entry)
     else do {
       let entry = strcpy en_username (cstr rq_recipient request) (set_type ENT_TYPE_UD entry);
       (r, entry) \<leftarrow> db_io_op_usr_ent entry READ;
       if r < 0 then return (SRV_ERR_SEND_ANY, entry)
       else do {
         let entry = set_u32 ud_last_msg_id (next_msg_id (get_u32 ud_last_msg_id entry)) entry;
         (r, entry) \<leftarrow> db_io_op_usr_ent entry MODIFY;
         return (if r < 0 then SRV_ERR_SEND_ANY else SRV_SUCCESS, entry) } } }"

text \<open>The log line of a delivered message.\<close>

definition delivered_line :: "u32 \<Rightarrow> string \<Rightarrow> string \<Rightarrow> string" where
  "delivered_line msg_id sender recipient =
     ''s> SEND MESSAGE '' @ show_nat (unat msg_id) @ '' FROM '' @ sender @ '' TO '' @ recipient @ [LF]"

definition aux_send_msg_pass ::
  "mem \<Rightarrow> mem \<Rightarrow> u8 \<Rightarrow> mem \<Rightarrow> mem \<Rightarrow> (u8 \<times> mem \<times> mem) prog" where
  "aux_send_msg_pass send_msg_request request reply recipient_entry msg_entry = do {
     let msg_entry = set_type ENT_TYPE_P_MSG msg_entry;
     let msg_entry = strcpy en_username (cstr rq_recipient request) msg_entry;
     let msg_entry = strcpy ms_sender (cstr rq_sender request) msg_entry;
     let msg_entry = strcpy ms_content (cstr rq_content request) msg_entry;
     let msg_entry = set_u32 ms_id (get_u32 ud_last_msg_id recipient_entry) msg_entry;
     if get_u8 ud_status recipient_entry = STATUS_CN then do {
       let send_msg_request = strcpy rq_op_code SEND_MESSAGE send_msg_request;
       let send_msg_request = strcpy rq_sender (cstr rq_sender request) send_msg_request;
       let send_msg_request =
         set_u32 rq_msg_id (get_u32 ud_last_msg_id recipient_entry) send_msg_request;
       let send_msg_request = strcpy rq_content (cstr rq_content request) send_msg_request;
       (send_result, recipient_entry) \<leftarrow> clt_send_message send_msg_request recipient_entry;
       if send_result = uint SRV_SUCCESS then do {
         sys_printf (delivered_line (get_u32 ms_id msg_entry)
           (cstr rq_sender request) (cstr rq_recipient request));
         return (reply, recipient_entry, msg_entry) }
       else do {
         let recipient_entry = set_u8 ud_status STATUS_DCN recipient_entry;
         (r, recipient_entry) \<leftarrow> db_io_op_usr_ent recipient_entry MODIFY;
         return (if r < 0 then SRV_ERR_SEND_ANY else reply, recipient_entry, msg_entry) } }
     else return (reply, recipient_entry, msg_entry) }"

definition aux_send_first_ack :: "int \<Rightarrow> u8 \<Rightarrow> u32 \<Rightarrow> unit prog" where
  "aux_send_first_ack socket reply msg_id = do {
     r \<leftarrow> send_server_reply socket reply;
     if r < 0 then return ()
     else if reply = SRV_SUCCESS then do {
       msg_id_str \<leftarrow> sys_sprintf 16 (show_nat (unat msg_id));
       _ \<leftarrow> send_string socket msg_id_str;
       return () }
     else return () }"

subsection \<open>Part of CONNECT: the pending messages\<close>

text \<open>The variables of \<^verbatim>\<open>aux_connect_send_pend_msgs\<close>.\<close>

record flush =
  fl_send_msg_request :: mem
  fl_send_msg_ack_request :: mem
  fl_sender_entry :: mem
  fl_recipient_entry :: mem
  fl_pend_msg_entry :: mem

text \<open>The body of its loop, for the message just read; the result is the value the function
  returns, or \<open>None\<close> if the loop goes on.\<close>

definition pend_body :: "flush \<Rightarrow> (int option \<times> flush) prog" where
  "pend_body f = do {
     let pend_msg_entry = fl_pend_msg_entry f;
     let send_msg_request = strcpy rq_sender (cstr ms_sender pend_msg_entry) (fl_send_msg_request f);
     let send_msg_request = set_u32 rq_msg_id (get_u32 ms_id pend_msg_entry) send_msg_request;
     let send_msg_request = strcpy rq_content (cstr ms_content pend_msg_entry) send_msg_request;
     let send_msg_ack_request =
       set_u32 rq_msg_id (get_u32 ms_id pend_msg_entry) (fl_send_msg_ack_request f);
     let sender_entry = strcpy en_username (cstr ms_sender pend_msg_entry) (fl_sender_entry f);
     (r, recipient_entry) \<leftarrow> clt_send_message send_msg_request (fl_recipient_entry f);
     if r = uint SRV_SUCCESS then do {
       sys_printf (delivered_line (get_u32 rq_msg_id send_msg_request)
         (cstr rq_sender send_msg_request) (cstr rq_recipient send_msg_request));
       (_, pend_msg_entry) \<leftarrow> db_io_op_usr_ent pend_msg_entry DELETE;
       (_, sender_entry) \<leftarrow> clt_send_mess_ack send_msg_ack_request sender_entry;
       return (None, \<lparr>fl_send_msg_request = send_msg_request,
         fl_send_msg_ack_request = send_msg_ack_request, fl_sender_entry = sender_entry,
         fl_recipient_entry = recipient_entry, fl_pend_msg_entry = pend_msg_entry\<rparr>) }
     else do {
       let recipient_entry = set_u8 ud_status STATUS_DCN recipient_entry;
       (_, recipient_entry) \<leftarrow> db_io_op_usr_ent recipient_entry MODIFY;
       return (Some (uint SRV_ERR_SEND_ANY), \<lparr>fl_send_msg_request = send_msg_request,
         fl_send_msg_ack_request = send_msg_ack_request, fl_sender_entry = sender_entry,
         fl_recipient_entry = recipient_entry, fl_pend_msg_entry = pend_msg_entry\<rparr>) } }"

text \<open>The loop: it goes on while there is a pending message, and nothing in the code bounds it,
  so its value is \<open>None\<close> if it does not end.\<close>

partial_function (option) pend_loop :: "flush \<Rightarrow> world \<Rightarrow> (int \<times> world) option" where
  "pend_loop f w =
     (case run_state (db_get_pend_msg (fl_pend_msg_entry f)) w of ((r, pend_msg_entry), w1) \<Rightarrow>
        if r = DBMS_SUCCESS then
          (case run_state (pend_body (f\<lparr>fl_pend_msg_entry := pend_msg_entry\<rparr>)) w1 of ((out, f2), w2) \<Rightarrow>
             (case out of Some err \<Rightarrow> Some (err, w2) | None \<Rightarrow> pend_loop f2 w2))
        else Some (uint SRV_SUCCESS, w1))"

definition aux_connect_send_pend_msgs :: "junk \<Rightarrow> mem \<Rightarrow> world \<Rightarrow> (int \<times> world) option" where
  "aux_connect_send_pend_msgs jk pend_msg_entry w =
     (let send_msg_request = strcpy rq_op_code SEND_MESSAGE (jk_send_msg_request jk);
          send_msg_ack_request = strcpy rq_op_code SEND_MESS_ACK (jk_send_msg_ack_request jk);
          sender_entry = set_type ENT_TYPE_UD (jk_sender_entry jk);
          recipient_entry = strcpy en_username (cstr en_username pend_msg_entry)
            (set_type ENT_TYPE_UD (jk_recipient_entry jk))
      in case run_state (db_io_op_usr_ent recipient_entry READ) w of ((r, recipient_entry), w1) \<Rightarrow>
           if r < 0 then Some (DBMS_ERR_ANY, w1)
           else pend_loop \<lparr>fl_send_msg_request = send_msg_request,
             fl_send_msg_ack_request = send_msg_ack_request, fl_sender_entry = sender_entry,
             fl_recipient_entry = recipient_entry, fl_pend_msg_entry = pend_msg_entry\<rparr> w1)"

subsection \<open>Services of the server\<close>

text \<open>\<^verbatim>\<open>printf("s> %s %s OK\n", ...)\<close> or \<^verbatim>\<open>FAIL\<close>, as the four services log their result.\<close>

definition result_line :: "string \<Rightarrow> string \<Rightarrow> u8 \<Rightarrow> string" where
  "result_line op user reply =
     ''s> '' @ op @ '' '' @ user @ (if reply = SRV_SUCCESS then '' OK'' else '' FAIL'') @ [LF]"

definition srv_register :: "junk \<Rightarrow> int \<Rightarrow> mem \<Rightarrow> mem prog" where
  "srv_register jk socket request = do {
     (r, request) \<leftarrow> recv_string socket rq_username request;
     if r < 0 then return request
     else do {
       let entry = strcpy en_username (cstr rq_username request) (jk_entry jk);
       let entry = set_type ENT_TYPE_UD entry;
       let entry = set_u32 ud_last_msg_id 0 entry;
       (r, entry) \<leftarrow> db_creat_usr_tbl entry;
       let reply = (if r = DBMS_ERR_EXISTS then SRV_ERR_REG_USR_ALREADY_REG else SRV_SUCCESS);
       sys_printf (result_line REGISTER (cstr rq_username request) reply);
       _ \<leftarrow> send_server_reply socket reply;
       return request } }"

definition srv_unregister :: "int \<Rightarrow> mem \<Rightarrow> mem prog" where
  "srv_unregister socket request = do {
     (r, request) \<leftarrow> recv_string socket rq_username request;
     if r < 0 then return request
     else do {
       user_exists \<leftarrow> db_user_exists (cstr rq_username request);
       reply \<leftarrow>
         (if user_exists = TRUE then do {
            r \<leftarrow> db_del_usr_tbl (cstr rq_username request);
            return (if r < 0 then SRV_ERR_UNREG_ANY else SRV_SUCCESS) }
          else if user_exists = FALSE then return SRV_ERR_UNREG_USR_NOT_EXISTS
          else return SRV_ERR_UNREG_ANY);
       sys_printf (result_line UNREGISTER (cstr rq_username request) reply);
       _ \<leftarrow> send_server_reply socket reply;
       return request } }"

text \<open>CONNECT up to the reply. The flag tells whether the function goes on to the pending
  messages. Before the update it tests \<^verbatim>\<open>reply.server_error_code\<close>, which it has not set if
  the port and the address were read.\<close>

definition connect_update :: "junk \<Rightarrow> int \<Rightarrow> mem \<Rightarrow> mem \<Rightarrow> (u8 \<times> mem) prog" where
  "connect_update jk socket request entry = do {
     (r, tmp_port) \<leftarrow> str_to_num (cstr rq_client_port request) INT_TYPE;
     let reply = (if r < 0 then SRV_ERR_CN_ANY else jk_reply jk);
     (r, ip, _) \<leftarrow> sys_getpeername socket;
     let reply = (if r < 0 then SRV_ERR_CN_ANY else reply);
     if reply \<noteq> SRV_ERR_CN_ANY then do {
       let entry = set_u8 ud_status STATUS_CN entry;
       let entry = set_u16 ud_port (case tmp_port of Some v \<Rightarrow> ucast v | None \<Rightarrow> 0) entry;
       let entry = set_u32 ud_ip ip entry;
       (io_result, entry) \<leftarrow> db_io_op_usr_ent entry MODIFY;
       return (if io_result = DBMS_ERR_NOT_EXISTS then SRV_ERR_CN_USR_NOT_EXISTS
               else if io_result < 0 then SRV_ERR_CN_ANY else SRV_SUCCESS, entry) }
     else return (reply, entry) }"

definition srv_connect_reply :: "junk \<Rightarrow> int \<Rightarrow> mem \<Rightarrow> (bool \<times> mem) prog" where
  "srv_connect_reply jk socket request = do {
     (r, request) \<leftarrow> recv_string socket rq_username request;
     if r < 0 then return (False, request) else do {
     (r, request) \<leftarrow> recv_string socket rq_client_port request;
     if r < 0 then return (False, request)
     else do {
       let entry = strcpy en_username (cstr rq_username request) (jk_entry jk);
       let entry = set_type ENT_TYPE_UD entry;
       (io_result, entry) \<leftarrow> db_io_op_usr_ent entry READ;
       (reply, entry) \<leftarrow>
         (if io_result = DBMS_ERR_NOT_EXISTS then return (SRV_ERR_CN_USR_NOT_EXISTS, entry)
          else if io_result < 0 then return (SRV_ERR_CN_ANY, entry)
          else if get_u8 ud_status entry = STATUS_CN then return (SRV_ERR_CN_USR_ALREADY_CN, entry)
          else connect_update jk socket request entry);
       sys_printf (result_line CONNECT (cstr rq_username request) reply);
       _ \<leftarrow> send_server_reply socket reply;
       return (True, request) } } }"

definition srv_connect :: "junk \<Rightarrow> int \<Rightarrow> mem \<Rightarrow> world \<Rightarrow> (mem \<times> world) option" where
  "srv_connect jk socket request w =
     (case run_state (srv_connect_reply jk socket request) w of ((go_on, request), w1) \<Rightarrow>
        if \<not> go_on then Some (request, w1)
        else
          (let pend_msg_entry = set_type ENT_TYPE_P_MSG (jk_pend_msg_entry jk);
               pend_msg_entry = strcpy en_username (cstr rq_username request) pend_msg_entry
           in case aux_connect_send_pend_msgs jk pend_msg_entry w1 of
                None \<Rightarrow> None
              | Some (r, w2) \<Rightarrow> Some (request, w2)))"

definition srv_disconnect :: "junk \<Rightarrow> int \<Rightarrow> mem \<Rightarrow> mem prog" where
  "srv_disconnect jk socket request = do {
     (r, request) \<leftarrow> recv_string socket rq_username request;
     if r < 0 then return request
     else do {
       let entry = strcpy en_username (cstr rq_username request) (jk_entry jk);
       let entry = set_type ENT_TYPE_UD entry;
       (io_result, entry) \<leftarrow> db_io_op_usr_ent entry READ;
       reply \<leftarrow>
         (if io_result = DBMS_ERR_NOT_EXISTS then return SRV_ERR_DCN_USR_NOT_EXISTS
          else if io_result < 0 then return SRV_ERR_DCN_ANY
          else if get_u8 ud_status entry = STATUS_DCN then return SRV_ERR_DCN_USR_NOT_CN
          else do {
            let entry = set_u8 ud_status STATUS_DCN entry;
            let entry = set_u32 ud_ip 0 entry;
            let entry = set_u16 ud_port 0 entry;
            (io_result, entry) \<leftarrow> db_io_op_usr_ent entry MODIFY;
            return (if io_result = DBMS_ERR_NOT_EXISTS then SRV_ERR_DCN_USR_NOT_EXISTS
                    else if io_result < 0 then SRV_ERR_DCN_ANY else SRV_SUCCESS) });
       sys_printf (result_line DISCONNECT (cstr rq_username request) reply);
       _ \<leftarrow> send_server_reply socket reply;
       return request } }"

text \<open>The log line of a stored message.\<close>

definition stored_line :: "u32 \<Rightarrow> string \<Rightarrow> string \<Rightarrow> string" where
  "stored_line msg_id sender recipient =
     ''s> MESSAGE '' @ show_nat (unat msg_id) @ '' FROM '' @ sender @ '' TO '' @ recipient @
     '' STORED'' @ [LF]"

text \<open>SEND after message passing: store the message if the recipient is disconnected or if
  \<^verbatim>\<open>send_msg_reply\<close>, a variable that is never set, says so; reply; acknowledge.\<close>

definition send_finish :: "junk \<Rightarrow> int \<Rightarrow> mem \<Rightarrow> u8 \<Rightarrow> mem \<Rightarrow> mem \<Rightarrow> mem prog" where
  "send_finish jk socket request reply recipient_entry msg_entry = do {
     (reply, msg_entry) \<leftarrow>
       (if get_u8 ud_status recipient_entry = STATUS_DCN \<or> jk_send_msg_reply jk \<noteq> SRV_SUCCESS
        then do {
          (r, msg_entry) \<leftarrow> db_io_op_usr_ent msg_entry CREATE;
          let reply = (if r < 0 then SRV_ERR_SEND_ANY else reply);
          (if reply = SRV_SUCCESS
           then sys_printf (stored_line (get_u32 ms_id msg_entry)
             (cstr rq_sender request) (cstr rq_recipient request))
           else return ());
          return (reply, msg_entry) }
        else return (reply, msg_entry));
     aux_send_first_ack socket reply (get_u32 ms_id msg_entry);
     if get_u8 ud_status recipient_entry = STATUS_CN then do {
       let send_msg_ack_request = strcpy rq_op_code SEND_MESS_ACK (jk_send_msg_ack_request jk);
       let send_msg_ack_request =
         set_u32 rq_msg_id (get_u32 ud_last_msg_id recipient_entry) send_msg_ack_request;
       let sender_entry = set_type ENT_TYPE_UD (jk_sender_entry jk);
       let sender_entry = strcpy en_username (cstr rq_sender request) sender_entry;
       _ \<leftarrow> clt_send_mess_ack send_msg_ack_request sender_entry;
       return request }
     else return request }"

definition srv_send :: "junk \<Rightarrow> int \<Rightarrow> mem \<Rightarrow> mem prog" where
  "srv_send jk socket request = do {
     (r, request) \<leftarrow> recv_string socket rq_sender request;
     if r < 0 then return request else do {
     (r, request) \<leftarrow> recv_string socket rq_recipient request;
     if r < 0 then return request else do {
     (r, request) \<leftarrow> recv_string socket rq_content request;
     if r < 0 then return request else do {
     (reply, recipient_entry) \<leftarrow> aux_send_init request (jk_recipient_entry jk);
     if reply \<noteq> SRV_SUCCESS then do { _ \<leftarrow> send_server_reply socket reply; return request }
     else do {
       (reply, recipient_entry, msg_entry) \<leftarrow> aux_send_msg_pass (jk_send_msg_request jk) request
         reply recipient_entry (jk_msg_entry jk);
       send_finish jk socket request reply recipient_entry msg_entry } } } } }"

end
