(* ===== verification/Server.thy ===== *)
theory Server
  imports Services
begin

text \<open>
  \<^verbatim>\<open>app/server.c\<close> without its threads (see \<open>ConnQueue\<close> for those): the start of
  \<^verbatim>\<open>main\<close> up to the listening socket, the acceptance of a connection, and what a service
  thread does with the connection it took from the queue.
\<close>

subsection \<open>Start\<close>

definition LISTEN_BACKLOG :: nat where "LISTEN_BACKLOG = 10"
definition INADDR_ANY :: u32 where "INADDR_ANY = 0"

text \<open>The calls that prepare a listening socket act on nothing the rest of the program sees;
  they may fail for reasons of the system's own, which the oracle supplies.\<close>

definition sys_setsockopt :: "int \<Rightarrow> int prog" where
  "sys_setsockopt d = syscall (-1) (\<lambda>_ w.
     if d < 0 \<or> map_of (fds w) (nat d) \<noteq> Some DNew then Inl EBADF else Inr (0, w))"

definition sys_bind :: "int \<Rightarrow> u32 \<Rightarrow> u16 \<Rightarrow> int prog" where
  "sys_bind d ip pt = syscall (-1) (\<lambda>_ w.
     if d < 0 \<or> map_of (fds w) (nat d) \<noteq> Some DNew then Inl EBADF else Inr (0, w))"

definition sys_listen :: "int \<Rightarrow> nat \<Rightarrow> int prog" where
  "sys_listen d backlog = syscall (-1) (\<lambda>_ w.
     if d < 0 \<or> map_of (fds w) (nat d) \<noteq> Some DNew then Inl EBADF else Inr (0, w))"

text \<open>\<^verbatim>\<open>server -p <port>\<close>.\<close>

definition main_args :: "string list \<Rightarrow> (int + u32) prog" where
  "main_args argv =
     (if length argv \<noteq> 3 \<or> argv ! 1 \<noteq> ''-p'' then return (Inl GEN_ERR_INV_ARGS)
      else do {
        (r, server_port) \<leftarrow> str_to_num (argv ! 2) INT_TYPE;
        CHECK_ARGS (r < 0) (Inl GEN_ERR_INV_ARGS) (
          return (Inr (case server_port of Some v \<Rightarrow> v | None \<Rightarrow> 0))) })"

text \<open>From the arguments to the listening socket: the value \<^verbatim>\<open>main\<close> returns on an error, or
  the socket and the port.\<close>

definition main_start :: "string list \<Rightarrow> (int + int \<times> u32) prog" where
  "main_start argv = do {
     args \<leftarrow> main_args argv;
     case args of Inl err \<Rightarrow> return (Inl err) | Inr server_port \<Rightarrow> do {
     ret_val \<leftarrow> db_init_db;
     CHECK_FUNC_ERROR ret_val (Inl GEN_ERR_ANY) (do {
     server_sd \<leftarrow> sys_socket;
     CHECK_FUNC_ERROR_WITH_ERRNO server_sd (Inl GEN_ERR_ANY) (do {
     ret_val \<leftarrow> sys_setsockopt server_sd;
     CHECK_SOCK_ERROR ret_val server_sd (Inl GEN_ERR_ANY) (do {
     ret_val \<leftarrow> sys_bind server_sd INADDR_ANY (ucast server_port);
     CHECK_SOCK_ERROR ret_val server_sd (Inl GEN_ERR_ANY) (do {
     ret_val \<leftarrow> sys_listen server_sd LISTEN_BACKLOG;
     CHECK_SOCK_ERROR ret_val server_sd (Inl GEN_ERR_ANY) (
       return (Inr (server_sd, server_port))) }) }) }) }) } }"

text \<open>The first line of the log. \<^verbatim>\<open>gethostname\<close> and \<^verbatim>\<open>gethostbyname\<close> answer from the system's
  configuration: the status of the one and the address of the other, if any, are parameters.
  An address is in network byte order, so its first octet is the lowest byte.\<close>

definition show_int :: "int \<Rightarrow> string" where
  "show_int k = (if k < 0 then CHR ''-'' # show_nat (nat (- k)) else show_nat (nat k))"

definition inet_ntoa :: "u32 \<Rightarrow> string" where
  "inet_ntoa ip =
     show_nat (unat ip mod 256) @ ''.'' @ show_nat (unat ip div 256 mod 256) @ ''.'' @
     show_nat (unat ip div 65536 mod 256) @ ''.'' @ show_nat (unat ip div 16777216)"

definition init_line :: "u32 \<Rightarrow> u32 \<Rightarrow> string" where
  "init_line ip server_port = ''s> init server '' @ inet_ntoa ip @ '':'' @ show_int (sint server_port) @ [LF]"

definition main_announce :: "int \<Rightarrow> u32 option \<Rightarrow> u32 \<Rightarrow> int option prog" where
  "main_announce hostname_ret server_host server_port =
     CHECK_FUNC_ERROR_WITH_ERRNO hostname_ret (Some GEN_ERR_ANY) (case server_host of
        None \<Rightarrow> return (Some GEN_ERR_ANY)
      | Some ip \<Rightarrow> do { sys_printf (init_line ip server_port); return None })"

subsection \<open>One connection\<close>

text \<open>\<^verbatim>\<open>accept\<close>: a client at \<open>ip\<close>, \<open>pt\<close> that will send \<open>inp\<close>.\<close>

definition sys_accept :: "char list \<Rightarrow> u32 \<Rightarrow> u16 \<Rightarrow> int prog" where
  "sys_accept inp ip pt =
     syscall (-1) (\<lambda>_ w. Inr (int (fresh_fd (fds w)), w\<lparr>fds := fd_add (DSock inp ip pt) (fds w)\<rparr>))"

text \<open>
  The body of the loop of \<^verbatim>\<open>service_thread\<close> behind the queue. \<open>request\<close> is what the memory
  of the variable of that name holds: nothing in the loop sets it. The test is for the error
  \<^verbatim>\<open>-1\<close> only.
\<close>

definition serve_connection :: "junk \<Rightarrow> int \<Rightarrow> mem \<Rightarrow> world \<Rightarrow> (mem \<times> world) option" where
  "serve_connection jk client_socket request w =
     (case run_state (recv_string client_socket rq_op_code request) w of ((r, request), w1) \<Rightarrow>
        if r = -1 then Some (request, w1)
        else if cstr rq_op_code request = REGISTER
        then Some (run_state (srv_register jk client_socket request) w1)
        else if cstr rq_op_code request = UNREGISTER
        then Some (run_state (srv_unregister client_socket request) w1)
        else if cstr rq_op_code request = CONNECT
        then srv_connect jk client_socket request w1
        else if cstr rq_op_code request = DISCONNECT
        then Some (run_state (srv_disconnect jk client_socket request) w1)
        else if cstr rq_op_code request = SEND
        then Some (run_state (srv_send jk client_socket request) w1)
        else Some (request, w1))"

text \<open>A client: what the variables of the service thread that takes it hold, and what it sends
  from where.\<close>

record client =
  cl_junk :: junk
  cl_request :: mem
  cl_input :: "char list"
  cl_ip :: u32
  cl_port :: u16

text \<open>The server with the connections one after the other: each is accepted by \<^verbatim>\<open>main\<close>, whose
  loop ends when \<^verbatim>\<open>accept\<close> fails, and served by a thread.\<close>

fun serve_clients :: "client list \<Rightarrow> world \<Rightarrow> world option" where
  "serve_clients [] w = Some w"
| "serve_clients (c # cs) w =
     (case run_state (sys_accept (cl_input c) (cl_ip c) (cl_port c)) w of (client_sd, w1) \<Rightarrow>
        if client_sd < 0 then Some w1
        else (case serve_connection (cl_junk c) client_sd (cl_request c) w1 of
                None \<Rightarrow> None
              | Some (_, w2) \<Rightarrow> serve_clients cs w2))"

text \<open>\<^verbatim>\<open>main\<close> as a whole, with the connections it accepts: what it returns on an error, or
  \<open>None\<close> while it runs, or after \<^verbatim>\<open>accept\<close> failed.\<close>

definition server_main ::
  "string list \<Rightarrow> int \<Rightarrow> u32 option \<Rightarrow> client list \<Rightarrow> world \<Rightarrow> (int option \<times> world) option" where
  "server_main argv hostname_ret server_host cs w =
     (case run_state (main_start argv) w of
        (Inl err, w1) \<Rightarrow> Some (Some err, w1)
      | (Inr (server_sd, server_port), w1) \<Rightarrow>
          (case run_state (main_announce hostname_ret server_host server_port) w1 of
             (Some err, w2) \<Rightarrow> Some (Some err, w2)
           | (None, w2) \<Rightarrow> map_option (Pair None) (serve_clients cs w2)))"

text \<open>\<^verbatim>\<open>set_server_error_code_std\<close>, which nothing calls.\<close>

definition set_server_error_code_std :: "u8 \<Rightarrow> int \<Rightarrow> u8" where
  "set_server_error_code_std reply req_error_code =
     (if req_error_code = 0 then SRV_SUCCESS
      else if req_error_code = -1 then SRV_ERR_CN_ANY else reply)"

end
