(* ===== verification/ServicesSafe.thy ===== *)
theory ServicesSafe
  imports Server
begin

text \<open>
  What no service can do, whatever the requests, the faults of the system calls and the
  contents of uninitialised variables are: every relation of \<open>os_rel\<close> holds between the
  worlds before and after a service, also for CONNECT if its loop ends.
\<close>

context os_rel begin

lemma sat_aux_connect [prog_sat]: "state_io_rel R (aux_connect_clt_listen_thread e)"
  by (auto simp: aux_connect_clt_listen_thread_def intro!: prog_sat)

lemma sat_clt_send_message [prog_sat]: "state_io_rel R (clt_send_message q e)"
  by (auto simp: clt_send_message_def intro!: prog_sat)

lemma sat_clt_send_mess_ack [prog_sat]: "state_io_rel R (clt_send_mess_ack q e)"
  by (auto simp: clt_send_mess_ack_def intro!: prog_sat)

lemma sat_aux_send_init [prog_sat]: "state_io_rel R (aux_send_init q e)"
  by (auto simp: aux_send_init_def Let_def intro!: prog_sat)

lemma sat_aux_send_msg_pass [prog_sat]: "state_io_rel R (aux_send_msg_pass s q r e m)"
  by (auto simp: aux_send_msg_pass_def Let_def intro!: prog_sat)

lemma sat_aux_send_first_ack [prog_sat]: "state_io_rel R (aux_send_first_ack s r i)"
  by (auto simp: aux_send_first_ack_def intro!: prog_sat)

lemma sat_pend_body [prog_sat]: "state_io_rel R (pend_body f)"
  by (auto simp: pend_body_def Let_def intro!: prog_sat)

lemma pend_loop_rel:
  assumes "pend_loop f w = Some y"
  shows "R w (snd y)"
  using _ assms
proof (rule pend_loop.raw_induct [where P = "\<lambda>f w y. R w (snd y)"])
  fix loop f w y
  assume IH: "\<And>f w y. loop f w = Some y \<Longrightarrow> R w (snd y)"
    and step: "(case run_state (db_get_pend_msg (fl_pend_msg_entry f)) w of ((r, pend_msg_entry), w1) \<Rightarrow>
        if r = DBMS_SUCCESS then
          (case run_state (pend_body (f\<lparr>fl_pend_msg_entry := pend_msg_entry\<rparr>)) w1 of ((out, f2), w2) \<Rightarrow>
             (case out of Some err \<Rightarrow> Some (err, w2) | None \<Rightarrow> loop f2 w2))
        else Some (uint SRV_SUCCESS, w1)) = Some y"
  obtain n p w1 where get: "run_state (db_get_pend_msg (fl_pend_msg_entry f)) w = ((n, p), w1)"
    by (metis prod.exhaust)
  obtain out f2 w2 where body: "run_state (pend_body (f\<lparr>fl_pend_msg_entry := p\<rparr>)) w1 = ((out, f2), w2)"
    by (metis prod.exhaust)
  have w1: "R w w1" by (rule sat_run [OF sat_db_get_pend_msg get])
  have "R w1 w2" by (rule sat_run [OF sat_pend_body body])
  with w1 have w2: "R w w2" by (rule R_trans)
  have "R w (snd y)" if "loop f2 w2 = Some y" using w2 IH [OF that] by (rule R_trans)
  with step get body w1 w2 show "R w (snd y)"
    by (auto split: if_splits option.splits)
qed

lemma aux_connect_send_pend_rel:
  "aux_connect_send_pend_msgs jk e w = Some (r, w') \<Longrightarrow> R w w'"
  unfolding aux_connect_send_pend_msgs_def Let_def
  by (auto split: prod.splits if_splits intro: sat_run [OF sat_db_io_op_usr_ent] R_trans
      dest!: pend_loop_rel)

lemma sat_srv_register [prog_sat]: "state_io_rel R (srv_register jk s q)"
  by (auto simp: srv_register_def Let_def intro!: prog_sat)

lemma sat_srv_unregister [prog_sat]: "state_io_rel R (srv_unregister s q)"
  by (auto simp: srv_unregister_def intro!: prog_sat)

lemma sat_connect_update [prog_sat]: "state_io_rel R (connect_update jk s q e)"
  by (auto simp: connect_update_def Let_def intro!: prog_sat)

lemma sat_srv_connect_reply [prog_sat]: "state_io_rel R (srv_connect_reply jk s q)"
  by (auto simp: srv_connect_reply_def Let_def intro!: prog_sat)

lemma srv_connect_rel: "srv_connect jk s q w = Some (q2, w') \<Longrightarrow> R w w'"
  unfolding srv_connect_def Let_def
  by (auto split: prod.splits if_splits option.splits intro: sat_run [OF sat_srv_connect_reply] R_trans
      dest!: aux_connect_send_pend_rel)

lemma sat_srv_disconnect [prog_sat]: "state_io_rel R (srv_disconnect jk s q)"
  by (auto simp: srv_disconnect_def Let_def intro!: prog_sat)

lemma sat_send_finish [prog_sat]: "state_io_rel R (send_finish jk s q r e m)"
  by (auto simp: send_finish_def Let_def intro!: prog_sat)

lemma sat_srv_send [prog_sat]: "state_io_rel R (srv_send jk s q)"
  by (auto simp: srv_send_def Let_def intro!: prog_sat)

lemma sat_setsockopt [prog_sat]: "state_io_rel R (sys_setsockopt d)"
  unfolding sys_setsockopt_def by (rule sat_syscall) (auto simp: R_refl split: if_splits)

lemma sat_sys_bind [prog_sat]: "state_io_rel R (sys_bind d ip pt)"
  unfolding sys_bind_def by (rule sat_syscall) (auto simp: R_refl split: if_splits)

lemma sat_listen [prog_sat]: "state_io_rel R (sys_listen d k)"
  unfolding sys_listen_def by (rule sat_syscall) (auto simp: R_refl split: if_splits)

lemma sat_accept [prog_sat]: "state_io_rel R (sys_accept inp ip pt)"
  unfolding sys_accept_def by (rule sat_syscall) (auto simp: R_fd_add)

lemma sat_main_args [prog_sat]: "state_io_rel R (main_args argv)"
  by (auto simp: main_args_def intro!: prog_sat)

lemma sat_main_start [prog_sat]: "state_io_rel R (main_start argv)"
  by (auto simp: main_start_def intro!: prog_sat split: sum.split)

text \<open>The whole server: whatever clients send, and whatever fails.\<close>

lemma serve_connection_rel:
  assumes "serve_connection jk s q w = Some (q2, w2)"
  shows "R w w2"
proof -
  obtain r q1 w1 where recv: "run_state (recv_string s rq_op_code q) w = ((r, q1), w1)"
    by (metis prod.exhaust)
  have w1: "R w w1" by (rule sat_run [OF sat_recv_string recv])
  have "R w1 w2"
    using assms recv unfolding serve_connection_def
    by (auto simp: R_refl split: if_splits dest: srv_connect_rel
        intro: sat_run [OF sat_srv_register] sat_run [OF sat_srv_unregister]
          sat_run [OF sat_srv_disconnect] sat_run [OF sat_srv_send])
  with w1 show ?thesis by (rule R_trans)
qed

lemma serve_clients_rel: "serve_clients cs w = Some w2 \<Longrightarrow> R w w2"
proof (induction cs arbitrary: w)
  case Nil
  then show ?case by (simp add: R_refl)
next
  case (Cons c cs)
  obtain n w1 where acc: "run_state (sys_accept (cl_input c) (cl_ip c) (cl_port c)) w = (n, w1)" by fastforce
  have w1: "R w w1" by (rule sat_run [OF sat_accept acc])
  show ?case
  proof (cases "n < 0")
    case True
    with Cons.prems acc w1 show ?thesis by simp
  next
    case False
    with Cons.prems acc obtain q v where
      v: "serve_connection (cl_junk c) n (cl_request c) w1 = Some (q, v)" "serve_clients cs v = Some w2"
      by (auto split: option.splits)
    from w1 serve_connection_rel [OF v(1)] Cons.IH [OF v(2)] show ?thesis by (blast intro: R_trans)
  qed
qed

end

end
