(* ===== verification/RemoveTree.thy ===== *)
theory RemoveTree
  imports DbmsUtilLaws
begin

text \<open>
  The effect of \<^verbatim>\<open>remove_recursive\<close> (\<open>DbmsUtil\<close>): on a plain path in a quiet world it
  removes exactly the subtree at the path, whatever order \<^verbatim>\<open>readdir\<close> lists the entries in,
  and leaves no descriptor open.
\<close>

text \<open>\<^verbatim>\<open>readdir\<close> lists every entry exactly once, in some order.\<close>

definition posix_order :: "('a list \<Rightarrow> 'a list) \<Rightarrow> bool" where
  "posix_order f \<longleftrightarrow> (\<forall>es. mset (f es) = mset es)"

definition prune :: "path \<Rightarrow> fs \<Rightarrow> fs" where
  "prune p f = (\<lambda>q. if prefix p q then None
     else if q = butlast p then Some (Dir (remove1 (last p) (dir_names (f (butlast p))))) else f q)"

definition clear_below :: "path \<Rightarrow> fs \<Rightarrow> fs" where
  "clear_below p f = (\<lambda>q. if strict_prefix p q then None
     else if q = p then Some (Dir []) else f q)"

text \<open>Every path string below \<open>p\<close> is short enough to be opened; \<open>l\<close> is the length of the
  path string of \<open>p\<close>.\<close>

definition tree_fits :: "nat \<Rightarrow> path \<Rightarrow> fs \<Rightarrow> bool" where
  "tree_fits l p f \<longleftrightarrow>
     (\<forall>q. f (p @ q) \<noteq> None \<longrightarrow> l + (\<Sum>n\<leftarrow>q. Suc (length n)) < PATH_MAX)"

definition is_dir_at :: "fs \<Rightarrow> path \<Rightarrow> bool" where
  "is_dir_at f p = (case f p of Some (Dir _) \<Rightarrow> True | _ \<Rightarrow> False)"

definition nodot :: "(string \<times> bool) list \<Rightarrow> (string \<times> bool) list" where
  "nodot es = filter (\<lambda>(n, b). n \<noteq> ''.'' \<and> n \<noteq> ''..'') es"

text \<open>A listing of the directory at \<open>p\<close>, as far as the loops over it care.\<close>

definition lists_dir :: "fs \<Rightarrow> path \<Rightarrow> (string \<times> bool) list \<Rightarrow> bool" where
  "lists_dir f p es \<longleftrightarrow> distinct (map fst (nodot es)) \<and>
     fst ` set (nodot es) = set (dir_names (f p)) \<and>
     (\<forall>(n, b)\<in>set (nodot es). b = is_dir_at f (p @ [n]))"

lemma nodot_simps [simp]:
  "nodot [] = []"
  "nodot ((n, b) # es) = (if n = ''.'' \<or> n = ''..'' then nodot es else (n, b) # nodot es)"
  by (simp_all add: nodot_def)

lemma nodot_dir_entries:
  assumes "posix_order (dir_order w)" "wf_fs (fs w)" "fs w p = Some (Dir ns)"
  shows "mset (nodot (dir_entries w p ns)) = mset (map (\<lambda>n. (n, is_dir_at (fs w) (p @ [n]))) ns)"
proof -
  have valid: "n \<noteq> ''.'' \<and> n \<noteq> ''..''" if "n \<in> set ns" for n
    using wf_fs_names(2) [OF assms(2), of n p] that assms(3) by (simp add: valid_name_def)
  let ?l = "map (\<lambda>n. (n, is_dir_at (fs w) (p @ [n]))) ns"
  have "mset (nodot (dir_order w es)) = mset (nodot es)" for es
    using assms(1) by (simp add: nodot_def posix_order_def)
  moreover have "nodot ?l = ?l"
    using valid by (auto simp: nodot_def filter_id_conv)
  ultimately show ?thesis
    by (simp add: dir_entries_def is_dir_at_def)
qed

lemma lists_dir_entries:
  assumes "posix_order (dir_order w)" "wf_fs (fs w)" "fs w p = Some (Dir ns)"
  shows "lists_dir (fs w) p (dir_entries w p ns)"
proof -
  note m = nodot_dir_entries [OF assms]
  have "mset (map fst (nodot (dir_entries w p ns))) = mset ns"
    using m by (metis (no_types, lifting) map_idI map_map mset_map comp_apply fst_conv)
  then have "distinct (map fst (nodot (dir_entries w p ns)))"
    using wf_fs_names(1) [OF assms(2), of p] assms(3) by (metis dir_names_simps(3) mset_eq_imp_distinct_iff)
  moreover have "set (nodot (dir_entries w p ns)) = (\<lambda>n. (n, is_dir_at (fs w) (p @ [n]))) ` set ns"
    using mset_eq_setD [OF m] by simp
  ultimately show ?thesis
    using assms(3) by (auto simp: lists_dir_def image_image)
qed

lemma wf_fs_leaf:
  assumes "wf_fs f" "dir_names (f p) = []" "q \<noteq> []"
  shows "f (p @ q) = None"
proof (rule ccontr)
  assume ex: "f (p @ q) \<noteq> None"
  obtain a r where q: "q = a # r" using assms(3) by (cases q) auto
  have "f (p @ [a]) \<noteq> None"
    using ex q wf_fs_ancestor [OF assms(1), of "p @ [a]" r] by (cases r) auto
  with wf_fs_no_children [OF assms(1,2)] show False by simp
qed

lemma not_prefix_butlast [simp]: "p \<noteq> [] \<Longrightarrow> \<not> prefix p (butlast p)"
  using prefix_length_le [of p "butlast p"] by (cases p rule: rev_cases) auto

lemma strict_prefixE2: "strict_prefix p q \<Longrightarrow> \<exists>r. q = p @ r \<and> r \<noteq> []"
  by (auto simp: strict_prefix_def prefix_def)

lemma clear_below_empty:
  assumes "wf_fs f" "f p = Some (Dir [])"
  shows "clear_below p f = f"
  using assms wf_fs_leaf [OF assms(1), of p]
  by (auto simp: clear_below_def fun_eq_iff dest!: strict_prefixE2)

lemma prune_leaf:
  assumes "wf_fs f" "dir_names (f p) = []" "p \<noteq> []"
  shows "fs_del p f = prune p f"
proof (rule ext)
  fix q
  have "prefix p q \<Longrightarrow> q \<noteq> p \<Longrightarrow> f q = None"
    using wf_fs_leaf [OF assms(1,2)] by (metis prefixE append_Nil2)
  with assms(3) show "fs_del p f q = prune p f q"
    by (auto simp: fs_del_def prune_def)
qed

lemma prune_clear_below: "p \<noteq> [] \<Longrightarrow> fs_del p (clear_below p f) = prune p f"
proof (rule ext)
  fix q
  assume "p \<noteq> []"
  then show "fs_del p (clear_below p f) q = prune p f q"
    by (auto simp: fs_del_def prune_def clear_below_def strict_prefix_def)
qed

lemma clear_below_prune: "clear_below p (prune (p @ [n]) f) = clear_below p f"
  by (rule ext) (auto simp: clear_below_def prune_def strict_prefix_def prefix_def)

lemma prune_child:
  assumes "f p = Some (Dir ns)"
  shows "prune (p @ [n]) f p = Some (Dir (remove1 n ns))"
  using assms by (simp add: prune_def)

lemma tree_fits_child: "tree_fits l p f \<Longrightarrow> tree_fits (l + Suc (length n)) (p @ [n]) f"
  by (auto simp: tree_fits_def add_ac dest: spec [of _ "n # _"])

lemma tree_fits_prune:
  assumes "f p = Some x" "tree_fits l p f"
  shows "tree_fits l p (prune (p @ [n]) f)"
proof -
  have "prune (p @ [n]) f (p @ q) \<noteq> None \<Longrightarrow> f (p @ q) \<noteq> None" for q
    using assms(1) by (auto simp: prune_def split: if_splits)
  with assms(2) show ?thesis unfolding tree_fits_def by blast
qed

lemma lists_dir_prune:
  assumes l: "lists_dir f p ((n, b) # es)" and p: "f p = Some (Dir ns)" and wf: "wf_fs f"
    and dot: "n \<noteq> ''.''" "n \<noteq> ''..''"
  shows "lists_dir (prune (p @ [n]) f) p es"
  unfolding lists_dir_def
proof (intro conjI)
  show "distinct (map fst (nodot es))" using l dot by (simp add: lists_dir_def)
  have new: "n \<notin> fst ` set (nodot es)" and "insert n (fst ` set (nodot es)) = set ns"
    using l p dot by (simp_all add: lists_dir_def)
  then have "fst ` set (nodot es) = set ns - {n}" by auto
  then show "fst ` set (nodot es) = set (dir_names (prune (p @ [n]) f p))"
    using wf_fs_names(1) [OF wf, of p] p by (simp add: prune_child)
  have "is_dir_at (prune (p @ [n]) f) (p @ [m]) = is_dir_at f (p @ [m])" if "m \<noteq> n" for m
    using that by (simp add: is_dir_at_def prune_def)
  moreover have "m \<noteq> n \<and> c = is_dir_at f (p @ [m])" if "(m, c) \<in> set (nodot es)" for m c
    using that new l dot by (auto simp: lists_dir_def image_iff)
  ultimately show "\<forall>(m, c)\<in>set (nodot es). c = is_dir_at (prune (p @ [n]) f) (p @ [m])"
    by fastforce
qed

subsection \<open>The recursion\<close>

definition rm_ready :: "string \<Rightarrow> world \<Rightarrow> bool" where
  "rm_ready s w \<longleftrightarrow> quiet w \<and> wf_fs (fs w) \<and> posix_order (dir_order w) \<and> plain_path s \<and>
     tree_fits (length s) (cwd w @ split_slash s) (fs w)"

lemma rm_ready_update [simp]:
  "rm_ready s (w\<lparr>err_no := e\<rparr>) = rm_ready s w" "rm_ready s (w\<lparr>fds := t\<rparr>) = rm_ready s w"
  by (simp_all add: rm_ready_def)

lemma rm_ready_resolve:
  "rm_ready s w \<Longrightarrow> fs w (cwd w @ split_slash s) \<noteq> None \<Longrightarrow> resolve w s = Inr (cwd w @ split_slash s)"
  by (simp add: rm_ready_def resolve_plain_existing)

lemma rm_ready_child:
  assumes "rm_ready s w" "valid_name n" "fs w (cwd w @ split_slash s @ [n]) = Some x"
  shows "rm_ready (s @ SLASH # n) w"
proof -
  have "length s + (Suc (length n)) < PATH_MAX"
    using assms(1,3) by (auto simp: rm_ready_def tree_fits_def dest!: spec [of _ "[n]"])
  with assms tree_fits_child [of "length s" "cwd w @ split_slash s" "fs w" n] show ?thesis
    by (simp add: rm_ready_def plain_path_join split_slash_child)
qed

lemma rm_ready_prune:
  assumes "rm_ready s w" "fs w (cwd w @ split_slash s) = Some (Dir ns)"
    and "wf_fs (prune (cwd w @ split_slash s @ [n]) (fs w))"
  shows "rm_ready s (w\<lparr>fs := prune (cwd w @ split_slash s @ [n]) (fs w), err_no := e\<rparr>)"
  using assms tree_fits_prune [of "fs w" "cwd w @ split_slash s"] by (simp add: rm_ready_def)

lemma run_remove_finish:
  assumes "rm_ready s w" "fs w (cwd w @ split_slash s) = Some x" "dir_names (Some x) = []"
    and "err_no w \<noteq> Some ENOENT"
  shows "run_state (remove_finish s) w = (0, w\<lparr>fs := fs_del (cwd w @ split_slash s) (fs w)\<rparr>)"
proof -
  have "resolve w s = Inr (cwd w @ split_slash s)"
    using assms by (intro rm_ready_resolve) auto
  with assms show ?thesis
    by (cases x) (auto simp: remove_finish_def quiet_simps rm_ready_def)
qed

text \<open>Removing one entry of a directory prunes the tree at that entry.\<close>

lemma remove_entry_effect:
  assumes ready: "rm_ready s w" and ex: "fs w (cwd w @ split_slash s @ [n]) = Some x"
    and nm: "valid_name n" and b: "b = is_dir_at (fs w) (cwd w @ split_slash s @ [n])"
    and IH: "b \<Longrightarrow> \<exists>e. e \<noteq> Some ENOENT \<and> remove_recursive (s @ SLASH # n) w =
        (0, w\<lparr>fs := prune (cwd w @ split_slash s @ [n]) (fs w), err_no := e\<rparr>)"
    and err: "err_no w \<noteq> Some ENOENT"
  shows "\<exists>e. e \<noteq> Some ENOENT \<and>
    (if b then remove_recursive (s @ SLASH # n) w else run_state (sys_remove (s @ SLASH # n)) w) =
      (0, w\<lparr>fs := prune (cwd w @ split_slash s @ [n]) (fs w), err_no := e\<rparr>)"
proof (cases b)
  case True
  with IH show ?thesis by simp
next
  case False
  with b ex obtain d where d: "x = Reg d" by (cases x) (auto simp: is_dir_at_def)
  have ready': "rm_ready (s @ SLASH # n) w" by (rule rm_ready_child [OF ready nm ex])
  then have "resolve w (s @ SLASH # n) = Inr (cwd w @ split_slash s @ [n])"
    using rm_ready_resolve [of "s @ SLASH # n" w] ex nm by (simp add: split_slash_child)
  moreover have "fs_del (cwd w @ split_slash s @ [n]) (fs w) = prune (cwd w @ split_slash s @ [n]) (fs w)"
    using ready ex d by (intro prune_leaf) (auto simp: rm_ready_def)
  ultimately have "run_state (sys_remove (s @ SLASH # n)) w =
      (0, w\<lparr>fs := prune (cwd w @ split_slash s @ [n]) (fs w), err_no := err_no w\<rparr>)"
    using ready ex d by (simp add: quiet_simps rm_ready_def)
  with False err show ?thesis by auto
qed

lemma remove_effect:
  "rm_ready s w \<Longrightarrow> fs w (cwd w @ split_slash s) = Some x \<Longrightarrow>
     \<exists>e. e \<noteq> Some ENOENT \<and>
       remove_recursive s w = (0, w\<lparr>fs := prune (cwd w @ split_slash s) (fs w), err_no := e\<rparr>)"
  "rm_ready s2 v \<Longrightarrow> fs v (cwd v @ split_slash s2) = Some (Dir ns) \<Longrightarrow>
     lists_dir (fs v) (cwd v @ split_slash s2) es \<Longrightarrow> err_no v \<noteq> Some ENOENT \<Longrightarrow>
     \<exists>e. e \<noteq> Some ENOENT \<and>
       remove_entries s2 d es v = (None, v\<lparr>fs := clear_below (cwd v @ split_slash s2) (fs v), err_no := e\<rparr>)"
proof (induction s w and s2 d es v arbitrary: x and ns rule: remove_recursive_remove_entries.induct)
  case (1 s w)
  let ?p = "cwd w @ split_slash s"
  let ?w0 = "w\<lparr>err_no := None\<rparr>"
  have res: "resolve ?w0 s = Inr ?p"
    using rm_ready_resolve [OF "1.prems"(1)] "1.prems"(2) by simp
  have q: "quiet ?w0" using "1.prems"(1) by (simp add: rm_ready_def)
  show ?case
  proof (cases x)
    case (Reg dat)
    have open_: "run_state (sys_opendir s) ?w0 = (None, w\<lparr>err_no := Some ENOTDIR\<rparr>)"
      using run_opendir(3) [OF q res] Reg "1.prems"(2) by simp
    have "run_state (remove_finish s) (w\<lparr>err_no := Some ENOTDIR\<rparr>) =
        (0, w\<lparr>err_no := Some ENOTDIR, fs := fs_del ?p (fs w)\<rparr>)"
      using run_remove_finish [of s "w\<lparr>err_no := Some ENOTDIR\<rparr>" x] Reg "1.prems" by simp
    moreover have "fs_del ?p (fs w) = prune ?p (fs w)"
      using "1.prems" Reg by (intro prune_leaf) (auto simp: rm_ready_def)
    ultimately show ?thesis
      by (intro exI [of _ "Some ENOTDIR"]) (simp add: remove_recursive.simps [of s w] open_)
  next
    case (Dir ms)
    let ?d = "fresh_fd (fds w)" and ?es = "dir_entries w ?p ms"
    let ?w1 = "w\<lparr>err_no := None, fds := fd_add DDir (fds w)\<rparr>"
    have open_: "run_state (sys_opendir s) ?w0 = (Some (?d, ?es), ?w1)"
      using run_opendir(4) [OF q res] Dir "1.prems"(2) by simp
    have "lists_dir (fs ?w1) ?p ?es"
      using lists_dir_entries [of w ?p ms] "1.prems" Dir by (simp add: rm_ready_def)
    then obtain e where e: "e \<noteq> Some ENOENT" and
      loop: "remove_entries s ?d ?es ?w1 = (None, ?w1\<lparr>fs := clear_below ?p (fs w), err_no := e\<rparr>)"
      using "1.IH" [OF open_ [symmetric] refl refl, of ms] "1.prems" Dir by auto
    let ?w3 = "w\<lparr>fs := clear_below ?p (fs w), err_no := e\<rparr>"
    have wf: "wf_fs (clear_below ?p (fs w))"
      using fs_os.remove_rel(2) [of ?w1 s ?d ?es] loop "1.prems"(1)
      by (simp add: fs_rel_def rm_ready_def)
    have "tree_fits (length s) ?p (clear_below ?p (fs w))"
      using "1.prems" by (auto simp: tree_fits_def clear_below_def rm_ready_def strict_prefix_def
          dest: spec [of _ "[]"])
    with wf "1.prems"(1) have "rm_ready s ?w3" by (simp add: rm_ready_def)
    then have "run_state (remove_finish s) ?w3 = (0, ?w3\<lparr>fs := fs_del ?p (clear_below ?p (fs w))\<rparr>)"
      using run_remove_finish [of s ?w3 "Dir []"] e by (simp add: clear_below_def)
    then have "remove_recursive s w = (0, w\<lparr>fs := prune ?p (fs w), err_no := e\<rparr>)"
      by (simp add: remove_recursive.simps [of s w] open_ loop run_closedir prune_clear_below)
    with e show ?thesis by blast
  qed
next
  case (2 s d v)
  then have "ns = []" by (simp add: lists_dir_def)
  with 2 have "clear_below (cwd v @ split_slash s) (fs v) = fs v"
    by (simp add: clear_below_empty rm_ready_def)
  with 2 show ?case by (intro exI [of _ "err_no v"]) simp
next
  case (3 s d n b es v)
  let ?p = "cwd v @ split_slash s"
  show ?case
  proof (cases "n = ''.'' \<or> n = ''..''")
    case True
    then have "lists_dir (fs v) ?p es" using "3.prems"(3) by (auto simp: lists_dir_def)
    with "3.IH"(1) [OF True "3.prems"(1,2)] "3.prems"(4) True show ?thesis
      by (auto simp: remove_entries.simps)
  next
    case False
    have wf: "wf_fs (fs v)" using "3.prems"(1) by (simp add: rm_ready_def)
    have nm: "n \<in> set ns" and b: "b = is_dir_at (fs v) (?p @ [n])"
      using "3.prems"(2,3) False by (auto simp: lists_dir_def)
    then have valid: "valid_name n" using wf_fs_names(2) [OF wf, of n ?p] "3.prems"(2) by simp
    obtain x where x: "fs v (cwd v @ split_slash s @ [n]) = Some x"
      using wf_fs_child [OF wf, of ?p n] nm "3.prems"(2) by auto
    note child = rm_ready_child [OF "3.prems"(1) valid x]
    obtain e where e: "e \<noteq> Some ENOENT" and
      rm: "(if b then remove_recursive (s @ SLASH # n) v else run_state (sys_remove (s @ SLASH # n)) v) =
          (0, v\<lparr>fs := prune (?p @ [n]) (fs v), err_no := e\<rparr>)"
      using remove_entry_effect [OF "3.prems"(1) x valid _ _ "3.prems"(4), of b] b
        "3.IH"(2) [OF False _ child, of x] x valid by (auto simp: split_slash_child)
    let ?v = "v\<lparr>fs := prune (?p @ [n]) (fs v), err_no := e\<rparr>"
    have step: "remove_entries s d ((n, b) # es) v = remove_entries s d es ?v"
      using False rm by (simp add: remove_entries.simps(2))
    have "fs_rel v (snd (if b then remove_recursive (s @ SLASH # n) v
        else run_state (sys_remove (s @ SLASH # n)) v))"
      by (simp add: fs_os.remove_rel fs_os.sat_snd fs_os.sat_remove)
    then have wf': "wf_fs (prune (?p @ [n]) (fs v))"
      using wf unfolding rm by (simp add: fs_rel_def)
    have "rm_ready s ?v"
      using rm_ready_prune [OF "3.prems"(1,2), of n e] wf' by simp
    moreover have "fs ?v ?p = Some (Dir (remove1 n ns))"
      using prune_child [of "fs v" ?p ns n] "3.prems"(2) by simp
    moreover have "lists_dir (fs ?v) ?p es"
      using lists_dir_prune [OF "3.prems"(3,2) wf] False by simp
    ultimately obtain e' where "e' \<noteq> Some ENOENT" and
      "remove_entries s d es ?v = (None, ?v\<lparr>fs := clear_below ?p (fs ?v), err_no := e'\<rparr>)"
      using "3.IH"(3) [OF False rm [symmetric], of "remove1 n ns"] e by auto
    moreover have "clear_below ?p (prune (?p @ [n]) (fs v)) = clear_below ?p (fs v)"
      by (rule clear_below_prune)
    ultimately show ?thesis using step by auto
  qed
qed

end
