(* ===== verification/DbInv.thy ===== *)
theory DbInv
  imports Dbms RemoveTree
begin

text \<open>
  The database as the services see it. \<open>user_ok\<close> are the user names that make an ordinary
  directory name, \<open>db_ready\<close> is a quiet world whose database directory exists, and
  \<open>db_inv\<close> says that the table of every such user is absent or complete. The abstraction
  \<open>ud_of\<close>, \<open>pend_of\<close> forgets the file tree: the user data of a user, and the pending
  messages by number.
\<close>

definition user_ok :: "string \<Rightarrow> bool" where
  "user_ok u \<longleftrightarrow> wire_string u \<and> SLASH \<notin> set u \<and> length u \<le> 249"

definition tbl_path :: "world \<Rightarrow> string \<Rightarrow> path" where
  "tbl_path w u = cwd w @ [DB_DIR, u @ ''-table'']"

definition ud_path :: "world \<Rightarrow> string \<Rightarrow> path" where
  "ud_path w u = cwd w @ [DB_DIR, u @ ''-table'', USERDATA_ENTRY]"

definition pm_path :: "world \<Rightarrow> string \<Rightarrow> path" where
  "pm_path w u = cwd w @ [DB_DIR, u @ ''-table'', PEND_MSGS_TABLE]"

definition msg_path :: "world \<Rightarrow> string \<Rightarrow> u32 \<Rightarrow> path" where
  "msg_path w u i = cwd w @ [DB_DIR, u @ ''-table'', PEND_MSGS_TABLE, show_nat (unat i)]"

lemmas path_defs = tbl_path_def ud_path_def pm_path_def msg_path_def

definition db_ready :: "world \<Rightarrow> bool" where
  "db_ready w \<longleftrightarrow> quiet w \<and> wf_fs (fs w) \<and> posix_order (dir_order w) \<and>
     is_dir_at (fs w) (cwd w @ [DB_DIR])"

definition ud_of :: "world \<Rightarrow> string \<Rightarrow> mem option" where
  "ud_of w u = (case fs w (ud_path w u) of Some (Reg m) \<Rightarrow> Some m | _ \<Rightarrow> None)"

definition pend_of :: "world \<Rightarrow> string \<Rightarrow> u32 \<Rightarrow> mem option" where
  "pend_of w u i = (case fs w (msg_path w u i) of Some (Reg m) \<Rightarrow> Some m | _ \<Rightarrow> None)"

text \<open>The entries a complete table holds: their type, user name, and (for a message) number,
  and a sender and a content that came over the wire.\<close>

definition ud_ok :: "string \<Rightarrow> mem \<Rightarrow> bool" where
  "ud_ok u m \<longleftrightarrow> length m = sizeof_entry \<and> cstr en_username m = u \<and> get_type m = ENT_TYPE_UD"

definition msg_key :: "string \<Rightarrow> u32 \<Rightarrow> mem \<Rightarrow> bool" where
  "msg_key u i m \<longleftrightarrow> length m = sizeof_entry \<and> cstr en_username m = u \<and>
     get_type m = ENT_TYPE_P_MSG \<and> get_u32 ms_id m = i"

definition msg_ok :: "string \<Rightarrow> u32 \<Rightarrow> mem \<Rightarrow> bool" where
  "msg_ok u i m \<longleftrightarrow> msg_key u i m \<and> user_ok (cstr ms_sender m) \<and>
     wire_string (cstr ms_content m) \<and> length (cstr ms_content m) \<le> 255"

lemma msg_ok_key: "msg_ok u i m \<Longrightarrow> msg_key u i m"
  by (simp add: msg_ok_def)

definition table_ok :: "world \<Rightarrow> string \<Rightarrow> bool" where
  "table_ok w u \<longleftrightarrow>
     (\<exists>ns. fs w (tbl_path w u) = Some (Dir ns) \<and> set ns = {USERDATA_ENTRY, PEND_MSGS_TABLE}) \<and>
     (\<exists>m. fs w (ud_path w u) = Some (Reg m) \<and> ud_ok u m) \<and>
     (\<exists>ids. fs w (pm_path w u) = Some (Dir ids) \<and>
        (\<forall>n\<in>set ids. \<exists>i m. n = show_nat (unat i) \<and> fs w (msg_path w u i) = Some (Reg m) \<and> msg_ok u i m))"

definition db_inv :: "world \<Rightarrow> bool" where
  "db_inv w \<longleftrightarrow> db_ready w \<and> (\<forall>u. user_ok u \<longrightarrow> fs w (tbl_path w u) = None \<or> table_ok w u)"

subsection \<open>Paths of the database\<close>

lemma schema_names [simp]:
  "valid_name DB_DIR" "valid_name USERDATA_ENTRY" "valid_name PEND_MSGS_TABLE"
  by (simp_all add: valid_name_def DB_DIR_def USERDATA_ENTRY_def PEND_MSGS_TABLE_def NAME_MAX_def)

lemma schema_neq [simp]: "USERDATA_ENTRY \<noteq> PEND_MSGS_TABLE" "PEND_MSGS_TABLE \<noteq> USERDATA_ENTRY"
  by (simp_all add: USERDATA_ENTRY_def PEND_MSGS_TABLE_def)

lemma schema_lengths [simp]:
  "length DB_DIR = 5" "length USERDATA_ENTRY = 14" "length PEND_MSGS_TABLE = 15"
  by (simp_all add: DB_DIR_def USERDATA_ENTRY_def PEND_MSGS_TABLE_def)

lemma schema_no_slash [simp]:
  "SLASH \<notin> set DB_DIR" "SLASH \<notin> set USERDATA_ENTRY" "SLASH \<notin> set PEND_MSGS_TABLE"
  by (simp_all add: DB_DIR_def USERDATA_ENTRY_def PEND_MSGS_TABLE_def)

lemma user_table_name [simp]: "user_ok u \<Longrightarrow> valid_name (u @ ''-table'')"
  by (auto simp: user_ok_def valid_name_def NAME_MAX_def append_eq_Cons_conv)

lemma show_nat_no_slash [simp]: "SLASH \<notin> set (show_nat n)"
  using show_nat_digits [of n] by auto

lemma show_id_length: "length (show_nat (unat (i :: u32))) \<le> 10"
proof -
  have "unat i < 10 ^ 10" using unsigned_less [of i, where ?'a = nat] by simp
  then show ?thesis by (rule show_nat_length_bound) simp
qed

lemma show_id_valid [simp]: "valid_name (show_nat (unat (i :: u32)))"
proof -
  have "show_nat (unat i) \<noteq> ''.''" "show_nat (unat i) \<noteq> ''..''"
    using show_nat_digits [of "unat i"] by auto
  with show_id_length [of i] show ?thesis by (simp add: valid_name_def NAME_MAX_def)
qed

lemma show_nat_inject: "show_nat m = show_nat n \<longleftrightarrow> m = n"
  by (metis digits_value_show_nat)

lemma show_id_inject [simp]: "show_nat (unat (i :: u32)) = show_nat (unat j) \<longleftrightarrow> i = j"
  by (simp add: show_nat_inject word_unat_eq_iff)

lemma split_user_table: "user_ok u \<Longrightarrow> split_slash (user_table_str u) = [DB_DIR, u @ ''-table'']"
  by (simp add: user_table_str_def user_ok_def)

lemma length_user_table: "length (user_table_str u) = length u + 12"
  by (simp add: user_table_str_def)

text \<open>The four kinds of path strings the database uses are plain, and what they split into.\<close>

lemma db_paths_plain:
  assumes "user_ok u"
  shows "plain_path DB_DIR" "plain_path (user_table_str u)"
    "plain_path (user_table_str u @ SLASH # USERDATA_ENTRY)"
    "plain_path (user_table_str u @ SLASH # PEND_MSGS_TABLE)"
    "plain_path (user_table_str u @ SLASH # PEND_MSGS_TABLE @ SLASH # show_nat (unat (i :: u32)))"
  using assms show_id_length [of i] user_table_name [OF assms]
  by (auto simp: plain_path_def split_slash_join split_user_table length_user_table user_ok_def PATH_MAX_def
      simp flip: append_Cons append_assoc)

lemma db_paths_split:
  assumes "user_ok u"
  shows "split_slash DB_DIR = [DB_DIR]"
    "split_slash (user_table_str u @ SLASH # USERDATA_ENTRY) = [DB_DIR, u @ ''-table'', USERDATA_ENTRY]"
    "split_slash (user_table_str u @ SLASH # PEND_MSGS_TABLE) = [DB_DIR, u @ ''-table'', PEND_MSGS_TABLE]"
    "split_slash (user_table_str u @ SLASH # PEND_MSGS_TABLE @ SLASH # show_nat (unat (i :: u32))) =
       [DB_DIR, u @ ''-table'', PEND_MSGS_TABLE, show_nat (unat i)]"
  using assms by (simp_all add: split_slash_join split_user_table)

lemma is_dir_atE: "is_dir_at f p \<Longrightarrow> (\<And>es. f p = Some (Dir es) \<Longrightarrow> thesis) \<Longrightarrow> thesis"
  by (auto simp: is_dir_at_def split: option.splits node.splits)

lemma resolve_table [quiet_simps]:
  assumes "db_ready w" "user_ok u"
  shows "resolve w (user_table_str u) = Inr (tbl_path w u)"
proof -
  from assms obtain es where "fs w (cwd w @ [DB_DIR]) = Some (Dir es)"
    by (auto simp: db_ready_def elim: is_dir_atE)
  with assms resolve_plain [of w "user_table_str u" es] db_paths_plain(2) [OF assms(2)] show ?thesis
    by (simp add: db_ready_def split_user_table tbl_path_def)
qed

lemma resolve_in_table [quiet_simps]:
  assumes "db_ready w" "user_ok u" "fs w (tbl_path w u) = Some (Dir ns)"
  shows "resolve w (user_table_str u @ SLASH # USERDATA_ENTRY) = Inr (ud_path w u)"
    "resolve w (user_table_str u @ SLASH # PEND_MSGS_TABLE) = Inr (pm_path w u)"
  using resolve_plain [of w _ ns] assms db_paths_plain(3,4) [OF assms(2)] db_paths_split [OF assms(2)]
  by (simp_all add: db_ready_def path_defs)

lemma resolve_message [quiet_simps]:
  assumes "db_ready w" "user_ok u" "fs w (pm_path w u) = Some (Dir ns)"
  shows "resolve w (user_table_str u @ SLASH # PEND_MSGS_TABLE @ SLASH # show_nat (unat i)) =
    Inr (msg_path w u i)"
  using resolve_plain [of w _ ns] assms db_paths_plain(5) [OF assms(2)] db_paths_split [OF assms(2)]
  by (simp_all add: db_ready_def path_defs)

lemma namei_absent:
  "f cur = Some (Dir es) \<Longrightarrow> valid_name n \<Longrightarrow> f (cur @ [n]) = None \<Longrightarrow> ns \<noteq> [] \<Longrightarrow>
   namei f cur (n # ns) = Inl ENOENT"
  by (cases ns) (simp_all add: namei.simps(2) [of f "cur @ [n]"])

lemma resolve_absent [quiet_simps]:
  assumes "db_ready w" "user_ok u" "fs w (tbl_path w u) = None"
  shows "resolve w (user_table_str u @ SLASH # USERDATA_ENTRY) = Inl ENOENT"
    "resolve w (user_table_str u @ SLASH # PEND_MSGS_TABLE) = Inl ENOENT"
    "resolve w (user_table_str u @ SLASH # PEND_MSGS_TABLE @ SLASH # show_nat (unat (i :: u32))) = Inl ENOENT"
proof -
  from assms(1) obtain es where d: "fs w (cwd w @ [DB_DIR]) = Some (Dir es)"
    by (auto simp: db_ready_def elim: is_dir_atE)
  then obtain es' where c: "fs w (cwd w) = Some (Dir es')"
    using assms(1) wf_fs_ancestor [of "fs w" "cwd w" "[DB_DIR]"] by (auto simp: db_ready_def)
  have "namei (fs w) (cwd w) (DB_DIR # (u @ ''-table'') # ns) = Inl ENOENT" if "ns \<noteq> []" for ns
    using c d assms that namei_absent [of "fs w" "cwd w @ [DB_DIR]" es "u @ ''-table''" ns]
    by (simp add: tbl_path_def)
  then show "resolve w (user_table_str u @ SLASH # USERDATA_ENTRY) = Inl ENOENT"
    "resolve w (user_table_str u @ SLASH # PEND_MSGS_TABLE) = Inl ENOENT"
    "resolve w (user_table_str u @ SLASH # PEND_MSGS_TABLE @ SLASH # show_nat (unat i)) = Inl ENOENT"
    using db_paths_plain(3,4) [OF assms(2)] db_paths_plain(5) [OF assms(2), of i]
    by (simp_all only: resolve_plain_namei db_paths_split [OF assms(2)] list.distinct not_False_eq_True)
qed

end
