(* ===== verification/DbmsLaws.thy ===== *)
theory DbmsLaws
  imports DbInv
begin

text \<open>
  The database operations in a quiet world that satisfies \<open>db_inv\<close>: for each, the result, the
  world after it, and the entry it leaves in memory, on the branches a caller can meet.
\<close>

subsection \<open>Invariant and environment\<close>

lemma db_ready_update [simp]:
  "db_ready (w\<lparr>err_no := e\<rparr>) = db_ready w" "db_ready (w\<lparr>fds := t\<rparr>) = db_ready w"
  "db_ready (w\<lparr>trace := tr\<rparr>) = db_ready w"
  by (simp_all add: db_ready_def)

lemma path_cwd:
  assumes "cwd w' = cwd w"
  shows "tbl_path w' u = tbl_path w u" "ud_path w' u = ud_path w u" "pm_path w' u = pm_path w u"
    "msg_path w' u i = msg_path w u i"
  using assms by (simp_all add: path_defs)

lemma path_update [simp]:
  "tbl_path (w\<lparr>fs := f\<rparr>) u = tbl_path w u" "tbl_path (w\<lparr>fds := t\<rparr>) u = tbl_path w u"
  "tbl_path (w\<lparr>err_no := e\<rparr>) u = tbl_path w u" "tbl_path (w\<lparr>trace := tr\<rparr>) u = tbl_path w u"
  "ud_path (w\<lparr>fs := f\<rparr>) u = ud_path w u" "ud_path (w\<lparr>fds := t\<rparr>) u = ud_path w u"
  "ud_path (w\<lparr>err_no := e\<rparr>) u = ud_path w u" "ud_path (w\<lparr>trace := tr\<rparr>) u = ud_path w u"
  "pm_path (w\<lparr>fs := f\<rparr>) u = pm_path w u" "pm_path (w\<lparr>fds := t\<rparr>) u = pm_path w u"
  "pm_path (w\<lparr>err_no := e\<rparr>) u = pm_path w u" "pm_path (w\<lparr>trace := tr\<rparr>) u = pm_path w u"
  "msg_path (w\<lparr>fs := f\<rparr>) u i = msg_path w u i" "msg_path (w\<lparr>fds := t\<rparr>) u i = msg_path w u i"
  "msg_path (w\<lparr>err_no := e\<rparr>) u i = msg_path w u i" "msg_path (w\<lparr>trace := tr\<rparr>) u i = msg_path w u i"
  by (simp_all add: path_defs)

lemma below_table:
  "ud_path w u = tbl_path w u @ [USERDATA_ENTRY]" "pm_path w u = tbl_path w u @ [PEND_MSGS_TABLE]"
  "msg_path w u i = tbl_path w u @ [PEND_MSGS_TABLE, show_nat (unat i)]"
  "msg_path w u i = pm_path w u @ [show_nat (unat i)]"
  by (simp_all add: path_defs)

lemma path_neq [simp]:
  "tbl_path w u = tbl_path w v \<longleftrightarrow> u = v" "ud_path w u = ud_path w v \<longleftrightarrow> u = v"
  "pm_path w u = pm_path w v \<longleftrightarrow> u = v" "msg_path w u i = msg_path w v j \<longleftrightarrow> u = v \<and> i = j"
  "tbl_path w u \<noteq> ud_path w v" "tbl_path w u \<noteq> pm_path w v" "tbl_path w u \<noteq> msg_path w v i"
  "ud_path w u \<noteq> tbl_path w v" "pm_path w u \<noteq> tbl_path w v" "msg_path w u i \<noteq> tbl_path w v"
  "ud_path w u \<noteq> pm_path w v" "pm_path w u \<noteq> ud_path w v" "ud_path w u \<noteq> msg_path w v i"
  "msg_path w u i \<noteq> ud_path w v" "pm_path w u \<noteq> msg_path w v i" "msg_path w u i \<noteq> pm_path w v"
  "tbl_path w u \<noteq> []" "ud_path w u \<noteq> []" "pm_path w u \<noteq> []" "msg_path w u i \<noteq> []"
  by (simp_all add: path_defs)

lemma path_parts [simp]:
  "butlast (tbl_path w u) = cwd w @ [DB_DIR]" "last (tbl_path w u) = u @ ''-table''"
  "butlast (ud_path w u) = tbl_path w u" "last (ud_path w u) = USERDATA_ENTRY"
  "butlast (pm_path w u) = tbl_path w u" "last (pm_path w u) = PEND_MSGS_TABLE"
  "butlast (msg_path w u i) = pm_path w u" "last (msg_path w u i) = show_nat (unat i)"
  by (simp_all add: path_defs butlast_append)

lemma db_dir_neq [simp]:
  "cwd w @ [DB_DIR] \<noteq> tbl_path w u" "cwd w @ [DB_DIR] \<noteq> ud_path w u" "cwd w @ [DB_DIR] \<noteq> pm_path w u"
  "cwd w @ [DB_DIR] \<noteq> msg_path w u i" "tbl_path w u \<noteq> cwd w @ [DB_DIR]" "ud_path w u \<noteq> cwd w @ [DB_DIR]"
  "pm_path w u \<noteq> cwd w @ [DB_DIR]" "msg_path w u i \<noteq> cwd w @ [DB_DIR]"
  by (simp_all add: path_defs)

text \<open>What the abstraction of a user depends on: the tree at and below the user's table.\<close>

lemma table_frame:
  assumes "cwd w' = cwd w" "\<And>q. fs w' (tbl_path w u @ q) = fs w (tbl_path w u @ q)"
  shows "table_ok w' u = table_ok w u" "ud_of w' u = ud_of w u" "pend_of w' u = pend_of w u"
    "fs w' (tbl_path w' u) = fs w (tbl_path w u)"
proof -
  have p: "fs w' (tbl_path w' u) = fs w (tbl_path w u)" "fs w' (ud_path w' u) = fs w (ud_path w u)"
    "fs w' (pm_path w' u) = fs w (pm_path w u)" "fs w' (msg_path w' u i) = fs w (msg_path w u i)" for i
    using assms(2) [of "[]"] assms(2) [of "[USERDATA_ENTRY]"] assms(2) [of "[PEND_MSGS_TABLE]"]
      assms(2) [of "[PEND_MSGS_TABLE, show_nat (unat i)]"]
    by (simp_all add: below_table(1-3) path_cwd [OF assms(1)])
  then show "table_ok w' u = table_ok w u" "ud_of w' u = ud_of w u" "pend_of w' u = pend_of w u"
    "fs w' (tbl_path w' u) = fs w (tbl_path w u)"
    by (simp_all add: table_ok_def ud_of_def pend_of_def fun_eq_iff path_cwd [OF assms(1)])
qed

lemma db_inv_update [simp]:
  "db_inv (w\<lparr>err_no := e\<rparr>) = db_inv w" "db_inv (w\<lparr>fds := t\<rparr>) = db_inv w"
  "db_inv (w\<lparr>trace := tr\<rparr>) = db_inv w"
  by (simp_all add: db_inv_def table_ok_def)

lemma of_update [simp]:
  "ud_of (w\<lparr>err_no := e\<rparr>) = ud_of w" "ud_of (w\<lparr>fds := t\<rparr>) = ud_of w" "ud_of (w\<lparr>trace := tr\<rparr>) = ud_of w"
  "pend_of (w\<lparr>err_no := e\<rparr>) = pend_of w" "pend_of (w\<lparr>fds := t\<rparr>) = pend_of w"
  "pend_of (w\<lparr>trace := tr\<rparr>) = pend_of w"
  by (simp_all add: ud_of_def pend_of_def fun_eq_iff)

lemma db_inv_ready: "db_inv w \<Longrightarrow> db_ready w"
  by (simp add: db_inv_def)

lemma db_inv_quiet: "db_inv w \<Longrightarrow> quiet w"
  by (simp add: db_inv_def db_ready_def)

lemma db_inv_wf: "db_inv w \<Longrightarrow> wf_fs (fs w)"
  by (simp add: db_inv_def db_ready_def)

lemma ud_of_table:
  assumes "db_inv w" "user_ok u"
  shows "ud_of w u = None \<longleftrightarrow> fs w (tbl_path w u) = None"
proof
  assume "fs w (tbl_path w u) = None"
  then have "fs w (ud_path w u) = None"
    using wf_fs_ancestor [OF db_inv_wf [OF assms(1)], of "tbl_path w u" "[USERDATA_ENTRY]"]
    by (cases "fs w (ud_path w u)") (auto simp: below_table(1))
  then show "ud_of w u = None" by (simp add: ud_of_def)
next
  assume none: "ud_of w u = None"
  from assms have "fs w (tbl_path w u) = None \<or> table_ok w u" by (simp add: db_inv_def)
  with none show "fs w (tbl_path w u) = None"
    by (auto simp: table_ok_def ud_of_def)
qed

lemma ud_ofD:
  assumes "db_inv w" "user_ok u" "ud_of w u = Some m"
  shows "fs w (ud_path w u) = Some (Reg m)" "ud_ok u m" "table_ok w u"
    "\<exists>ns. fs w (tbl_path w u) = Some (Dir ns)" "\<exists>ids. fs w (pm_path w u) = Some (Dir ids)"
proof -
  show f: "fs w (ud_path w u) = Some (Reg m)"
    using assms(3) by (auto simp: ud_of_def split: option.splits node.splits)
  from assms ud_of_table [OF assms(1,2)] show t: "table_ok w u" by (auto simp: db_inv_def)
  from t f show "ud_ok u m" by (auto simp: table_ok_def)
  from t show "\<exists>ns. fs w (tbl_path w u) = Some (Dir ns)" "\<exists>ids. fs w (pm_path w u) = Some (Dir ids)"
    by (auto simp: table_ok_def)
qed

subsection \<open>\<^verbatim>\<open>db_user_exists\<close>\<close>

lemma run_db_user_exists:
  assumes "db_inv w" "user_ok u"
  shows "run_state (db_user_exists u) w =
    (if ud_of w u = None
     then (FALSE, w\<lparr>trace := trace w @ [EvOverflow], err_no := Some ENOENT\<rparr>)
     else (TRUE, w\<lparr>trace := trace w @ [EvOverflow], err_no := None\<rparr>))"
proof -
  let ?w = "w\<lparr>trace := trace w @ [EvOverflow]\<rparr>"
  have q: "quiet ?w" using assms(1) by (simp add: db_inv_quiet)
  have res: "resolve ?w (user_table_str u) = Inr (tbl_path w u)"
    using assms by (simp add: resolve_table db_inv_ready)
  show ?thesis
  proof (cases "ud_of w u")
    case None
    then have "fs ?w (tbl_path w u) = None" using assms by (simp add: ud_of_table)
    with None run_open_directory(2) [OF q res] show ?thesis
      by (simp add: db_user_exists_def sys_sprintf_def length_user_table run_emit err_defs)
  next
    case (Some m)
    then obtain ns where "fs ?w (tbl_path w u) = Some (Dir ns)"
      using ud_ofD(4) [OF assms] by auto
    with Some run_open_directory(1) [OF q res, of ns READ] show ?thesis
      by (simp add: db_user_exists_def sys_sprintf_def length_user_table run_emit err_defs mode_defs
          close_stream_def run_closedir)
  qed
qed

text \<open>The buffer is one byte short for the path, whatever the name.\<close>

lemma user_exists_shape:
  "\<exists>m. db_user_exists u = do { emit EvOverflow; m } \<and> state_io_rel trace_rel m"
proof -
  have "db_user_exists u = do { emit EvOverflow;
     (result, user_table) \<leftarrow> open_directory (user_table_str u) READ;
     if result = DBMS_ERR_NOT_EXISTS then return FALSE
     else if result = DBMS_SUCCESS then do { close_stream user_table; return TRUE }
     else return result }"
    by (simp add: db_user_exists_def sys_sprintf_def length_user_table)
  moreover have "state_io_rel trace_rel (do {
     (result, user_table) \<leftarrow> open_directory (user_table_str u) READ;
     if result = DBMS_ERR_NOT_EXISTS then return FALSE
     else if result = DBMS_SUCCESS then do { close_stream user_table; return TRUE }
     else return result })"
    by (auto intro!: prog_sat)
  ultimately show ?thesis by blast
qed

subsection \<open>\<^verbatim>\<open>db_io_op_usr_ent\<close>\<close>

lemma unat_u32_bound: "unat (i :: u32) < 4294967296"
  using unsigned_less [of i, where ?'a = nat] by simp

text \<open>Every path the function prints fits its buffer, whatever the entry holds.\<close>

lemma entry_path_fits: "length (entry_path_str e) < entry_len e"
  using show_id_length [of "get_u32 ms_id e"]
  by (simp add: entry_path_str_def entry_len_def length_user_table MSG_ID_MAX_STR_SIZE_def)

lemma run_entry_sprintf [simp]:
  "run_state (sys_sprintf (entry_len e) (entry_path_str e)) w = (entry_path_str e, w)"
  by (simp add: run_sprintf entry_path_fits)

lemma fs_add_write: "p \<noteq> [] \<Longrightarrow> (fs_add p x f)(p \<mapsto> y) = fs_add p y f"
  by (simp add: fs_add_def fun_upd_twist)

lemma db_ready_write:
  assumes "db_ready w" "fs w p = Some (Reg d)"
  shows "db_ready (w\<lparr>fs := (fs w)(p \<mapsto> Reg d')\<rparr>)"
  using assms wf_fs_write [of "fs w" p d d']
  by (auto simp: db_ready_def is_dir_at_def)

lemma db_ready_add:
  assumes "db_ready w" "resolve w s = Inr p" "fs w p = None" "dir_names (Some x) = []"
  shows "db_ready (w\<lparr>fs := fs_add p x (fs w)\<rparr>)"
  using assms resolve_in_parent [of "fs w" "cwd w" s p] wf_fs_add [of "fs w" p _ x]
  by (auto simp: db_ready_def resolve_def is_dir_at_def fs_add_def split: option.splits)

lemma run_db_read:
  assumes "quiet w" "get_type e \<in> {ENT_TYPE_UD, ENT_TYPE_P_MSG}" "length e = sizeof_entry"
    and "resolve w (entry_path_str e) = Inr p" "fs w p = Some (Reg m)" "length m = sizeof_entry"
  shows "run_state (db_io_op_usr_ent e READ) w = ((DBMS_SUCCESS, m), w)"
proof -
  let ?n = "fresh_fd (fds w)" and ?w = "w\<lparr>fds := fd_add (DReg p 0) (fds w)\<rparr>"
  have "run_state (read_entry (int ?n) e) ?w =
      ((DBMS_SUCCESS, m), ?w\<lparr>fds := fd_add (DReg p sizeof_entry) (fds w)\<rparr>)"
    using run_read_entry [of ?w ?n p m e] assms by simp
  then show ?thesis
    using assms run_open(5) [OF assms(1,4,5)]
    by (auto simp: db_io_op_usr_ent_def open_file_def mode_defs run_close)
qed

lemma run_db_modify:
  assumes "quiet w" "get_type e \<in> {ENT_TYPE_UD, ENT_TYPE_P_MSG}" "length e = sizeof_entry"
    and "resolve w (entry_path_str e) = Inr p" "fs w p = Some (Reg m)"
  shows "run_state (db_io_op_usr_ent e MODIFY) w = ((DBMS_SUCCESS, e), w\<lparr>fs := (fs w)(p \<mapsto> Reg e)\<rparr>)"
proof -
  let ?n = "fresh_fd (fds w)"
    and ?w = "w\<lparr>fs := (fs w)(p \<mapsto> Reg []), fds := fd_add (DReg p 0) (fds w)\<rparr>"
  have "run_state (write_entry (int ?n) e) ?w =
      ((DBMS_SUCCESS, e), w\<lparr>fs := (fs w)(p \<mapsto> Reg e), fds := fd_add (DReg p sizeof_entry) (fds w)\<rparr>)"
    using run_write_entry [of ?w ?n p e] assms by simp
  then show ?thesis
    using assms run_open(6) [OF assms(1,4,5)]
    by (auto simp: db_io_op_usr_ent_def open_file_def mode_defs run_close)
qed

lemma run_db_create:
  assumes "quiet w" "get_type e \<in> {ENT_TYPE_UD, ENT_TYPE_P_MSG}" "length e = sizeof_entry"
    and "resolve w (entry_path_str e) = Inr p" "fs w p = None" "p \<noteq> []"
  shows "run_state (db_io_op_usr_ent e CREATE) w = ((DBMS_SUCCESS, e), w\<lparr>fs := fs_add p (Reg e) (fs w)\<rparr>)"
proof -
  let ?n = "fresh_fd (fds w)"
    and ?w = "w\<lparr>fs := fs_add p (Reg []) (fs w), fds := fd_add (DReg p 0) (fds w)\<rparr>"
  have "fs ?w p = Some (Reg [])" using assms(6) by (simp add: fs_add_def)
  then have "run_state (write_entry (int ?n) e) ?w =
      ((DBMS_SUCCESS, e), w\<lparr>fs := fs_add p (Reg e) (fs w), fds := fd_add (DReg p sizeof_entry) (fds w)\<rparr>)"
    using run_write_entry [of ?w ?n p e] assms by (simp add: fs_add_write)
  then show ?thesis
    using assms run_open(4) [OF assms(1,4,5)]
    by (auto simp: db_io_op_usr_ent_def open_file_def mode_defs run_close)
qed

lemma run_db_create_exists:
  assumes "quiet w" "get_type e \<in> {ENT_TYPE_UD, ENT_TYPE_P_MSG}"
    and "resolve w (entry_path_str e) = Inr p" "fs w p = Some x"
  shows "run_state (db_io_op_usr_ent e CREATE) w = ((DBMS_ERR_ANY, e), w\<lparr>err_no := Some EEXIST\<rparr>)"
  using assms run_open(3) [OF assms(1,3,4)]
  by (auto simp: db_io_op_usr_ent_def open_file_def mode_defs)

lemma run_db_absent:
  assumes "quiet w" "get_type e \<in> {ENT_TYPE_UD, ENT_TYPE_P_MSG}" "mode \<in> {READ, MODIFY}"
    and "resolve w (entry_path_str e) = Inl ENOENT \<or>
      (\<exists>p. resolve w (entry_path_str e) = Inr p \<and> fs w p = None)"
  shows "run_state (db_io_op_usr_ent e mode) w = ((DBMS_ERR_NOT_EXISTS, e), w\<lparr>err_no := Some ENOENT\<rparr>)"
  using assms run_open(1,2) [OF assms(1)]
  by (auto simp: db_io_op_usr_ent_def open_file_def mode_defs)

end
