(* ===== verification/DbStore.thy ===== *)
theory DbStore
  imports DbmsLaws
begin

text \<open>
  The database as a store of user data and pending messages: what each operation of
  \<^verbatim>\<open>dbms.c\<close> does to the abstraction \<open>ud_of\<close>, \<open>pend_of\<close> and that it keeps \<open>db_inv\<close>.
\<close>

subsection \<open>The changes the operations make\<close>

definition put_ud :: "string \<Rightarrow> mem \<Rightarrow> world \<Rightarrow> world" where
  "put_ud u m w = w\<lparr>fs := (fs w)(ud_path w u \<mapsto> Reg m)\<rparr>"

definition add_msg :: "string \<Rightarrow> u32 \<Rightarrow> mem \<Rightarrow> world \<Rightarrow> world" where
  "add_msg u i m w = w\<lparr>fs := fs_add (msg_path w u i) (Reg m) (fs w)\<rparr>"

definition del_msg :: "string \<Rightarrow> u32 \<Rightarrow> world \<Rightarrow> world" where
  "del_msg u i w = w\<lparr>fs := fs_del (msg_path w u i) (fs w), err_no := Some ENOTDIR\<rparr>"

definition new_user :: "string \<Rightarrow> mem \<Rightarrow> world \<Rightarrow> world" where
  "new_user u m w = w\<lparr>fs := fs_add (pm_path w u) (Dir []) (fs_add (ud_path w u) (Reg m)
     (fs_add (tbl_path w u) (Dir []) (fs w)))\<rparr>"

lemma tbl_disjoint: "u \<noteq> v \<Longrightarrow> tbl_path w v @ q \<noteq> tbl_path w u @ r"
  by (simp add: path_defs)

lemma tbl_disjoint2 [simp]:
  "u \<noteq> v \<Longrightarrow> tbl_path w v @ q \<noteq> tbl_path w u" "u \<noteq> v \<Longrightarrow> tbl_path w v @ q \<noteq> ud_path w u"
  "u \<noteq> v \<Longrightarrow> tbl_path w v @ q \<noteq> pm_path w u" "u \<noteq> v \<Longrightarrow> tbl_path w v @ q \<noteq> msg_path w u i"
  "tbl_path w v @ q \<noteq> cwd w @ [DB_DIR]"
  by (simp_all add: path_defs)

lemma db_ready_run:
  assumes "db_ready w" "run_state m w = (r, w')"
    and "state_io_rel fs_rel m" "state_io_rel orc_rel m" "state_io_rel env_rel m"
    and "is_dir_at (fs w') (cwd w @ [DB_DIR])"
  shows "db_ready w'"
proof -
  have "fs_rel w w'" "orc_rel w w'" "env_rel w w'"
    using assms(2-5) by (blast intro: fs_os.sat_run orc_os.sat_run env_os.sat_run)+
  with assms(1,6) show ?thesis
    by (auto simp: db_ready_def fs_rel_def env_rel_def intro: orc_rel_quiet)
qed

text \<open>To see that the invariant holds after a change to one user's table, only that table
  has to be looked at.\<close>

lemma db_inv_change:
  assumes "db_inv w" "db_ready w'" "cwd w' = cwd w"
    and "\<And>v q. v \<noteq> u \<Longrightarrow> fs w' (tbl_path w v @ q) = fs w (tbl_path w v @ q)"
    and "fs w' (tbl_path w' u) = None \<or> table_ok w' u"
  shows "db_inv w'"
  unfolding db_inv_def
proof (intro conjI allI impI)
  fix v
  assume "user_ok v"
  then have "fs w (tbl_path w v) = None \<or> table_ok w v" using assms(1) by (simp add: db_inv_def)
  with table_frame [OF assms(3), of v] assms(4) [of v] assms(5)
  show "fs w' (tbl_path w' v) = None \<or> table_ok w' v" by (cases "v = u") auto
qed fact

lemma table_okD:
  assumes "table_ok w u"
  shows "\<exists>ns. fs w (tbl_path w u) = Some (Dir ns) \<and> set ns = {USERDATA_ENTRY, PEND_MSGS_TABLE}"
    "\<exists>m. fs w (ud_path w u) = Some (Reg m) \<and> ud_ok u m"
    "fs w (pm_path w u) = Some (Dir ids) \<Longrightarrow> n \<in> set ids \<Longrightarrow>
       \<exists>i m. n = show_nat (unat i) \<and> fs w (msg_path w u i) = Some (Reg m) \<and> msg_ok u i m"
  using assms unfolding table_ok_def by auto

subsection \<open>User data\<close>

lemma entry_path_ud:
  "ud_ok u e \<Longrightarrow> entry_path_str e = user_table_str u @ SLASH # USERDATA_ENTRY"
  by (simp add: entry_path_str_def ud_ok_def)

lemma ud_okD: "ud_ok u e \<Longrightarrow> length e = sizeof_entry" "ud_ok u e \<Longrightarrow> get_type e \<in> {ENT_TYPE_UD, ENT_TYPE_P_MSG}"
  by (simp_all add: ud_ok_def)

lemma resolve_ud:
  assumes "db_inv w" "user_ok u" "ud_of w u = Some m" "ud_ok u e"
  shows "resolve w (entry_path_str e) = Inr (ud_path w u)"
  using ud_ofD(4) [OF assms(1-3)] assms
  by (auto simp: entry_path_ud db_inv_ready resolve_in_table)

lemma run_read_ud [quiet_simps]:
  assumes "db_inv w" "user_ok u" "ud_of w u = Some m" "ud_ok u e"
  shows "run_state (db_io_op_usr_ent e READ) w = ((DBMS_SUCCESS, m), w)"
  using run_db_read [OF db_inv_quiet [OF assms(1)] _ _ resolve_ud [OF assms]] ud_ofD [OF assms(1-3)]
    assms(4) by (simp add: ud_ok_def)

lemma run_modify_ud [quiet_simps]:
  assumes "db_inv w" "user_ok u" "ud_of w u = Some m" "ud_ok u e"
  shows "run_state (db_io_op_usr_ent e MODIFY) w = ((DBMS_SUCCESS, e), put_ud u e w)"
  using run_db_modify [OF db_inv_quiet [OF assms(1)] _ _ resolve_ud [OF assms]] ud_ofD [OF assms(1-3)]
    assms(4) by (simp add: ud_ok_def put_ud_def)

lemma run_ud_absent [quiet_simps]:
  assumes "db_inv w" "user_ok u" "ud_of w u = None" "ud_ok u e" "mode \<in> {READ, MODIFY}"
  shows "run_state (db_io_op_usr_ent e mode) w = ((DBMS_ERR_NOT_EXISTS, e), w\<lparr>err_no := Some ENOENT\<rparr>)"
proof (rule run_db_absent [OF db_inv_quiet [OF assms(1)] _ assms(5)])
  show "get_type e \<in> {ENT_TYPE_UD, ENT_TYPE_P_MSG}" using assms(4) by (simp add: ud_ok_def)
  have "fs w (tbl_path w u) = None" using assms(1-3) by (simp add: ud_of_table)
  with assms(1,2,4) show "resolve w (entry_path_str e) = Inl ENOENT \<or>
      (\<exists>p. resolve w (entry_path_str e) = Inr p \<and> fs w p = None)"
    by (simp add: entry_path_ud resolve_absent db_inv_ready)
qed

lemma put_ud_of [simp]:
  "ud_of (put_ud u e w) = (ud_of w)(u \<mapsto> e)" "pend_of (put_ud u e w) = pend_of w"
  by (auto simp: put_ud_def ud_of_def pend_of_def fun_eq_iff)

lemma put_ud_inv:
  assumes "db_inv w" "user_ok u" "ud_of w u = Some m" "ud_ok u e"
  shows "db_inv (put_ud u e w)"
proof (rule db_inv_change [OF assms(1)])
  show "db_ready (put_ud u e w)"
    using db_ready_write [OF db_inv_ready [OF assms(1)] ud_ofD(1) [OF assms(1-3)]]
    by (simp add: put_ud_def)
  show "fs (put_ud u e w) (tbl_path (put_ud u e w) u) = None \<or> table_ok (put_ud u e w) u"
    using ud_ofD(3) [OF assms(1-3)] assms(4) by (auto simp: put_ud_def table_ok_def)
qed (auto simp: put_ud_def)

subsection \<open>Pending messages\<close>

lemma entry_path_msg:
  "msg_key u i e \<Longrightarrow> entry_path_str e =
     user_table_str u @ SLASH # PEND_MSGS_TABLE @ SLASH # show_nat (unat i)"
  by (simp add: entry_path_str_def msg_key_def type_defs)

lemma resolve_msg:
  assumes "db_inv w" "user_ok u" "ud_of w u = Some m" "msg_key u i e"
  shows "resolve w (entry_path_str e) = Inr (msg_path w u i)"
  using ud_ofD(5) [OF assms(1-3)] assms
  by (auto simp: entry_path_msg db_inv_ready resolve_message)

lemma pend_of_fs:
  assumes "db_inv w" "user_ok u" "ud_of w u = Some m"
  shows "fs w (msg_path w u i) = map_option Reg (pend_of w u i)"
    "pend_of w u i = Some d \<Longrightarrow> msg_ok u i d"
proof -
  obtain ids where ids: "fs w (pm_path w u) = Some (Dir ids)" and
    all: "\<forall>n\<in>set ids. \<exists>i m. n = show_nat (unat i) \<and> fs w (msg_path w u i) = Some (Reg m) \<and> msg_ok u i m"
    using ud_ofD(3) [OF assms] by (auto simp: table_ok_def)
  have child: "fs w (msg_path w u i) \<noteq> None \<longleftrightarrow> show_nat (unat i) \<in> set ids"
    using wf_fs_child [OF db_inv_wf [OF assms(1)], of "pm_path w u" "show_nat (unat i)"] ids
    by (simp add: below_table(4))
  have reg: "\<exists>m. fs w (msg_path w u i) = Some (Reg m) \<and> msg_ok u i m" if "show_nat (unat i) \<in> set ids"
    using bspec [OF all that] by (metis show_id_inject)
  show "fs w (msg_path w u i) = map_option Reg (pend_of w u i)"
    using reg child by (cases "fs w (msg_path w u i)") (auto simp: pend_of_def)
  show "msg_ok u i d" if "pend_of w u i = Some d"
    using that reg child by (cases "fs w (msg_path w u i)") (auto simp: pend_of_def)
qed

lemma run_create_msg [quiet_simps]:
  assumes "db_inv w" "user_ok u" "ud_of w u = Some m" "msg_key u i e"
  shows "run_state (db_io_op_usr_ent e CREATE) w =
    (if pend_of w u i = None then ((DBMS_SUCCESS, e), add_msg u i e w)
     else ((DBMS_ERR_ANY, e), w\<lparr>err_no := Some EEXIST\<rparr>))"
  using run_db_create [OF db_inv_quiet [OF assms(1)] _ _ resolve_msg [OF assms]]
    run_db_create_exists [OF db_inv_quiet [OF assms(1)] _ resolve_msg [OF assms]]
    pend_of_fs(1) [OF assms(1-3), of i] assms(4)
  by (auto simp: msg_key_def add_msg_def)

lemma run_read_msg [quiet_simps]:
  assumes "db_inv w" "user_ok u" "ud_of w u = Some m" "msg_key u i e" "pend_of w u i = Some d"
  shows "run_state (db_io_op_usr_ent e READ) w = ((DBMS_SUCCESS, d), w)"
  using run_db_read [OF db_inv_quiet [OF assms(1)] _ _ resolve_msg [OF assms(1-4)]]
    pend_of_fs [OF assms(1-3), of i] assms(4,5) by (simp add: msg_ok_def msg_key_def)

lemma add_msg_of [simp]:
  "ud_of (add_msg u i e w) = ud_of w"
  "pend_of (add_msg u i e w) = (pend_of w)(u := (pend_of w u)(i \<mapsto> e))"
  by (auto simp: add_msg_def ud_of_def pend_of_def fs_add_def fun_eq_iff)

lemma add_msg_inv:
  assumes "db_inv w" "user_ok u" "ud_of w u = Some m" "msg_ok u i e" "pend_of w u i = None"
  shows "db_inv (add_msg u i e w)"
proof (rule db_inv_change [OF assms(1)])
  have none: "fs w (msg_path w u i) = None"
    using pend_of_fs(1) [OF assms(1-3), of i] assms(5) by simp
  show "db_ready (add_msg u i e w)"
    using db_ready_add [OF db_inv_ready [OF assms(1)] resolve_msg [OF assms(1-3) msg_ok_key [OF assms(4)]] none]
    by (simp add: add_msg_def)
  have "table_ok w u" by (rule ud_ofD(3) [OF assms(1-3)])
  then show "fs (add_msg u i e w) (tbl_path (add_msg u i e w) u) = None \<or> table_ok (add_msg u i e w) u"
    using assms(4) by (auto simp: add_msg_def table_ok_def fs_add_def) (metis+)?
qed (auto simp: add_msg_def fs_add_def)

text \<open>Deleting a message goes through \<^verbatim>\<open>remove_recursive\<close>, whose attempt to open the file
  as a directory leaves \<^verbatim>\<open>ENOTDIR\<close> behind.\<close>

lemma run_delete_msg [quiet_simps]:
  assumes "db_inv w" "user_ok u" "ud_of w u = Some m" "msg_key u i e" "pend_of w u i = Some d"
  shows "run_state (db_io_op_usr_ent e DELETE) w = ((DBMS_SUCCESS, e), del_msg u i w)"
proof -
  have reg: "fs w (msg_path w u i) = Some (Reg d)"
    using pend_of_fs(1) [OF assms(1-3), of i] assms(5) by simp
  have "remove_recursive (entry_path_str e) w = (0, del_msg u i w)"
    using resolve_msg [OF assms(1-4)] reg db_inv_quiet [OF assms(1)]
    by (simp add: remove_recursive.simps [of "entry_path_str e"] remove_finish_def quiet_simps del_msg_def)
  then show ?thesis
    using assms(4) by (auto simp: db_io_op_usr_ent_def mode_defs msg_key_def)
qed

lemma del_msg_of [simp]:
  "ud_of (del_msg u i w) = ud_of w"
  "pend_of (del_msg u i w) = (pend_of w)(u := (pend_of w u)(i := None))"
  by (auto simp: del_msg_def ud_of_def pend_of_def fs_del_def fun_eq_iff)

lemma del_msg_inv:
  assumes "db_inv w" "user_ok u" "ud_of w u = Some m" "pend_of w u i = Some d"
  shows "db_inv (del_msg u i w)"
proof (rule db_inv_change [OF assms(1)])
  have e: "msg_ok u i d" by (rule pend_of_fs(2) [OF assms])
  have "is_dir_at (fs (del_msg u i w)) (cwd w @ [DB_DIR])"
    using db_inv_ready [OF assms(1)] by (simp add: del_msg_def fs_del_def db_ready_def is_dir_at_def)
  with db_ready_run [OF db_inv_ready [OF assms(1)] run_delete_msg [OF assms(1-3) msg_ok_key [OF e] assms(4)]]
  show "db_ready (del_msg u i w)"
    by (simp add: fs_os.sat_db_io_op_usr_ent orc_os.sat_db_io_op_usr_ent env_os.sat_db_io_op_usr_ent)
  obtain ids where ids: "fs w (pm_path w u) = Some (Dir ids)" "distinct ids"
    using ud_ofD(5) [OF assms(1-3)] wf_fs_names(1) [OF db_inv_wf [OF assms(1)], of "pm_path w u"] by auto
  let ?w = "del_msg u i w"
  have tab: "table_ok w u" by (rule ud_ofD(3) [OF assms(1-3)])
  have msgs: "\<exists>j m. n = show_nat (unat j) \<and> fs ?w (msg_path ?w u j) = Some (Reg m) \<and> msg_ok u j m"
    if "n \<in> set ids" "n \<noteq> show_nat (unat i)" for n
  proof -
    from table_okD(3) [OF tab ids(1) that(1)] obtain j m where
      "n = show_nat (unat j)" "fs w (msg_path w u j) = Some (Reg m)" "msg_ok u j m" by blast
    with that(2) show ?thesis by (auto simp: del_msg_def fs_del_def)
  qed
  have "fs ?w (pm_path ?w u) = Some (Dir (remove1 (show_nat (unat i)) ids))"
    using ids by (simp add: del_msg_def fs_del_def)
  moreover have "\<forall>n\<in>set (remove1 (show_nat (unat i)) ids).
      \<exists>j m. n = show_nat (unat j) \<and> fs ?w (msg_path ?w u j) = Some (Reg m) \<and> msg_ok u j m"
    using msgs ids(2) by auto
  moreover have "fs ?w (tbl_path ?w u) = fs w (tbl_path w u)" "fs ?w (ud_path ?w u) = fs w (ud_path w u)"
    by (simp_all add: del_msg_def fs_del_def)
  ultimately have "table_ok ?w u"
    using table_okD(1,2) [OF tab] unfolding table_ok_def by simp
  then show "fs ?w (tbl_path ?w u) = None \<or> table_ok ?w u" ..
qed (auto simp: del_msg_def fs_del_def)

subsection \<open>Reading a pending message\<close>

lemma pend_scan_nodot: "pend_scan es b e = pend_scan (nodot es) b e"
proof (induction es arbitrary: b e)
  case Nil
  then show ?case by simp
next
  case (Cons x es)
  obtain n d where x: "x = (n, d)" by fastforce
  show ?case
  proof (cases b)
    case False
    then show ?thesis using x by (cases "nodot (x # es)") (auto simp: pend_scan.simps(2))
  next
    case True
    have eq: "pend_scan es = pend_scan (nodot es)" using Cons.IH by (intro ext)
    have "pend_scan ((n, d) # es) b e = pend_scan ((n, d) # nodot es) b e"
      unfolding pend_scan.simps(2) eq ..
    then show ?thesis using x True Cons.IH by (auto simp: pend_scan.simps(2) [of n d es])
  qed
qed

text \<open>The entry a pending message is read into: of the right type, for the user.\<close>

definition pend_query :: "string \<Rightarrow> mem \<Rightarrow> bool" where
  "pend_query u e \<longleftrightarrow> length e = sizeof_entry \<and> cstr en_username e = u \<and> get_type e = ENT_TYPE_P_MSG"

lemma msg_ok_query: "msg_ok u i e \<Longrightarrow> pend_query u e"
  by (simp add: msg_ok_def msg_key_def pend_query_def)

lemma pend_query_set_id: "pend_query u e \<Longrightarrow> user_ok u \<Longrightarrow> msg_key u i (set_u32 ms_id i e)"
  by (simp add: pend_query_def msg_key_def en_defs mem_simps user_ok_def)

lemma run_pend_scan:
  assumes "db_inv w" "user_ok u" "ud_of w u = Some m" "pend_query u e" "pend_of w u i = Some d"
  shows "run_state (pend_scan ((show_nat (unat i), b) # es) True e) w =
    ((None, False, d), w\<lparr>err_no := None\<rparr>)"
proof -
  have "show_nat (unat i) \<noteq> ''.''" "show_nat (unat i) \<noteq> ''..''"
    using show_id_valid [of i] by (auto simp: valid_name_def)
  moreover have "run_state (db_io_op_usr_ent (set_u32 ms_id i e) READ) (w\<lparr>err_no := None\<rparr>) =
      ((DBMS_SUCCESS, d), w\<lparr>err_no := None\<rparr>)"
    by (rule run_read_msg [where u = u and m = m and i = i])
      (use assms in \<open>simp_all add: pend_query_set_id\<close>)
  moreover have "unat i < 2 ^ 63" using unat_u32_bound [of i] by simp
  moreover have "pend_scan es False d = return (None, False, d)"
    by (cases es) (auto simp: pend_scan.simps)
  ultimately show ?thesis
    by (simp add: pend_scan.simps(2) run_str_to_num_show Let_def)
qed

lemma pend_query_sprintf:
  "run_state (sys_sprintf (29 + length u)
     (user_table_str u @ SLASH # PEND_MSGS_TABLE)) w = (user_table_str u @ SLASH # PEND_MSGS_TABLE, w)"
  by (simp add: run_sprintf length_user_table)

lemma pend_listing:
  assumes "db_inv w" "user_ok u" "ud_of w u = Some m" "fs w (pm_path w u) = Some (Dir ids)"
  shows "lists_dir (fs w) (pm_path w u) (dir_entries w (pm_path w u) ids)"
    "n \<in> set ids \<longleftrightarrow> (\<exists>i. n = show_nat (unat i) \<and> pend_of w u i \<noteq> None)"
proof -
  show "lists_dir (fs w) (pm_path w u) (dir_entries w (pm_path w u) ids)"
    using db_inv_ready [OF assms(1)] assms(4) by (intro lists_dir_entries) (auto simp: db_ready_def)
  have child: "show_nat (unat i) \<in> set ids \<longleftrightarrow> pend_of w u i \<noteq> None" for i
    using wf_fs_child [OF db_inv_wf [OF assms(1)], of "pm_path w u" "show_nat (unat i)"] assms(4)
      pend_of_fs(1) [OF assms(1-3), of i]
    by (simp add: below_table(4))
  have "\<exists>i :: u32. n = show_nat (unat i)" if "n \<in> set ids"
    using table_okD(3) [OF ud_ofD(3) [OF assms(1-3)] assms(4) that] by blast
  with child show "n \<in> set ids \<longleftrightarrow> (\<exists>i. n = show_nat (unat i) \<and> pend_of w u i \<noteq> None)"
    by auto
qed

lemma run_get_pend_msg [quiet_simps]:
  assumes "db_inv w" "user_ok u" "ud_of w u = Some m" "pend_query u e"
  shows "(\<forall>i. pend_of w u i = None) \<Longrightarrow>
      run_state (db_get_pend_msg e) w = ((DBMS_ERR_NOT_EXISTS, e), w\<lparr>err_no := None\<rparr>)"
    and "pend_of w u j \<noteq> None \<Longrightarrow> \<exists>i d. pend_of w u i = Some d \<and>
      run_state (db_get_pend_msg e) w = ((DBMS_SUCCESS, d), w\<lparr>err_no := None\<rparr>)"
proof -
  obtain ids where ids: "fs w (pm_path w u) = Some (Dir ids)" using ud_ofD(5) [OF assms(1-3)] by auto
  let ?es = "dir_entries w (pm_path w u) ids"
  let ?w = "w\<lparr>err_no := None, fds := fd_add DDir (fds w)\<rparr>"
  have q: "cstr en_username e = u" "get_type e = ENT_TYPE_P_MSG"
    using assms(4) by (simp_all add: pend_query_def)
  obtain ns where "fs w (tbl_path w u) = Some (Dir ns)" using ud_ofD(4) [OF assms(1-3)] by auto
  then have "resolve w (user_table_str u @ SLASH # PEND_MSGS_TABLE) = Inr (pm_path w u)"
    using assms by (simp add: resolve_in_table db_inv_ready)
  from run_open_directory(1) [OF db_inv_quiet [OF assms(1)] this ids, of READ]
  have open_: "run_state (open_directory (user_table_str u @ SLASH # PEND_MSGS_TABLE) READ) w =
      ((DBMS_SUCCESS, Some (fresh_fd (fds w), ?es)), ?w)"
    by (simp add: mode_defs)
  have set: "fst ` set (nodot ?es) = set ids"
    using pend_listing(1) [OF assms(1-3) ids] ids by (simp add: lists_dir_def)
  note run = db_get_pend_msg_def q pend_query_sprintf open_ pend_scan_nodot [of ?es] Let_def err_defs
    close_stream_def run_closedir
  show "run_state (db_get_pend_msg e) w = ((DBMS_ERR_NOT_EXISTS, e), w\<lparr>err_no := None\<rparr>)"
    if "\<forall>i. pend_of w u i = None"
  proof -
    have "n \<notin> set ids" for n using pend_listing(2) [OF assms(1-3) ids, of n] that by auto
    then have "ids = []" by (cases ids) auto
    with set have "nodot ?es = []" by simp
    then show ?thesis by (simp add: run)
  qed
  show "\<exists>i d. pend_of w u i = Some d \<and>
      run_state (db_get_pend_msg e) w = ((DBMS_SUCCESS, d), w\<lparr>err_no := None\<rparr>)"
    if "pend_of w u j \<noteq> None"
  proof -
    have "show_nat (unat j) \<in> set ids" using pend_listing(2) [OF assms(1-3) ids] that by auto
    with set obtain n b es where es: "nodot ?es = (n, b) # es" by (cases "nodot ?es") auto
    with set have "n \<in> set ids" by auto
    then obtain i d where i: "n = show_nat (unat i)" "pend_of w u i = Some d"
      using pend_listing(2) [OF assms(1-3) ids] by auto
    have "run_state (pend_scan (nodot ?es) True e) ?w = ((None, False, d), ?w)"
      unfolding es i(1) using run_pend_scan [of ?w u m e i d b es] assms i(2) by simp
    with i show ?thesis by (intro exI [of _ i] exI [of _ d]) (simp add: run)
  qed
qed

end
