(* ===== verification/DbUsers.thy ===== *)
theory DbUsers
  imports DbStore
begin

text \<open>
  Creating and deleting a user's table: \<open>created\<close> and \<open>deleted\<close> are the worlds after the
  two operations, which keep \<open>db_inv\<close>.
\<close>

subsection \<open>\<^verbatim>\<open>db_creat_usr_tbl\<close>\<close>

lemma tbl_neq_cwd [simp]: "tbl_path w u \<noteq> cwd w"
  by (simp add: tbl_path_def)

lemma create_sprintf [simp]:
  "run_state (sys_sprintf (13 + length u) (user_table_str u)) w = (user_table_str u, w)"
  "run_state (sys_sprintf (28 + length u) (user_table_str u @ SLASH # USERDATA_ENTRY)) w =
     (user_table_str u @ SLASH # USERDATA_ENTRY, w)"
  "run_state (sys_sprintf (29 + length u) (user_table_str u @ SLASH # PEND_MSGS_TABLE)) w =
     (user_table_str u @ SLASH # PEND_MSGS_TABLE, w)"
  by (simp_all add: run_sprintf length_user_table)

lemma run_create_exists [quiet_simps]:
  assumes "db_inv w" "user_ok u" "ud_of w u = Some m" "ud_ok u e"
  shows "run_state (db_creat_usr_tbl e) w = ((DBMS_ERR_EXISTS, e), w\<lparr>err_no := None\<rparr>)"
proof -
  obtain ns where ns: "fs w (tbl_path w u) = Some (Dir ns)" using ud_ofD(4) [OF assms(1-3)] by auto
  have res: "resolve w (user_table_str u) = Inr (tbl_path w u)"
    using assms(1,2) by (simp add: resolve_table db_inv_ready)
  show ?thesis
    using assms(4) run_open_directory(1) [OF db_inv_quiet [OF assms(1)] res ns, of CREATE]
    by (simp add: db_creat_usr_tbl_def ud_ok_def Let_def length_user_table mode_defs err_defs
        close_stream_def run_closedir)
qed

text \<open>A new user: three new leaves of the tree, and the descriptor of the user's directory,
  which is not closed.\<close>

definition created :: "string \<Rightarrow> mem \<Rightarrow> world \<Rightarrow> world" where
  "created u e w = (new_user u e w)\<lparr>fds := fd_add DDir (fds w), err_no := Some ENOENT\<rparr>"

lemma run_create_new [quiet_simps]:
  assumes "db_inv w" "user_ok u" "ud_of w u = None" "ud_ok u e"
  shows "run_state (db_creat_usr_tbl e) w = ((DBMS_SUCCESS, e), created u e w)"
proof -
  let ?f1 = "fs_add (tbl_path w u) (Dir []) (fs w)"
  let ?w1 = "w\<lparr>err_no := Some ENOENT, fs := ?f1, fds := fd_add DDir (fds w)\<rparr>"
  let ?f2 = "fs_add (ud_path w u) (Reg e) ?f1"
  let ?w2 = "?w1\<lparr>fs := ?f2\<rparr>"
  have u: "cstr en_username e = u" "get_type e = ENT_TYPE_UD" "length e = sizeof_entry"
    using assms(4) by (simp_all add: ud_ok_def)
  have rdy: "db_ready w" using assms(1) by (rule db_inv_ready)
  have t: "fs w (tbl_path w u) = None" using assms by (simp add: ud_of_table)
  have below: "fs w (tbl_path w u @ q) = None" for q
    using t wf_fs_leaf [OF db_inv_wf [OF assms(1)], of "tbl_path w u" q] by (cases "q = []") auto
  have res: "resolve w (user_table_str u) = Inr (tbl_path w u)"
    using rdy assms(2) by (simp add: resolve_table)
  have open1: "run_state (open_directory (user_table_str u) CREATE) w =
      ((DBMS_SUCCESS, Some (fresh_fd (fds w), dir_entries (w\<lparr>fs := ?f1\<rparr>) (tbl_path w u) [])), ?w1)"
    using run_open_directory_new [OF db_inv_quiet [OF assms(1)] res t] by simp
  have rdy1: "db_ready ?w1"
    using db_ready_add [of "w\<lparr>err_no := Some ENOENT\<rparr>" _ _ "Dir []"] rdy res t by simp
  have t1: "fs ?w1 (tbl_path ?w1 u) = Some (Dir [])"
    by (simp add: fs_add_def)
  have res1: "resolve ?w1 (entry_path_str e) = Inr (ud_path w u)"
    using resolve_in_table(1) [OF rdy1 assms(2) t1] assms(4) by (simp add: entry_path_ud)
  have none1: "fs ?w1 (ud_path w u) = None"
    using below [of "[USERDATA_ENTRY]"] by (simp add: fs_add_def below_table(1))
  have io: "run_state (db_io_op_usr_ent e CREATE) ?w1 = ((DBMS_SUCCESS, e), ?w2)"
    using run_db_create [OF _ _ u(3) res1 none1] u(2) db_inv_quiet [OF assms(1)] by simp
  have rdy2: "db_ready ?w2"
    using db_ready_add [OF rdy1 res1 none1, of "Reg e"] by simp
  have t2: "fs ?w2 (tbl_path ?w2 u) = Some (Dir [USERDATA_ENTRY])"
    by (simp add: fs_add_def)
  have res2: "resolve ?w2 (user_table_str u @ SLASH # PEND_MSGS_TABLE) = Inr (pm_path w u)"
    using resolve_in_table(2) [OF rdy2 assms(2) t2] by simp
  have none2: "fs ?w2 (pm_path w u) = None"
    using below [of "[PEND_MSGS_TABLE]"] by (simp add: fs_add_def below_table(1,2))
  have q2: "quiet ?w2" using db_inv_quiet [OF assms(1)] by simp
  show ?thesis
    using u run_open_directory_new [OF q2 res2 none2, of CREATE]
    by (simp add: db_creat_usr_tbl_def Let_def length_user_table open1 io err_defs
        close_stream_def run_closedir created_def new_user_def)
qed

lemma created_of [simp]:
  assumes "db_inv w" "user_ok u" "ud_of w u = None"
  shows "ud_of (created u e w) = (ud_of w)(u \<mapsto> e)" "pend_of (created u e w) = (pend_of w)"
    "pend_of w u = (\<lambda>_. None)"
proof -
  have t: "fs w (tbl_path w u) = None" using assms by (simp add: ud_of_table)
  show "ud_of (created u e w) = (ud_of w)(u \<mapsto> e)" "pend_of (created u e w) = pend_of w"
    by (auto simp: created_def new_user_def ud_of_def pend_of_def fs_add_def fun_eq_iff)
  show "pend_of w u = (\<lambda>_. None)"
    using wf_fs_leaf [OF db_inv_wf [OF assms(1)], of "tbl_path w u"] t
    by (simp add: pend_of_def fun_eq_iff below_table(3))
qed

lemma created_inv:
  assumes "db_inv w" "user_ok u" "ud_of w u = None" "ud_ok u e"
  shows "db_inv (created u e w)"
proof (rule db_inv_change [OF assms(1)])
  have "is_dir_at (fs (created u e w)) (cwd w @ [DB_DIR])"
    by (simp add: created_def new_user_def fs_add_def is_dir_at_def)
  with db_ready_run [OF db_inv_ready [OF assms(1)] run_create_new [OF assms]]
  show "db_ready (created u e w)"
    by (simp add: fs_os.sat_db_creat_usr_tbl orc_os.sat_db_creat_usr_tbl env_os.sat_db_creat_usr_tbl)
  have "ud_path w u \<noteq> tbl_path w u" "pm_path w u \<noteq> tbl_path w u" by simp_all
  then have "table_ok (created u e w) u"
    using assms(4) by (auto simp: table_ok_def created_def new_user_def fs_add_def)
  then show "fs (created u e w) (tbl_path (created u e w) u) = None \<or> table_ok (created u e w) u" ..
qed (auto simp: created_def new_user_def fs_add_def)

subsection \<open>\<^verbatim>\<open>db_del_usr_tbl\<close>\<close>

lemma table_fits:
  assumes "db_inv w" "user_ok u" "ud_of w u = Some m"
  shows "tree_fits (length (user_table_str u)) (tbl_path w u) (fs w)"
  unfolding tree_fits_def
proof (intro allI impI)
  fix q
  assume ex: "fs w (tbl_path w u @ q) \<noteq> None"
  note wf = db_inv_wf [OF assms(1)]
  obtain ns where ns: "fs w (tbl_path w u) = Some (Dir ns)" "set ns = {USERDATA_ENTRY, PEND_MSGS_TABLE}"
    using table_okD(1) [OF ud_ofD(3) [OF assms]] by auto
  obtain ids where ids: "fs w (pm_path w u) = Some (Dir ids)" using ud_ofD(5) [OF assms] by auto
  have head: "n \<in> set (dir_names (fs w p))" if "fs w (p @ n # r) \<noteq> None" for p n r
    using that wf_fs_child [OF wf, of p n] wf_fs_ancestor [OF wf, of "p @ [n]" r]
    by (cases r) auto
  have len: "length u \<le> 249" using assms(2) by (simp add: user_ok_def)
  consider "q = []" | r where "q = USERDATA_ENTRY # r" | "q = [PEND_MSGS_TABLE]"
    | n r where "q = PEND_MSGS_TABLE # n # r"
    using head [of "tbl_path w u" "hd q" "tl q"] ex ns by (cases q; cases "tl q") auto
  then show "length (user_table_str u) + (\<Sum>n\<leftarrow>q. Suc (length n)) < PATH_MAX"
  proof cases
    case 1
    with len show ?thesis by (simp add: length_user_table PATH_MAX_def)
  next
    case (2 r)
    have "dir_names (fs w (ud_path w u)) = []" using ud_ofD(1) [OF assms] by simp
    with 2 ex wf_fs_leaf [OF wf, of "ud_path w u" r] have "r = []"
      by (cases r) (auto simp: below_table(1))
    with 2 len show ?thesis by (simp add: length_user_table PATH_MAX_def)
  next
    case 3
    with len show ?thesis by (simp add: length_user_table PATH_MAX_def)
  next
    case (4 n r)
    then have n: "n \<in> set ids"
      using head [of "pm_path w u" n r] ex ids by (simp add: below_table(2))
    then obtain i m where i: "n = show_nat (unat (i :: u32))" "fs w (msg_path w u i) = Some (Reg m)"
      using table_okD(3) [OF ud_ofD(3) [OF assms] ids] by blast
    have "r = []"
      using 4 ex i wf_fs_leaf [OF wf, of "msg_path w u i" r] by (cases r) (auto simp: below_table(3))
    with 4 len i show_id_length [of i] show ?thesis by (simp add: length_user_table PATH_MAX_def)
  qed
qed

definition deleted :: "string \<Rightarrow> world \<Rightarrow> world" where
  "deleted u w = w\<lparr>fs := prune (tbl_path w u) (fs w)\<rparr>"

lemma run_delete_user [quiet_simps]:
  assumes "db_inv w" "user_ok u" "ud_of w u = Some m"
  shows "\<exists>e. run_state (db_del_usr_tbl u) w = (0, (deleted u w)\<lparr>err_no := e\<rparr>)"
proof -
  have s: "cwd w @ split_slash (user_table_str u) = tbl_path w u"
    using assms(2) by (simp add: split_user_table tbl_path_def)
  obtain ns where ns: "fs w (tbl_path w u) = Some (Dir ns)" using ud_ofD(4) [OF assms] by auto
  have "rm_ready (user_table_str u) w"
    using table_fits [OF assms] db_inv_ready [OF assms(1)] db_paths_plain(2) [OF assms(2)]
    by (simp add: rm_ready_def db_ready_def s)
  from remove_effect(1) [OF this, of "Dir ns"] ns show ?thesis
    by (auto simp: db_del_usr_tbl_def s deleted_def)
qed

lemma run_delete_absent [quiet_simps]:
  assumes "db_inv w" "user_ok u" "ud_of w u = None"
  shows "run_state (db_del_usr_tbl u) w = (DBMS_ERR_NOT_EXISTS, w\<lparr>err_no := Some ENOENT\<rparr>)"
proof -
  have "fs w (tbl_path w u) = None" using assms by (simp add: ud_of_table)
  moreover have "resolve w (user_table_str u) = Inr (tbl_path w u)"
    using assms by (simp add: resolve_table db_inv_ready)
  ultimately show ?thesis
    using db_inv_quiet [OF assms(1)]
    by (simp add: db_del_usr_tbl_def remove_recursive.simps [of "user_table_str u"] remove_finish_def quiet_simps)
qed

lemma prefix_tbl [simp]:
  "prefix (tbl_path w u) (tbl_path w v @ q) \<longleftrightarrow> u = v"
  by (auto simp: tbl_path_def)

lemma prefix_tbl_cwd [simp]: "\<not> prefix (tbl_path w u) (cwd w)"
proof
  assume "prefix (tbl_path w u) (cwd w)"
  then have "length (tbl_path w u) \<le> length (cwd w)" by (rule prefix_length_le)
  then show False by (simp add: tbl_path_def)
qed

lemma deleted_at:
  "fs (deleted u w) (tbl_path w v @ q) = (if v = u then None else fs w (tbl_path w v @ q))"
  by (auto simp: deleted_def prune_def tbl_path_def butlast_append)

lemma deleted_of [simp]:
  "ud_of (deleted u w) = (ud_of w)(u := None)" "pend_of (deleted u w) = (pend_of w)(u := (\<lambda>_. None))"
proof -
  have c: "cwd (deleted u w) = cwd w" by (simp add: deleted_def)
  show "ud_of (deleted u w) = (ud_of w)(u := None)" "pend_of (deleted u w) = (pend_of w)(u := (\<lambda>_. None))"
    by (auto simp: ud_of_def pend_of_def fun_eq_iff below_table(1,3) deleted_at path_cwd [OF c])
qed

lemma deleted_inv:
  assumes "db_inv w" "user_ok u" "ud_of w u = Some m"
  shows "db_inv (deleted u w)"
proof (rule db_inv_change [OF assms(1)])
  obtain e where run: "run_state (db_del_usr_tbl u) w = (0, (deleted u w)\<lparr>err_no := e\<rparr>)"
    using run_delete_user [OF assms] by blast
  have "is_dir_at (fs ((deleted u w)\<lparr>err_no := e\<rparr>)) (cwd w @ [DB_DIR])"
    by (simp add: deleted_def prune_def is_dir_at_def)
  with db_ready_run [OF db_inv_ready [OF assms(1)] run] show "db_ready (deleted u w)"
    by (simp add: fs_os.sat_db_del_usr_tbl orc_os.sat_db_del_usr_tbl env_os.sat_db_del_usr_tbl)
  show c: "cwd (deleted u w) = cwd w" by (simp add: deleted_def)
  show "fs (deleted u w) (tbl_path (deleted u w) u) = None \<or> table_ok (deleted u w) u"
    using deleted_at [of u w u "[]"] by (simp add: path_cwd [OF c])
qed (simp add: deleted_at)

end
