(* ===== verification/StoreSpec.thy ===== *)
theory StoreSpec
  imports DbUsers
begin

text \<open>
  The contract of the database. Two locales state what its clients, the services, rely on:
  \<open>user_store\<close> for the user data, \<open>message_store\<close> for the pending messages on top of it.
  What a client observes over several calls is derived inside them, once; the operations of
  \<^verbatim>\<open>dbms.c\<close> interpret both. At the end \<open>spec_step\<close> is the database as two maps, and every
  sequence of operations of \<^verbatim>\<open>dbms.c\<close> refines it.
\<close>

subsection \<open>User data\<close>

locale user_store =
  fixes inv :: "'w \<Rightarrow> bool"
    and data :: "'w \<Rightarrow> string \<Rightarrow> mem option"
    and create :: "mem \<Rightarrow> 'w \<Rightarrow> (int \<times> mem) \<times> 'w"
    and drop_user :: "string \<Rightarrow> 'w \<Rightarrow> int \<times> 'w"
    and exists :: "string \<Rightarrow> 'w \<Rightarrow> int \<times> 'w"
    and load :: "mem \<Rightarrow> 'w \<Rightarrow> (int \<times> mem) \<times> 'w"
    and store :: "mem \<Rightarrow> 'w \<Rightarrow> (int \<times> mem) \<times> 'w"
  assumes create_law: "inv w \<Longrightarrow> user_ok u \<Longrightarrow> ud_ok u e \<Longrightarrow> create e w = (r, w') \<Longrightarrow>
      inv w' \<and> r = (if data w u = None then DBMS_SUCCESS else DBMS_ERR_EXISTS, e) \<and>
      data w' = (if data w u = None then (data w)(u \<mapsto> e) else data w)"
    and drop_law: "inv w \<Longrightarrow> user_ok u \<Longrightarrow> drop_user u w = (n, w') \<Longrightarrow>
      inv w' \<and> n = (if data w u = None then DBMS_ERR_NOT_EXISTS else 0) \<and>
      data w' = (data w)(u := None)"
    and exists_law: "inv w \<Longrightarrow> user_ok u \<Longrightarrow> exists u w = (n, w') \<Longrightarrow>
      inv w' \<and> n = (if data w u = None then FALSE else TRUE) \<and> data w' = data w"
    and load_law: "inv w \<Longrightarrow> user_ok u \<Longrightarrow> ud_ok u e \<Longrightarrow> load e w = (r, w') \<Longrightarrow>
      inv w' \<and> data w' = data w \<and>
      r = (case data w u of None \<Rightarrow> (DBMS_ERR_NOT_EXISTS, e) | Some d \<Rightarrow> (DBMS_SUCCESS, d))"
    and store_law: "inv w \<Longrightarrow> user_ok u \<Longrightarrow> ud_ok u e \<Longrightarrow> store e w = (r, w') \<Longrightarrow>
      inv w' \<and> r = (if data w u = None then DBMS_ERR_NOT_EXISTS else DBMS_SUCCESS, e) \<and>
      data w' = (if data w u = None then data w else (data w)(u \<mapsto> e))"
begin

lemma create_twice:
  assumes "inv w" "user_ok u" "ud_ok u e" "ud_ok u e2" "create e w = (r, w')" "create e2 w' = (r2, w2)"
  shows "r2 = (DBMS_ERR_EXISTS, e2)" "data w2 = data w'"
  using create_law [OF assms(1-3,5)] create_law [OF _ assms(2,4,6)] by (auto split: if_splits)

lemma create_load:
  assumes "inv w" "user_ok u" "data w u = None" "ud_ok u e" "ud_ok u q"
    and "create e w = (r, w')" "load q w' = (r2, w2)"
  shows "r2 = (DBMS_SUCCESS, e)"
  using create_law [OF assms(1,2,4,6)] load_law [OF _ assms(2,5,7)] assms(3) by simp

lemma store_load:
  assumes "inv w" "user_ok u" "data w u = Some m" "ud_ok u e" "ud_ok u q"
    and "store e w = (r, w')" "load q w' = (r2, w2)"
  shows "r2 = (DBMS_SUCCESS, e)"
  using store_law [OF assms(1,2,4,6)] load_law [OF _ assms(2,5,7)] assms(3) by simp

lemma drop_load:
  assumes "inv w" "user_ok u" "ud_ok u q" "drop_user u w = (n, w')" "load q w' = (r2, w2)"
  shows "r2 = (DBMS_ERR_NOT_EXISTS, q)"
  using drop_law [OF assms(1,2,4)] load_law [OF _ assms(2,3,5)] by simp

text \<open>A user name that was given up can be taken again, with nothing left of the old data.\<close>

lemma drop_create_load:
  assumes "inv w" "user_ok u" "ud_ok u e" "ud_ok u q"
    and "drop_user u w = (n, w')" "create e w' = (r, w2)" "load q w2 = (r2, w3)"
  shows "r = (DBMS_SUCCESS, e)" "r2 = (DBMS_SUCCESS, e)"
proof -
  note d = drop_law [OF assms(1,2,5)]
  with create_law [OF _ assms(2,3,6)] show "r = (DBMS_SUCCESS, e)" by simp
  from d show "r2 = (DBMS_SUCCESS, e)"
    by (intro create_load [OF _ assms(2) _ assms(3,4,6,7)]) auto
qed

text \<open>What is done to one user does not show at another.\<close>

lemma other_user:
  assumes "inv w" "user_ok u" "ud_ok u e" "u \<noteq> v"
  shows "create e w = (r, w') \<Longrightarrow> data w' v = data w v"
    "store e w = (r, w') \<Longrightarrow> data w' v = data w v"
    "drop_user u w = (n, w') \<Longrightarrow> data w' v = data w v"
  using create_law [OF assms(1-3)] store_law [OF assms(1-3)] drop_law [OF assms(1,2)] assms(4)
  by (auto split: if_splits)

end

subsection \<open>Pending messages\<close>

locale message_store = user_store +
  fixes msgs :: "'a \<Rightarrow> string \<Rightarrow> u32 \<Rightarrow> mem option"
    and put :: "mem \<Rightarrow> 'a \<Rightarrow> (int \<times> mem) \<times> 'a"
    and take_msg :: "mem \<Rightarrow> 'a \<Rightarrow> (int \<times> mem) \<times> 'a"
    and next_msg :: "mem \<Rightarrow> 'a \<Rightarrow> (int \<times> mem) \<times> 'a"
  assumes create_msgs: "inv w \<Longrightarrow> user_ok u \<Longrightarrow> ud_ok u e \<Longrightarrow> create e w = (r, w') \<Longrightarrow> msgs w' = msgs w"
    and absent_msgs: "inv w \<Longrightarrow> user_ok u \<Longrightarrow> data w u = None \<Longrightarrow> msgs w u = (\<lambda>_. None)"
    and drop_msgs: "inv w \<Longrightarrow> user_ok u \<Longrightarrow> drop_user u w = (n, w') \<Longrightarrow> msgs w' = (msgs w)(u := (\<lambda>_. None))"
    and load_msgs: "inv w \<Longrightarrow> user_ok u \<Longrightarrow> ud_ok u e \<Longrightarrow> load e w = (r, w') \<Longrightarrow> msgs w' = msgs w"
    and store_msgs: "inv w \<Longrightarrow> user_ok u \<Longrightarrow> ud_ok u e \<Longrightarrow> store e w = (r, w') \<Longrightarrow> msgs w' = msgs w"
    and exists_msgs: "inv w \<Longrightarrow> user_ok u \<Longrightarrow> exists u w = (n, w') \<Longrightarrow> msgs w' = msgs w"
    and put_law: "inv w \<Longrightarrow> user_ok u \<Longrightarrow> msg_ok u i e \<Longrightarrow> put e w = (r, w') \<Longrightarrow>
      inv w' \<and> data w' = data w \<and>
      (if data w u = None then r = (DBMS_ERR_NOT_EXISTS, e) \<and> msgs w' = msgs w
       else if msgs w u i = None then r = (DBMS_SUCCESS, e) \<and> msgs w' = (msgs w)(u := (msgs w u)(i \<mapsto> e))
       else r = (DBMS_ERR_ANY, e) \<and> msgs w' = msgs w)"
    and take_law: "inv w \<Longrightarrow> user_ok u \<Longrightarrow> msg_key u i e \<Longrightarrow> take_msg e w = (r, w') \<Longrightarrow>
      inv w' \<and> data w' = data w \<and> msgs w' = (msgs w)(u := (msgs w u)(i := None)) \<and>
      r = (if msgs w u i = None then DBMS_ERR_NOT_EXISTS else DBMS_SUCCESS, e)"
    and next_law: "inv w \<Longrightarrow> user_ok u \<Longrightarrow> pend_query u e \<Longrightarrow> next_msg e w = (r, w') \<Longrightarrow>
      inv w' \<and> data w' = data w \<and> msgs w' = msgs w \<and>
      (if data w u = None then r = (DBMS_ERR_ANY, e)
       else if msgs w u = (\<lambda>_. None) then r = (DBMS_ERR_NOT_EXISTS, e)
       else \<exists>i d. msgs w u i = Some d \<and> r = (DBMS_SUCCESS, d) \<and> msg_ok u i d)"
begin

text \<open>A message that was put is the one found next, if the user had none.\<close>

lemma put_next:
  assumes "inv w" "user_ok u" "data w u \<noteq> None" "msgs w u = (\<lambda>_. None)"
    and "msg_ok u i e" "pend_query u q" "put e w = (r, w')" "next_msg q w' = (r2, w2)"
  shows "r2 = (DBMS_SUCCESS, e)"
proof -
  have p: "inv w'" "data w' u \<noteq> None" "msgs w' u = [i \<mapsto> e]"
    using put_law [OF assms(1,2,5,7)] assms(3,4) by auto
  then have "msgs w' u \<noteq> (\<lambda>_. None)" by simp
  with p next_law [OF p(1) assms(2,6,8)] obtain j d where "msgs w' u j = Some d" "r2 = (DBMS_SUCCESS, d)"
    by auto
  with p(3) show ?thesis by (simp split: if_splits)
qed

text \<open>Taking out the message found leaves exactly the others.\<close>

lemma next_take:
  assumes "inv w" "user_ok u" "data w u \<noteq> None" "msgs w u \<noteq> (\<lambda>_. None)"
    and "pend_query u q" "next_msg q w = ((r, d), w')" "take_msg d w' = (r2, w2)"
  shows "inv w2" "r = DBMS_SUCCESS" "r2 = (DBMS_SUCCESS, d)"
    "\<exists>i. msgs w u i = Some d \<and> msgs w2 u = (msgs w u)(i := None)"
proof -
  from next_law [OF assms(1,2,5,6)] assms(3,4) obtain i where
    n: "inv w'" "data w' = data w" "msgs w' = msgs w" "r = DBMS_SUCCESS" "msgs w u i = Some d" "msg_ok u i d"
    by auto
  note t = take_law [OF n(1) assms(2) msg_ok_key [OF n(6)] assms(7)]
  from n t show "inv w2" "r = DBMS_SUCCESS" "r2 = (DBMS_SUCCESS, d)"
    "\<exists>i. msgs w u i = Some d \<and> msgs w2 u = (msgs w u)(i := None)"
    by auto
qed

text \<open>Giving up a user name takes its pending messages along.\<close>

lemma drop_create_next:
  assumes "inv w" "user_ok u" "ud_ok u e" "pend_query u q"
    and "drop_user u w = (n, w')" "create e w' = (r, w2)" "next_msg q w2 = (r2, w3)"
  shows "r2 = (DBMS_ERR_NOT_EXISTS, q)"
proof -
  have d: "inv w'" "data w' u = None" "msgs w' u = (\<lambda>_. None)"
    using drop_law [OF assms(1,2,5)] drop_msgs [OF assms(1,2,5)] by auto
  have c: "inv w2" "data w2 u = Some e" "msgs w2 u = (\<lambda>_. None)"
    using create_law [OF d(1) assms(2,3,6)] create_msgs [OF d(1) assms(2,3,6)] d by auto
  with next_law [OF c(1) assms(2,4,7)] show ?thesis by simp
qed

end

subsection \<open>The operations of \<^verbatim>\<open>dbms.c\<close> keep the contract\<close>

lemma resolve_msg_absent:
  assumes "db_inv w" "user_ok u" "ud_of w u = None" "msg_key u i e"
  shows "resolve w (entry_path_str e) = Inl ENOENT"
  using assms by (simp add: entry_path_msg resolve_absent db_inv_ready ud_of_table)

lemma run_create_msg_absent:
  assumes "db_inv w" "user_ok u" "ud_of w u = None" "msg_key u i e"
  shows "run_state (db_io_op_usr_ent e CREATE) w = ((DBMS_ERR_NOT_EXISTS, e), w\<lparr>err_no := Some ENOENT\<rparr>)"
  using assms run_open(1) [OF db_inv_quiet [OF assms(1)] resolve_msg_absent [OF assms]]
  by (auto simp: db_io_op_usr_ent_def open_file_def mode_defs msg_key_def)

lemma run_delete_msg_absent:
  assumes "db_inv w" "user_ok u" "pend_of w u i = None" "msg_key u i e"
  shows "run_state (db_io_op_usr_ent e DELETE) w = ((DBMS_ERR_NOT_EXISTS, e), w\<lparr>err_no := Some ENOENT\<rparr>)"
proof -
  have q: "quiet w" by (rule db_inv_quiet [OF assms(1)])
  have "resolve w (entry_path_str e) = Inl ENOENT \<or>
      resolve w (entry_path_str e) = Inr (msg_path w u i) \<and> fs w (msg_path w u i) = None"
  proof (cases "ud_of w u")
    case None
    with assms show ?thesis by (simp add: resolve_msg_absent)
  next
    case (Some m)
    with assms show ?thesis
      using resolve_msg [OF assms(1,2) Some assms(4)] pend_of_fs(1) [OF assms(1,2) Some, of i] by simp
  qed
  then have "remove_recursive (entry_path_str e) w = (DBMS_ERR_NOT_EXISTS, w\<lparr>err_no := Some ENOENT\<rparr>)"
    using q by (auto simp: remove_recursive.simps [of "entry_path_str e"] remove_finish_def quiet_simps)
  with assms(4) show ?thesis
    by (auto simp: db_io_op_usr_ent_def mode_defs msg_key_def err_defs)
qed

lemma run_get_pend_absent:
  assumes "db_inv w" "user_ok u" "ud_of w u = None" "pend_query u e"
  shows "run_state (db_get_pend_msg e) w = ((DBMS_ERR_ANY, e), w\<lparr>err_no := Some ENOENT\<rparr>)"
proof -
  have "resolve w (user_table_str u @ SLASH # PEND_MSGS_TABLE) = Inl ENOENT"
    using assms by (simp add: resolve_absent db_inv_ready ud_of_table)
  then have "run_state (open_directory (user_table_str u @ SLASH # PEND_MSGS_TABLE) READ) w =
      ((DBMS_ERR_NOT_EXISTS, None), w\<lparr>err_no := Some ENOENT\<rparr>)"
    using db_inv_quiet [OF assms(1)]
    by (simp add: open_directory_def quiet_simps mode_defs)
  with assms(4) show ?thesis
    by (simp add: db_get_pend_msg_def pend_query_def pend_query_sprintf Let_def err_defs)
qed

interpretation db: message_store db_inv ud_of "\<lambda>e. run_state (db_creat_usr_tbl e)"
  "\<lambda>u. run_state (db_del_usr_tbl u)" "\<lambda>u. run_state (db_user_exists u)"
  "\<lambda>e. run_state (db_io_op_usr_ent e READ)" "\<lambda>e. run_state (db_io_op_usr_ent e MODIFY)"
  pend_of "\<lambda>e. run_state (db_io_op_usr_ent e CREATE)" "\<lambda>e. run_state (db_io_op_usr_ent e DELETE)"
  "\<lambda>e. run_state (db_get_pend_msg e)"
proof (unfold_locales, goal_cases)
  case (1 w u e r w')
  then show ?case
    by (cases "ud_of w u") (auto simp: run_create_new run_create_exists created_inv)
next
  case (2 w u n w')
  then show ?case
    by (cases "ud_of w u")
      (use run_delete_user [OF 2(1,2)] in \<open>force simp: run_delete_absent deleted_inv fun_upd_idem\<close>)+
next
  case (3 w u n w')
  then show ?case by (auto simp: run_db_user_exists split: if_splits)
next
  case (4 w u e r w')
  then show ?case
    by (cases "ud_of w u") (auto simp: run_read_ud run_ud_absent)
next
  case (5 w u e r w')
  then show ?case
    by (cases "ud_of w u") (auto simp: run_modify_ud run_ud_absent put_ud_inv)
next
  case (6 w u e r w')
  then show ?case
    by (cases "ud_of w u") (auto simp: run_create_new run_create_exists)
next
  case (7 w u)
  then show ?case by (rule created_of(3))
next
  case (8 w u n w')
  then show ?case
    by (cases "ud_of w u")
      (use run_delete_user [OF 8(1,2)] in \<open>force simp: run_delete_absent fun_upd_idem created_of(3)\<close>)+
next
  case (9 w u e r w')
  then show ?case by (cases "ud_of w u") (auto simp: run_read_ud run_ud_absent)
next
  case (10 w u e r w')
  then show ?case by (cases "ud_of w u") (auto simp: run_modify_ud run_ud_absent)
next
  case (11 w u n w')
  then show ?case by (auto simp: run_db_user_exists split: if_splits)
next
  case (12 w u i e r w')
  then show ?case
    using msg_ok_key [OF 12(3)]
    by (cases "ud_of w u") (auto simp: run_create_msg_absent run_create_msg add_msg_inv split: if_splits)
next
  case (13 w u i e r w')
  show ?case
  proof (cases "pend_of w u i")
    case None
    with 13 show ?thesis by (auto simp: run_delete_msg_absent fun_upd_idem)
  next
    case (Some d)
    then obtain m where "ud_of w u = Some m"
      using created_of(3) [OF 13(1,2)] by (cases "ud_of w u") auto
    with Some 13 show ?thesis by (auto simp: run_delete_msg del_msg_inv)
  qed
next
  case (14 w u e r w')
  show ?case
  proof (cases "ud_of w u")
    case None
    with 14 show ?thesis by (auto simp: run_get_pend_absent)
  next
    case (Some m)
    show ?thesis
    proof (cases "pend_of w u = (\<lambda>_. None)")
      case True
      with 14 Some show ?thesis by (auto simp: run_get_pend_msg(1))
    next
      case False
      then obtain j where "pend_of w u j \<noteq> None" unfolding fun_eq_iff by blast
      from run_get_pend_msg(2) [OF 14(1,2) Some 14(3) this] 14 Some False show ?thesis
        by (auto simp: pend_of_fs(2))
    qed
  qed
qed

subsection \<open>Refinement of sequences of operations\<close>

text \<open>The calls the services make, with the entry they pass.\<close>

datatype db_op = Create mem | Drop string | Exists string | Load mem | Store mem
  | Put mem | Take mem | Next mem

definition db_step :: "db_op \<Rightarrow> (int \<times> mem) prog" where
  "db_step op = (case op of
     Create e \<Rightarrow> db_creat_usr_tbl e
   | Drop u \<Rightarrow> do { r \<leftarrow> db_del_usr_tbl u; return (r, []) }
   | Exists u \<Rightarrow> do { r \<leftarrow> db_user_exists u; return (r, []) }
   | Load e \<Rightarrow> db_io_op_usr_ent e READ
   | Store e \<Rightarrow> db_io_op_usr_ent e MODIFY
   | Put e \<Rightarrow> db_io_op_usr_ent e CREATE
   | Take e \<Rightarrow> db_io_op_usr_ent e DELETE
   | Next e \<Rightarrow> db_get_pend_msg e)"

text \<open>A call is in order if the user name and the entry are of the kind the services build.\<close>

definition op_ok :: "db_op \<Rightarrow> bool" where
  "op_ok op = (case op of
     Create e \<Rightarrow> user_ok (cstr en_username e) \<and> ud_ok (cstr en_username e) e
   | Drop u \<Rightarrow> user_ok u
   | Exists u \<Rightarrow> user_ok u
   | Load e \<Rightarrow> user_ok (cstr en_username e) \<and> ud_ok (cstr en_username e) e
   | Store e \<Rightarrow> user_ok (cstr en_username e) \<and> ud_ok (cstr en_username e) e
   | Put e \<Rightarrow> user_ok (cstr en_username e) \<and> msg_ok (cstr en_username e) (get_u32 ms_id e) e
   | Take e \<Rightarrow> user_ok (cstr en_username e) \<and> msg_key (cstr en_username e) (get_u32 ms_id e) e
   | Next e \<Rightarrow> user_ok (cstr en_username e) \<and> pend_query (cstr en_username e) e)"

text \<open>The abstract database: user data by name, messages by name and number.\<close>

type_synonym db_view = "(string \<Rightarrow> mem option) \<times> (string \<Rightarrow> u32 \<Rightarrow> mem option)"

definition view :: "world \<Rightarrow> db_view" where
  "view w = (ud_of w, pend_of w)"

fun spec_step :: "db_op \<Rightarrow> db_view \<Rightarrow> int \<times> mem \<Rightarrow> db_view \<Rightarrow> bool" where
  "spec_step (Create e) (d, p) r s' \<longleftrightarrow> (let u = cstr en_username e in
     if d u = None then r = (DBMS_SUCCESS, e) \<and> s' = (d(u \<mapsto> e), p)
     else r = (DBMS_ERR_EXISTS, e) \<and> s' = (d, p))"
| "spec_step (Drop u) (d, p) r s' \<longleftrightarrow>
     r = (if d u = None then DBMS_ERR_NOT_EXISTS else 0, []) \<and> s' = (d(u := None), p(u := (\<lambda>_. None)))"
| "spec_step (Exists u) (d, p) r s' \<longleftrightarrow> r = (if d u = None then FALSE else TRUE, []) \<and> s' = (d, p)"
| "spec_step (Load e) (d, p) r s' \<longleftrightarrow> s' = (d, p) \<and>
     r = (case d (cstr en_username e) of None \<Rightarrow> (DBMS_ERR_NOT_EXISTS, e) | Some m \<Rightarrow> (DBMS_SUCCESS, m))"
| "spec_step (Store e) (d, p) r s' \<longleftrightarrow> (let u = cstr en_username e in
     if d u = None then r = (DBMS_ERR_NOT_EXISTS, e) \<and> s' = (d, p)
     else r = (DBMS_SUCCESS, e) \<and> s' = (d(u \<mapsto> e), p))"
| "spec_step (Put e) (d, p) r s' \<longleftrightarrow> (let u = cstr en_username e; i = get_u32 ms_id e in
     if d u = None then r = (DBMS_ERR_NOT_EXISTS, e) \<and> s' = (d, p)
     else if p u i = None then r = (DBMS_SUCCESS, e) \<and> s' = (d, p(u := (p u)(i \<mapsto> e)))
     else r = (DBMS_ERR_ANY, e) \<and> s' = (d, p))"
| "spec_step (Take e) (d, p) r s' \<longleftrightarrow> (let u = cstr en_username e; i = get_u32 ms_id e in
     r = (if p u i = None then DBMS_ERR_NOT_EXISTS else DBMS_SUCCESS, e) \<and>
     s' = (d, p(u := (p u)(i := None))))"
| "spec_step (Next e) (d, p) r s' \<longleftrightarrow> (let u = cstr en_username e in
     s' = (d, p) \<and>
     (if d u = None then r = (DBMS_ERR_ANY, e)
      else if p u = (\<lambda>_. None) then r = (DBMS_ERR_NOT_EXISTS, e)
      else fst r = DBMS_SUCCESS \<and> p u (get_u32 ms_id (snd r)) = Some (snd r)))"

fun db_run :: "db_op list \<Rightarrow> (int \<times> mem) list prog" where
  "db_run [] = return []"
| "db_run (op # ops) = do { r \<leftarrow> db_step op; rs \<leftarrow> db_run ops; return (r # rs) }"

fun spec_run :: "db_op list \<Rightarrow> db_view \<Rightarrow> (int \<times> mem) list \<Rightarrow> db_view \<Rightarrow> bool" where
  "spec_run [] s rs s' \<longleftrightarrow> rs = [] \<and> s' = s"
| "spec_run (op # ops) s rs s' \<longleftrightarrow>
     (case rs of [] \<Rightarrow> False | r # rs' \<Rightarrow> \<exists>t. spec_step op s r t \<and> spec_run ops t rs' s')"

lemma msg_okD: "msg_ok u i e \<Longrightarrow> get_u32 ms_id e = i"
  by (simp add: msg_ok_def msg_key_def)

lemma db_step_refines:
  assumes "db_inv w" "op_ok op" "run_state (db_step op) w = (r, w')"
  shows "db_inv w' \<and> spec_step op (view w) r (view w')"
proof (cases op)
  case (Create e)
  with assms db.create_law [OF assms(1), of "cstr en_username e" e r w']
    db.create_msgs [OF assms(1), of "cstr en_username e" e r w'] show ?thesis
    by (auto simp: op_ok_def db_step_def view_def Let_def)
next
  case (Drop u)
  with assms db.drop_law [OF assms(1), of u "fst r" w'] db.drop_msgs [OF assms(1), of u "fst r" w'] show ?thesis
    by (auto simp: op_ok_def db_step_def view_def split: prod.splits)
next
  case (Exists u)
  with assms db.exists_law [OF assms(1), of u "fst r" w'] db.exists_msgs [OF assms(1), of u "fst r" w'] show ?thesis
    by (auto simp: op_ok_def db_step_def view_def split: prod.splits)
next
  case (Load e)
  with assms db.load_law [OF assms(1), of "cstr en_username e" e r w']
    db.load_msgs [OF assms(1), of "cstr en_username e" e r w'] show ?thesis
    by (auto simp: op_ok_def db_step_def view_def)
next
  case (Store e)
  with assms db.store_law [OF assms(1), of "cstr en_username e" e r w']
    db.store_msgs [OF assms(1), of "cstr en_username e" e r w'] show ?thesis
    by (auto simp: op_ok_def db_step_def view_def Let_def)
next
  case (Put e)
  with assms db.put_law [OF assms(1), of "cstr en_username e" "get_u32 ms_id e" e r w'] show ?thesis
    by (auto simp: op_ok_def db_step_def view_def Let_def split: if_splits)
next
  case (Take e)
  with assms db.take_law [OF assms(1), of "cstr en_username e" "get_u32 ms_id e" e r w'] show ?thesis
    by (auto simp: op_ok_def db_step_def view_def Let_def)
next
  case (Next e)
  with assms db.next_law [OF assms(1), of "cstr en_username e" e r w'] show ?thesis
    by (auto simp: op_ok_def db_step_def view_def Let_def dest: msg_okD split: if_splits)
qed

lemma db_run_refines:
  assumes "db_inv w" "list_all op_ok ops" "run_state (db_run ops) w = (rs, w')"
  shows "db_inv w' \<and> spec_run ops (view w) rs (view w')"
  using assms
proof (induction ops arbitrary: w rs)
  case Nil
  then show ?case by simp
next
  case (Cons op ops)
  obtain r w1 where s: "run_state (db_step op) w = (r, w1)" by fastforce
  obtain rs1 w2 where t: "run_state (db_run ops) w1 = (rs1, w2)" by fastforce
  have ok: "op_ok op" "list_all op_ok ops" using Cons.prems(2) by simp_all
  from Cons.prems(3) s t have e: "rs = r # rs1" "w' = w2" by simp_all
  from db_step_refines [OF Cons.prems(1) ok(1) s]
  have i: "db_inv w1" "spec_step op (view w) r (view w1)" by simp_all
  from Cons.IH [OF i(1) ok(2)] t e(2) have "db_inv w' \<and> spec_run ops (view w1) rs1 (view w')"
    by simp
  with e i(2) show ?case by (simp only: spec_run.simps list.case) blast
qed

end
