(* ===== verification/ServiceLaws.thy ===== *)
theory ServiceLaws
  imports ServicesSafe StoreSpec
begin

text \<open>
  The services in a quiet world that satisfies \<open>db_inv\<close>: the reply, the log, what happens to
  the database and what is sent to the listening threads of clients.
\<close>

definition junk_ok :: "junk \<Rightarrow> bool" where
  "junk_ok jk \<longleftrightarrow> length (jk_entry jk) = sizeof_entry \<and> length (jk_msg_entry jk) = sizeof_entry \<and>
     length (jk_recipient_entry jk) = sizeof_entry \<and> length (jk_sender_entry jk) = sizeof_entry \<and>
     length (jk_pend_msg_entry jk) = sizeof_entry \<and>
     length (jk_send_msg_request jk) = sizeof_request \<and>
     length (jk_send_msg_ack_request jk) = sizeof_request"

text \<open>A client is at the socket \<open>n\<close> and has sent the lines \<open>ls\<close>.\<close>

definition client_at :: "world \<Rightarrow> nat \<Rightarrow> string list \<Rightarrow> char list \<Rightarrow> u32 \<Rightarrow> u16 \<Rightarrow> bool" where
  "client_at w n ls rest ip pt \<longleftrightarrow>
     map_of (fds w) n = Some (DSock (concat (map (\<lambda>l. l @ [NUL]) ls) @ rest) ip pt) \<and>
     (\<forall>l\<in>set ls. wire_string l)"

lemma user_okD: "user_ok u \<Longrightarrow> wire_string u" "user_ok u \<Longrightarrow> c_string u" "user_ok u \<Longrightarrow> length u \<le> 249"
  "user_ok u \<Longrightarrow> take 255 u = u"
  by (auto simp: user_ok_def)

text \<open>Receiving one line of the client's.\<close>

definition received :: "nat \<Rightarrow> char list \<Rightarrow> u32 \<Rightarrow> u16 \<Rightarrow> world \<Rightarrow> world" where
  "received n inp ip pt w = w\<lparr>err_no := None, fds := fd_set n (DSock inp ip pt) (fds w)\<rparr>"

lemma run_recv_line:
  assumes "db_inv w" "client_at w n (l # ls) rest ip pt" "off + MAX_MSG_SIZE \<le> length q"
  shows "run_state (recv_string (int n) off q) w =
    ((0, strcpy off (take 255 l) q), received n (concat (map (\<lambda>l. l @ [NUL]) ls) @ rest) ip pt w)"
  using assms run_recv_string [OF db_inv_quiet [OF assms(1)], of n l]
  by (simp add: client_at_def received_def)

lemma received_simps [simp]:
  "db_inv (received n inp ip pt w) = db_inv w" "ud_of (received n inp ip pt w) = ud_of w"
  "pend_of (received n inp ip pt w) = pend_of w" "trace (received n inp ip pt w) = trace w"
  "reach (received n inp ip pt w) = reach w"
  by (simp_all add: received_def)

lemma client_received:
  "client_at w n (l # ls) rest ip pt \<Longrightarrow>
   client_at (received n (concat (map (\<lambda>l. l @ [NUL]) ls) @ rest) ip pt w) n ls rest ip pt"
  by (simp add: client_at_def received_def map_of_fd_set)

text \<open>There is a client at the socket.\<close>

definition sock_at :: "world \<Rightarrow> nat \<Rightarrow> bool" where
  "sock_at w n \<longleftrightarrow> (\<exists>inp ip pt. map_of (fds w) n = Some (DSock inp ip pt))"

lemma client_sock: "client_at w n ls rest ip pt \<Longrightarrow> sock_at w n"
  by (auto simp: client_at_def sock_at_def)

lemma sock_update [simp]:
  "sock_at (w\<lparr>trace := t\<rparr>) n = sock_at w n" "sock_at (w\<lparr>err_no := e\<rparr>) n = sock_at w n"
  "sock_at (w\<lparr>fs := f\<rparr>) n = sock_at w n" "sock_at (put_ud u m w) n = sock_at w n"
  "sock_at (add_msg u i m w) n = sock_at w n" "sock_at (del_msg u i w) n = sock_at w n"
  "sock_at (deleted u w) n = sock_at w n"
  "sock_at w n \<Longrightarrow> sock_at (received k inp ip pt w) n"
  by (auto simp: sock_at_def put_ud_def add_msg_def del_msg_def deleted_def received_def map_of_fd_set)

lemma sock_fd_add [simp]: "sock_at w n \<Longrightarrow> sock_at (w\<lparr>fds := fd_add d (fds w)\<rparr>) n"
  "sock_at w n \<Longrightarrow> sock_at (created u m w) n"
  by (auto simp: sock_at_def map_of_fd_add_old created_def new_user_def)

lemma trace_update [simp]:
  "trace (put_ud u m w) = trace w" "trace (add_msg u i m w) = trace w" "trace (del_msg u i w) = trace w"
  "trace (deleted u w) = trace w" "trace (created u m w) = trace w"
  by (simp_all add: put_ud_def add_msg_def del_msg_def deleted_def created_def new_user_def)

text \<open>The reply a client sees: one byte.\<close>

definition reply_ev :: "nat \<Rightarrow> u8 \<Rightarrow> event" where
  "reply_ev n r = EvSend n [char_of (unat r)]"

lemma run_reply:
  assumes "db_inv w" "sock_at w n"
  shows "run_state (send_server_reply (int n) r) w = (0, w\<lparr>trace := trace w @ [reply_ev n r]\<rparr>)"
  using assms run_send_server_reply [OF db_inv_quiet [OF assms(1)]]
  by (auto simp: sock_at_def reply_ev_def)

lemma run_answer:
  assumes "db_inv w" "sock_at w n"
  shows "run_state (send_string (int n) s) w = (0, w\<lparr>trace := trace w @ [EvSend n (s @ [NUL])]\<rparr>)"
  using assms run_send_string [OF db_inv_quiet [OF assms(1)]] by (auto simp: sock_at_def)

text \<open>Receiving the user name, the first line of four services.\<close>

lemma rq_fits [simp]: "rq_username + MAX_MSG_SIZE \<le> sizeof_request" "rq_client_port + MAX_MSG_SIZE \<le> sizeof_request"
  "rq_sender + MAX_MSG_SIZE \<le> sizeof_request" "rq_recipient + MAX_MSG_SIZE \<le> sizeof_request"
  "rq_content + MAX_MSG_SIZE \<le> sizeof_request" "rq_op_code + MAX_MSG_SIZE \<le> sizeof_request"
  by (simp_all add: rq_defs MAX_MSG_SIZE_def)

lemma length_request: "off + MAX_MSG_SIZE \<le> sizeof_request \<Longrightarrow> length s \<le> 255 \<Longrightarrow> length q = sizeof_request \<Longrightarrow>
   length (strcpy off s q) = sizeof_request"
  by (simp add: MAX_MSG_SIZE_def)

lemma recv_username:
  assumes "db_inv w" "user_ok u" "client_at w n (u # ls) rest ip pt" "length q = sizeof_request"
  shows "run_state (recv_string (int n) rq_username q) w =
      ((0, strcpy rq_username u q), received n (concat (map (\<lambda>l. l @ [NUL]) ls) @ rest) ip pt w)"
    "cstr rq_username (strcpy rq_username u q) = u" "length (strcpy rq_username u q) = sizeof_request"
proof -
  show "run_state (recv_string (int n) rq_username q) w =
      ((0, strcpy rq_username u q), received n (concat (map (\<lambda>l. l @ [NUL]) ls) @ rest) ip pt w)"
    using run_recv_line [OF assms(1,3), of rq_username q] assms(4) user_okD(4) [OF assms(2)] by simp
  show "cstr rq_username (strcpy rq_username u q) = u" "length (strcpy rq_username u q) = sizeof_request"
    using assms(4) user_okD [OF assms(2)] by (simp_all add: rq_defs mem_simps)
qed

text \<open>The entry a service asks the database with.\<close>

definition ud_query :: "mem \<Rightarrow> string \<Rightarrow> mem" where
  "ud_query e u = set_type ENT_TYPE_UD (strcpy en_username u e)"

lemma ud_query_ok:
  "length e = sizeof_entry \<Longrightarrow> user_ok u \<Longrightarrow> ud_ok u (ud_query e u)"
  "length e = sizeof_entry \<Longrightarrow> user_ok u \<Longrightarrow> 513 \<le> off \<Longrightarrow> get_u8 off (ud_query e u) = get_u8 off e"
  using user_okD [of u] by (simp_all add: ud_ok_def ud_query_def en_defs mem_simps)

lemma ud_ok_set:
  "ud_ok u m \<Longrightarrow> user_ok u \<Longrightarrow> 513 \<le> off \<Longrightarrow> off < 1284 \<Longrightarrow> ud_ok u (set_u8 off a m)"
  "ud_ok u m \<Longrightarrow> user_ok u \<Longrightarrow> 513 \<le> off \<Longrightarrow> off < 1284 \<Longrightarrow> ud_ok u (set_u16 off b m)"
  "ud_ok u m \<Longrightarrow> user_ok u \<Longrightarrow> 513 \<le> off \<Longrightarrow> off < 1284 \<Longrightarrow> ud_ok u (set_u32 off c m)"
  using user_okD(3) [of u] by (simp_all add: ud_ok_def en_defs mem_simps)

subsection \<open>REGISTER\<close>

text \<open>The user data of a new user: name, type and message number are set, the rest is what
  was in memory.\<close>

definition fresh_ud :: "junk \<Rightarrow> string \<Rightarrow> mem" where
  "fresh_ud jk u = set_u32 ud_last_msg_id 0 (ud_query (jk_entry jk) u)"

lemma fresh_ud_ok:
  assumes "junk_ok jk" "user_ok u"
  shows "ud_ok u (fresh_ud jk u)" "get_u32 ud_last_msg_id (fresh_ud jk u) = 0"
    "get_u8 ud_status (fresh_ud jk u) = get_u8 ud_status (jk_entry jk)"
  using assms user_okD [OF assms(2)]
  by (simp_all add: ud_ok_def ud_query_def fresh_ud_def junk_ok_def en_defs mem_simps)

lemma reg_codes [simp]: "DBMS_SUCCESS \<noteq> DBMS_ERR_EXISTS" "DBMS_SUCCESS \<noteq> DBMS_ERR_NOT_EXISTS"
  "\<not> DBMS_SUCCESS < 0" "TRUE \<noteq> FALSE" "FALSE \<noteq> TRUE"
  by (simp_all add: err_defs TRUE_def FALSE_def)

lemma created_new:
  assumes "db_inv w" "user_ok u" "ud_of w u = None" "junk_ok jk"
  shows "run_state (db_creat_usr_tbl (fresh_ud jk u)) w = ((DBMS_SUCCESS, fresh_ud jk u), created u (fresh_ud jk u) w)"
    "db_inv (created u (fresh_ud jk u) w)"
  using run_create_new [OF assms(1-3) fresh_ud_ok(1) [OF assms(4,2)]]
    created_inv [OF assms(1-3) fresh_ud_ok(1) [OF assms(4,2)]] .

lemma run_register:
  assumes "db_inv w" "user_ok u" "client_at w n [u] rest ip pt"
    and "length q = sizeof_request" "junk_ok jk"
  defines "w1 \<equiv> received n rest ip pt w"
  shows "ud_of w u = None \<Longrightarrow> run_state (srv_register jk (int n) q) w =
      (strcpy rq_username u q, (created u (fresh_ud jk u) w1)\<lparr>trace := trace w @
         [EvPrint (result_line REGISTER u SRV_SUCCESS), reply_ev n SRV_SUCCESS]\<rparr>)"
    and "ud_of w u = Some m \<Longrightarrow> run_state (srv_register jk (int n) q) w =
      (strcpy rq_username u q, w1\<lparr>trace := trace w @
         [EvPrint (result_line REGISTER u SRV_ERR_REG_USR_ALREADY_REG),
          reply_ev n SRV_ERR_REG_USR_ALREADY_REG]\<rparr>)"
proof -
  note recv = recv_username [OF assms(1-4)]
  have w1: "db_inv w1" "ud_of w1 = ud_of w" "sock_at w1 n" "trace w1 = trace w"
    using assms(1) client_sock [OF assms(3)] by (simp_all add: w1_def)
  note run = srv_register_def recv Let_def ud_query_def [symmetric] fresh_ud_def [symmetric] run_printf
    w1_def [symmetric] run_reply
  show "run_state (srv_register jk (int n) q) w =
      (strcpy rq_username u q, (created u (fresh_ud jk u) w1)\<lparr>trace := trace w @
         [EvPrint (result_line REGISTER u SRV_SUCCESS), reply_ev n SRV_SUCCESS]\<rparr>)"
    if "ud_of w u = None"
    using created_new [OF w1(1) assms(2) _ assms(5)] w1 that by (simp add: run)
  show "run_state (srv_register jk (int n) q) w =
      (strcpy rq_username u q, w1\<lparr>trace := trace w @
         [EvPrint (result_line REGISTER u SRV_ERR_REG_USR_ALREADY_REG),
          reply_ev n SRV_ERR_REG_USR_ALREADY_REG]\<rparr>)"
    if "ud_of w u = Some m"
    using run_create_exists [OF w1(1) assms(2) _ fresh_ud_ok(1) [OF assms(5,2)]] w1 that
    by (simp add: run) (simp add: w1_def received_def)
qed

subsection \<open>UNREGISTER\<close>

lemma run_exists:
  assumes "db_inv w" "user_ok u"
  shows "ud_of w u = None \<Longrightarrow> run_state (db_user_exists u) w =
      (FALSE, w\<lparr>trace := trace w @ [EvOverflow], err_no := Some ENOENT\<rparr>)"
    "ud_of w u = Some m \<Longrightarrow> run_state (db_user_exists u) w =
      (TRUE, w\<lparr>trace := trace w @ [EvOverflow], err_no := None\<rparr>)"
  using run_db_user_exists [OF assms] by simp_all

lemma run_unregister:
  assumes "db_inv w" "user_ok u" "client_at w n [u] rest ip pt" "length q = sizeof_request"
  defines "w1 \<equiv> received n rest ip pt w"
  shows "ud_of w u = None \<Longrightarrow> run_state (srv_unregister (int n) q) w =
      (strcpy rq_username u q, w1\<lparr>err_no := Some ENOENT, trace := trace w @ [EvOverflow,
         EvPrint (result_line UNREGISTER u SRV_ERR_UNREG_USR_NOT_EXISTS),
         reply_ev n SRV_ERR_UNREG_USR_NOT_EXISTS]\<rparr>)"
    and "ud_of w u = Some m \<Longrightarrow> \<exists>e. run_state (srv_unregister (int n) q) w =
      (strcpy rq_username u q, (deleted u w1)\<lparr>err_no := e, trace := trace w @ [EvOverflow,
         EvPrint (result_line UNREGISTER u SRV_SUCCESS), reply_ev n SRV_SUCCESS]\<rparr>)"
proof -
  note recv = recv_username [OF assms(1-4)]
  have w1: "db_inv w1" "ud_of w1 = ud_of w" "sock_at w1 n" "trace w1 = trace w"
    using assms(1) client_sock [OF assms(3)] by (simp_all add: w1_def)
  note run = srv_unregister_def recv run_printf w1_def [symmetric] run_reply run_exists [OF w1(1) assms(2)]
  show "run_state (srv_unregister (int n) q) w =
      (strcpy rq_username u q, w1\<lparr>err_no := Some ENOENT, trace := trace w @ [EvOverflow,
         EvPrint (result_line UNREGISTER u SRV_ERR_UNREG_USR_NOT_EXISTS),
         reply_ev n SRV_ERR_UNREG_USR_NOT_EXISTS]\<rparr>)" if "ud_of w u = None"
    using w1 that by (simp add: run)
  show "\<exists>e. run_state (srv_unregister (int n) q) w =
      (strcpy rq_username u q, (deleted u w1)\<lparr>err_no := e, trace := trace w @ [EvOverflow,
         EvPrint (result_line UNREGISTER u SRV_SUCCESS), reply_ev n SRV_SUCCESS]\<rparr>)"
    if some: "ud_of w u = Some m"
  proof -
    let ?v = "w1\<lparr>trace := trace w @ [EvOverflow], err_no := None\<rparr>"
    have v: "db_inv ?v" "ud_of ?v u = Some m" using w1 some by simp_all
    obtain e where del: "run_state (db_del_usr_tbl u) ?v = (0, (deleted u ?v)\<lparr>err_no := e\<rparr>)"
      using run_delete_user [OF v(1) assms(2) v(2)] by blast
    have d: "(deleted u ?v)\<lparr>err_no := e\<rparr> = (deleted u w1)\<lparr>err_no := e, trace := trace w @ [EvOverflow]\<rparr>"
      by (simp add: deleted_def tbl_path_def)
    have inv: "db_inv (deleted u w1)" using deleted_inv [OF w1(1) assms(2), of m] w1(2) some by simp
    show ?thesis
      using w1 some inv del by (intro exI [of _ e]) (simp add: run d)
  qed
qed

subsection \<open>DISCONNECT\<close>

definition disconnected :: "mem \<Rightarrow> mem" where
  "disconnected m = set_u16 ud_port 0 (set_u32 ud_ip 0 (set_u8 ud_status STATUS_DCN m))"

lemma disconnected_ok:
  assumes "ud_ok u m" "user_ok u"
  shows "ud_ok u (disconnected m)" "get_u8 ud_status (disconnected m) = STATUS_DCN"
    "get_u32 ud_last_msg_id (disconnected m) = get_u32 ud_last_msg_id m"
proof -
  show "ud_ok u (disconnected m)"
    using assms by (simp add: disconnected_def ud_ok_set en_defs)
  have "length m = sizeof_entry" using assms by (simp add: ud_ok_def)
  then show "get_u8 ud_status (disconnected m) = STATUS_DCN"
    "get_u32 ud_last_msg_id (disconnected m) = get_u32 ud_last_msg_id m"
    by (simp_all add: disconnected_def en_defs mem_simps)
qed

lemma run_disconnect:
  assumes "db_inv w" "user_ok u" "client_at w n [u] rest ip pt"
    and "length q = sizeof_request" "junk_ok jk"
  defines "w1 \<equiv> received n rest ip pt w"
  shows "ud_of w u = None \<Longrightarrow> run_state (srv_disconnect jk (int n) q) w =
      (strcpy rq_username u q, w1\<lparr>err_no := Some ENOENT, trace := trace w @ [
         EvPrint (result_line DISCONNECT u SRV_ERR_DCN_USR_NOT_EXISTS),
         reply_ev n SRV_ERR_DCN_USR_NOT_EXISTS]\<rparr>)"
    and "ud_of w u = Some m \<Longrightarrow> get_u8 ud_status m = STATUS_DCN \<Longrightarrow>
      run_state (srv_disconnect jk (int n) q) w =
      (strcpy rq_username u q, w1\<lparr>trace := trace w @ [
         EvPrint (result_line DISCONNECT u SRV_ERR_DCN_USR_NOT_CN), reply_ev n SRV_ERR_DCN_USR_NOT_CN]\<rparr>)"
    and "ud_of w u = Some m \<Longrightarrow> get_u8 ud_status m \<noteq> STATUS_DCN \<Longrightarrow>
      run_state (srv_disconnect jk (int n) q) w =
      (strcpy rq_username u q, (put_ud u (disconnected m) w1)\<lparr>trace := trace w @ [
         EvPrint (result_line DISCONNECT u SRV_SUCCESS), reply_ev n SRV_SUCCESS]\<rparr>)"
proof -
  note recv = recv_username [OF assms(1-4)]
  have w1: "db_inv w1" "ud_of w1 = ud_of w" "sock_at w1 n" "trace w1 = trace w"
    using assms(1) client_sock [OF assms(3)] by (simp_all add: w1_def)
  have jk: "ud_ok u (ud_query (jk_entry jk) u)"
    using assms(2,5) by (simp add: ud_query_ok junk_ok_def)
  note run = srv_disconnect_def recv Let_def ud_query_def [symmetric] disconnected_def [symmetric]
    run_printf w1_def [symmetric] run_reply
  show "run_state (srv_disconnect jk (int n) q) w =
      (strcpy rq_username u q, w1\<lparr>err_no := Some ENOENT, trace := trace w @ [
         EvPrint (result_line DISCONNECT u SRV_ERR_DCN_USR_NOT_EXISTS),
         reply_ev n SRV_ERR_DCN_USR_NOT_EXISTS]\<rparr>)" if "ud_of w u = None"
    using run_ud_absent [OF w1(1) assms(2) _ jk, of READ] w1 that by (simp add: run)
  show "run_state (srv_disconnect jk (int n) q) w =
      (strcpy rq_username u q, w1\<lparr>trace := trace w @ [
         EvPrint (result_line DISCONNECT u SRV_ERR_DCN_USR_NOT_CN), reply_ev n SRV_ERR_DCN_USR_NOT_CN]\<rparr>)"
    if "ud_of w u = Some m" "get_u8 ud_status m = STATUS_DCN"
    using run_read_ud [OF w1(1) assms(2) _ jk] w1 that by (simp add: run)
  show "run_state (srv_disconnect jk (int n) q) w =
      (strcpy rq_username u q, (put_ud u (disconnected m) w1)\<lparr>trace := trace w @ [
         EvPrint (result_line DISCONNECT u SRV_SUCCESS), reply_ev n SRV_SUCCESS]\<rparr>)"
    if some: "ud_of w u = Some m" "get_u8 ud_status m \<noteq> STATUS_DCN"
  proof -
    have m: "ud_of w1 u = Some m" using w1 some by simp
    have ok: "ud_ok u (disconnected m)"
      using disconnected_ok(1) ud_ofD(2) [OF w1(1) assms(2) m] assms(2) by blast
    from run_read_ud [OF w1(1) assms(2) m jk] run_modify_ud [OF w1(1) assms(2) m ok]
      put_ud_inv [OF w1(1) assms(2) m ok] w1 some show ?thesis
      by (simp add: run)
  qed
qed

end
