(* ===== verification/DeliveryLaws.thy ===== *)
theory DeliveryLaws
  imports ServiceLaws
begin

text \<open>
  Calls to a client's listening thread and the service SEND, in a quiet world that satisfies
  \<open>db_inv\<close>: what goes out over the connection to the address in the user's data, and what a
  user that cannot be reached leaves behind.
\<close>

subsection \<open>A connection to a listening thread\<close>

definition reachable :: "world \<Rightarrow> mem \<Rightarrow> bool" where
  "reachable w m \<longleftrightarrow> reach w (get_u32 ud_ip m) (get_u16 ud_port m)"

lemma reachable_update [simp]:
  "reachable (w\<lparr>trace := t\<rparr>) = reachable w" "reachable (w\<lparr>err_no := e\<rparr>) = reachable w"
  "reachable (w\<lparr>fs := f\<rparr>) = reachable w" "reachable (w\<lparr>fds := d\<rparr>) = reachable w"
  "reachable (put_ud u m w) = reachable w" "reachable (add_msg u i m w) = reachable w"
  "reachable (del_msg u i w) = reachable w" "reachable (received n inp ip pt w) = reachable w"
  by (simp_all add: reachable_def fun_eq_iff put_ud_def add_msg_def del_msg_def)

lemma run_aux_connect:
  assumes "db_inv w" "user_ok u" "ud_of w u = Some m" "ud_ok u e"
  defines "fd \<equiv> fresh_fd (fds w)"
  shows "reachable w m \<Longrightarrow> run_state (aux_connect_clt_listen_thread e) w =
      ((int fd, m), w\<lparr>fds := fd_add (DSock [] (get_u32 ud_ip m) (get_u16 ud_port m)) (fds w),
         trace := trace w @ [EvConnect fd (get_u32 ud_ip m) (get_u16 ud_port m)]\<rparr>)"
    and "\<not> reachable w m \<Longrightarrow> run_state (aux_connect_clt_listen_thread e) w =
      ((GEN_ERR_ANY, m), w\<lparr>fds := fd_add DNew (fds w), err_no := Some ECONNREFUSED\<rparr>)"
  using run_read_ud [OF assms(1-4)] db_inv_quiet [OF assms(1)]
  by (simp_all add: aux_connect_clt_listen_thread_def quiet_simps fd_def reachable_def)

lemma run_aux_connect_absent:
  assumes "db_inv w" "user_ok u" "ud_of w u = None" "ud_ok u e"
  shows "run_state (aux_connect_clt_listen_thread e) w = ((DBMS_ERR_ANY, e), w\<lparr>err_no := Some ENOENT\<rparr>)"
  using run_ud_absent [OF assms, of READ]
  by (simp add: aux_connect_clt_listen_thread_def err_defs)

text \<open>What a delivery and an acknowledgement put on the wire.\<close>

definition message_events :: "nat \<Rightarrow> mem \<Rightarrow> string \<Rightarrow> u32 \<Rightarrow> string \<Rightarrow> event list" where
  "message_events fd m sender i content =
     [EvConnect fd (get_u32 ud_ip m) (get_u16 ud_port m), EvSend fd (SEND_MESSAGE @ [NUL]),
      EvSend fd (sender @ [NUL]), EvSend fd (show_nat (unat i) @ [NUL]),
      EvSend fd (content @ [NUL]), EvClose fd]"

definition ack_events :: "nat \<Rightarrow> mem \<Rightarrow> u32 \<Rightarrow> event list" where
  "ack_events fd m i =
     [EvConnect fd (get_u32 ud_ip m) (get_u16 ud_port m), EvSend fd (SEND_MESS_ACK @ [NUL]),
      EvSend fd (show_nat (unat i) @ [NUL]), EvClose fd]"

lemma id_sprintf [simp]:
  "run_state (sys_sprintf 16 (show_nat (unat (i :: u32)))) w = (show_nat (unat i), w)"
  using show_id_length [of i] by (simp add: run_sprintf)

lemma run_send_on [simp]:
  "orc w = [] \<Longrightarrow> run_state (send_string (int (fresh_fd (fds w))) s)
     (w\<lparr>fds := fd_add (DSock inp ip pt) (fds w), trace := t\<rparr>) =
   (0, w\<lparr>fds := fd_add (DSock inp ip pt) (fds w), trace := t @ [EvSend (fresh_fd (fds w)) (s @ [NUL])]\<rparr>)"
  using run_send_string [of "w\<lparr>fds := fd_add (DSock inp ip pt) (fds w), trace := t\<rparr>" "fresh_fd (fds w)" inp ip pt s]
  by (simp add: quiet_def)

lemma run_close_on [simp]:
  "run_state (sys_close (int (fresh_fd (fds w)))) (w\<lparr>fds := fd_add (DSock inp ip pt) (fds w), trace := t\<rparr>) =
   (0, w\<lparr>trace := t @ [EvClose (fresh_fd (fds w))]\<rparr>)"
  using run_close(2) [of "w\<lparr>fds := fd_add (DSock inp ip pt) (fds w), trace := t\<rparr>" "fresh_fd (fds w)" inp ip pt]
  by simp

lemma run_clt_send_message:
  assumes "db_inv w" "user_ok u" "ud_of w u = Some m" "ud_ok u e" "cstr rq_op_code q = SEND_MESSAGE"
  shows "reachable w m \<Longrightarrow> run_state (clt_send_message q e) w =
      ((0, m), w\<lparr>trace := trace w @ message_events (fresh_fd (fds w)) m (cstr rq_sender q)
         (get_u32 rq_msg_id q) (cstr rq_content q)\<rparr>)"
    and "\<not> reachable w m \<Longrightarrow> run_state (clt_send_message q e) w =
      ((GEN_ERR_ANY, m), w\<lparr>fds := fd_add DNew (fds w), err_no := Some ECONNREFUSED\<rparr>)"
proof -
  have "orc w = []" using db_inv_quiet [OF assms(1)] by (simp add: quiet_def)
  with assms(5) run_aux_connect [OF assms(1-4)]
  show "reachable w m \<Longrightarrow> run_state (clt_send_message q e) w =
      ((0, m), w\<lparr>trace := trace w @ message_events (fresh_fd (fds w)) m (cstr rq_sender q)
         (get_u32 rq_msg_id q) (cstr rq_content q)\<rparr>)"
    "\<not> reachable w m \<Longrightarrow> run_state (clt_send_message q e) w =
      ((GEN_ERR_ANY, m), w\<lparr>fds := fd_add DNew (fds w), err_no := Some ECONNREFUSED\<rparr>)"
    by (simp_all add: clt_send_message_def message_events_def SRV_SUCCESS_def err_defs)
qed

text \<open>The acknowledgement: its effect on the descriptors and the trace. The sender may be gone
  or out of reach, which nobody is told; then a socket stays open if it was.\<close>

definition ack_world :: "string \<Rightarrow> u32 \<Rightarrow> world \<Rightarrow> world" where
  "ack_world u i w = (case ud_of w u of
     None \<Rightarrow> w\<lparr>err_no := Some ENOENT\<rparr>
   | Some m \<Rightarrow>
       if reachable w m then w\<lparr>trace := trace w @ ack_events (fresh_fd (fds w)) m i\<rparr>
       else w\<lparr>fds := fd_add DNew (fds w), err_no := Some ECONNREFUSED\<rparr>)"

lemma ack_world_simps [simp]:
  "db_inv (ack_world u i w) = db_inv w" "ud_of (ack_world u i w) = ud_of w"
  "pend_of (ack_world u i w) = pend_of w" "reachable (ack_world u i w) = reachable w"
  "sock_at w n \<Longrightarrow> sock_at (ack_world u i w) n"
  by (simp_all add: ack_world_def split: option.split)

lemma run_clt_send_mess_ack:
  assumes "db_inv w" "user_ok u" "ud_ok u e" "cstr rq_op_code q = SEND_MESS_ACK"
  shows "\<exists>r e2. run_state (clt_send_mess_ack q e) w = ((r, e2), ack_world u (get_u32 rq_msg_id q) w) \<and>
    (e2 = e \<or> ud_of w u = Some e2)"
proof -
  have o: "orc w = []" using db_inv_quiet [OF assms(1)] by (simp add: quiet_def)
  show ?thesis
  proof (cases "ud_of w u")
    case None
    with assms run_aux_connect_absent [OF assms(1,2) None assms(3)] show ?thesis
      by (simp add: clt_send_mess_ack_def ack_world_def err_defs)
  next
    case (Some m)
    from o Some assms(4) run_aux_connect [OF assms(1,2) Some assms(3)] show ?thesis
      by (cases "reachable w m")
        (simp_all add: clt_send_mess_ack_def ack_world_def ack_events_def err_defs)
  qed
qed

subsection \<open>The parts of SEND\<close>

text \<open>The recipient's data with the next message number, and with the status of a user that
  could not be reached.\<close>

definition bump :: "mem \<Rightarrow> mem" where
  "bump m = set_u32 ud_last_msg_id (next_msg_id (get_u32 ud_last_msg_id m)) m"

definition offline :: "mem \<Rightarrow> mem" where
  "offline m = set_u8 ud_status STATUS_DCN m"

lemma bump_simps:
  assumes "ud_ok u m" "user_ok u"
  shows "ud_ok u (bump m)" "get_u8 ud_status (bump m) = get_u8 ud_status m"
    "get_u32 ud_last_msg_id (bump m) = next_msg_id (get_u32 ud_last_msg_id m)"
    "get_u32 ud_ip (bump m) = get_u32 ud_ip m" "get_u16 ud_port (bump m) = get_u16 ud_port m"
    "reachable w (bump m) = reachable w m"
proof -
  show "ud_ok u (bump m)" using assms by (simp add: bump_def ud_ok_set en_defs)
  have "length m = sizeof_entry" using assms by (simp add: ud_ok_def)
  then show "get_u8 ud_status (bump m) = get_u8 ud_status m"
    "get_u32 ud_last_msg_id (bump m) = next_msg_id (get_u32 ud_last_msg_id m)"
    "get_u32 ud_ip (bump m) = get_u32 ud_ip m" "get_u16 ud_port (bump m) = get_u16 ud_port m"
    by (simp_all add: bump_def en_defs mem_simps)
  then show "reachable w (bump m) = reachable w m" by (simp add: reachable_def)
qed

lemma offline_simps:
  assumes "ud_ok u m" "user_ok u"
  shows "ud_ok u (offline m)" "get_u8 ud_status (offline m) = STATUS_DCN"
    "get_u32 ud_last_msg_id (offline m) = get_u32 ud_last_msg_id m"
proof -
  show "ud_ok u (offline m)" using assms by (simp add: offline_def ud_ok_set en_defs)
  have "length m = sizeof_entry" using assms by (simp add: ud_ok_def)
  then show "get_u8 ud_status (offline m) = STATUS_DCN"
    "get_u32 ud_last_msg_id (offline m) = get_u32 ud_last_msg_id m"
    by (simp_all add: offline_def en_defs mem_simps)
qed

definition new_msg :: "mem \<Rightarrow> string \<Rightarrow> string \<Rightarrow> string \<Rightarrow> u32 \<Rightarrow> mem" where
  "new_msg e s u c i = set_u32 ms_id i (strcpy ms_content c (strcpy ms_sender s
     (strcpy en_username u (set_type ENT_TYPE_P_MSG e))))"

lemma new_msg_ok:
  assumes "length e = sizeof_entry" "user_ok s" "user_ok u" "wire_string c" "length c \<le> 255"
  shows "msg_ok u i (new_msg e s u c i)" "cstr ms_sender (new_msg e s u c i) = s"
    "cstr ms_content (new_msg e s u c i) = c"
  using assms user_okD [OF assms(2)] user_okD [OF assms(3)] wire_c_string [OF assms(4)]
  by (simp_all add: msg_ok_def msg_key_def new_msg_def en_defs mem_simps)

lemma run_send_init:
  assumes "db_inv w" "user_ok s" "user_ok u" "length e = sizeof_entry"
    and "cstr rq_sender q = s" "cstr rq_recipient q = u"
  shows "ud_of w s = None \<or> ud_of w u = None \<Longrightarrow> \<exists>err. run_state (aux_send_init q e) w =
      ((SRV_ERR_SEND_USR_NOT_EXISTS, e), w\<lparr>trace := trace w @ [EvOverflow, EvOverflow], err_no := err\<rparr>)"
    and "ud_of w s = Some ms \<Longrightarrow> ud_of w u = Some m \<Longrightarrow> run_state (aux_send_init q e) w =
      ((SRV_SUCCESS, bump m), put_ud u (bump m) (w\<lparr>trace := trace w @ [EvOverflow, EvOverflow], err_no := None\<rparr>))"
proof -
  note s = run_db_user_exists [OF _ assms(2)] and u = run_db_user_exists [OF _ assms(3)]
  show "\<exists>err. run_state (aux_send_init q e) w =
      ((SRV_ERR_SEND_USR_NOT_EXISTS, e), w\<lparr>trace := trace w @ [EvOverflow, EvOverflow], err_no := err\<rparr>)"
    if "ud_of w s = None \<or> ud_of w u = None"
    using that assms by (auto simp: aux_send_init_def s u TRUE_def FALSE_def)
  show "run_state (aux_send_init q e) w = ((SRV_SUCCESS, bump m),
      put_ud u (bump m) (w\<lparr>trace := trace w @ [EvOverflow, EvOverflow], err_no := None\<rparr>))"
    if some: "ud_of w s = Some ms" "ud_of w u = Some m"
  proof -
    let ?v = "w\<lparr>trace := trace w @ [EvOverflow, EvOverflow], err_no := None\<rparr>"
    have v: "db_inv ?v" "ud_of ?v u = Some m" using assms(1) some by simp_all
    have q: "ud_ok u (strcpy en_username u (set_type ENT_TYPE_UD e))"
      using assms(4) user_okD [OF assms(3)] by (simp add: ud_ok_def en_defs mem_simps)
    have ok: "ud_ok u (bump m)" using bump_simps(1) ud_ofD(2) [OF v(1) assms(3) v(2)] assms(3) by blast
    from run_read_ud [OF v(1) assms(3) v(2) q] run_modify_ud [OF v(1) assms(3) v(2) ok] some assms
    show ?thesis
      by (simp add: aux_send_init_def s u TRUE_def FALSE_def Let_def bump_def)
  qed
qed

lemma run_send_msg_pass:
  assumes "db_inv w" "user_ok u" "ud_of w u = Some m" "length e = sizeof_entry" "length rq = sizeof_request"
    and "cstr rq_sender q = s" "cstr rq_recipient q = u" "cstr rq_content q = c"
    and "user_ok s" "wire_string c" "length c \<le> 255"
  defines "i \<equiv> get_u32 ud_last_msg_id m"
  shows "get_u8 ud_status m \<noteq> STATUS_CN \<Longrightarrow> run_state (aux_send_msg_pass rq q r m e) w =
      ((r, m, new_msg e s u c i), w)"
    and "get_u8 ud_status m = STATUS_CN \<Longrightarrow> reachable w m \<Longrightarrow>
      run_state (aux_send_msg_pass rq q r m e) w = ((r, m, new_msg e s u c i),
        w\<lparr>trace := trace w @ message_events (fresh_fd (fds w)) m s i c @ [EvPrint (delivered_line i s u)]\<rparr>)"
    and "get_u8 ud_status m = STATUS_CN \<Longrightarrow> \<not> reachable w m \<Longrightarrow>
      run_state (aux_send_msg_pass rq q r m e) w = ((r, offline m, new_msg e s u c i),
        put_ud u (offline m) (w\<lparr>fds := fd_add DNew (fds w), err_no := Some ECONNREFUSED\<rparr>))"
proof -
  let ?rq = "strcpy rq_content c (set_u32 rq_msg_id i (strcpy rq_sender s (strcpy rq_op_code SEND_MESSAGE rq)))"
  have op: "length SEND_MESSAGE = 12" "c_string SEND_MESSAGE"
    by (simp_all add: SEND_MESSAGE_def)
  have rq: "cstr rq_op_code ?rq = SEND_MESSAGE" "cstr rq_sender ?rq = s" "get_u32 rq_msg_id ?rq = i"
    "cstr rq_content ?rq = c"
    using assms op user_okD [OF assms(9)] wire_c_string [OF assms(10)]
    by (simp_all add: rq_defs mem_simps)
  have m: "ud_ok u m" by (rule ud_ofD(2) [OF assms(1-3)])
  have id: "get_u32 ms_id (new_msg e s u c i) = i"
    using new_msg_ok(1) [OF assms(4,9,2,10,11), of i] by (simp add: msg_ok_def msg_key_def)
  note send = run_clt_send_message [OF assms(1-3) m rq(1), unfolded rq]
  note run = aux_send_msg_pass_def Let_def assms(6-8) i_def [symmetric] new_msg_def [symmetric] id
    run_printf SRV_SUCCESS_def err_defs
  show "run_state (aux_send_msg_pass rq q r m e) w = ((r, m, new_msg e s u c i), w)"
    if "get_u8 ud_status m \<noteq> STATUS_CN"
    using that by (simp add: run)
  show "run_state (aux_send_msg_pass rq q r m e) w = ((r, m, new_msg e s u c i),
      w\<lparr>trace := trace w @ message_events (fresh_fd (fds w)) m s i c @ [EvPrint (delivered_line i s u)]\<rparr>)"
    if "get_u8 ud_status m = STATUS_CN" "reachable w m"
    using that send(1) by (simp add: run)
  show "run_state (aux_send_msg_pass rq q r m e) w = ((r, offline m, new_msg e s u c i),
      put_ud u (offline m) (w\<lparr>fds := fd_add DNew (fds w), err_no := Some ECONNREFUSED\<rparr>))"
    if "get_u8 ud_status m = STATUS_CN" "\<not> reachable w m"
  proof -
    let ?v = "w\<lparr>fds := fd_add DNew (fds w), err_no := Some ECONNREFUSED\<rparr>"
    have "run_state (db_io_op_usr_ent (offline m) MODIFY) ?v = ((DBMS_SUCCESS, offline m), put_ud u (offline m) ?v)"
      using assms(1-3) offline_simps(1) [OF m assms(2)] by (intro run_modify_ud) simp_all
    with that send(2) show ?thesis by (simp add: run offline_def [symmetric])
  qed
qed

end
