(* ===== verification/SendLaws.thy ===== *)
theory SendLaws
  imports DeliveryLaws
begin

text \<open>
  The service SEND as a whole, on each of its branches: an unknown user, a recipient that is
  offline, connected, out of reach, or of neither status.
\<close>

lemma received_twice [simp]:
  "received n a ip pt (received n b ip pt w) = received n a ip pt w"
  by (simp add: received_def)

text \<open>The request after the three lines of SEND; of the content at most 255 characters stay.\<close>

definition send_request :: "string \<Rightarrow> string \<Rightarrow> string \<Rightarrow> mem \<Rightarrow> mem" where
  "send_request s u c q = strcpy rq_content (take 255 c) (strcpy rq_recipient u (strcpy rq_sender s q))"

lemma recv_send:
  assumes "db_inv w" "user_ok s" "user_ok u" "client_at w n [s, u, c] rest ip pt" "length q = sizeof_request"
  defines "w1 \<equiv> received n rest ip pt w"
  shows "\<exists>w2 w3. run_state (recv_string (int n) rq_sender q) w = ((0, strcpy rq_sender s q), w2) \<and>
      run_state (recv_string (int n) rq_recipient (strcpy rq_sender s q)) w2 =
        ((0, strcpy rq_recipient u (strcpy rq_sender s q)), w3) \<and>
      run_state (recv_string (int n) rq_content (strcpy rq_recipient u (strcpy rq_sender s q))) w3 =
        ((0, send_request s u c q), w1)"
    and "cstr rq_sender (send_request s u c q) = s" "cstr rq_recipient (send_request s u c q) = u"
    "cstr rq_content (send_request s u c q) = take 255 c" "length (send_request s u c q) = sizeof_request"
proof -
  let ?w2 = "received n (u @ NUL # c @ NUL # rest) ip pt w" and ?w3 = "received n (c @ NUL # rest) ip pt w"
  note len = user_okD(3,4) [OF assms(2)] user_okD(3,4) [OF assms(3)]
  have wc: "wire_string c" using assms(4) by (simp add: client_at_def)
  then have c: "c_string (take 255 c)" by (auto simp: wire_string_def c_string_def dest: in_set_takeD)
  have l1: "length (strcpy rq_sender s q) = sizeof_request"
    using assms(5) len by (intro length_request) simp_all
  have l2: "length (strcpy rq_recipient u (strcpy rq_sender s q)) = sizeof_request"
    using len by (intro length_request [OF _ _ l1]) simp_all
  have c2: "client_at ?w2 n [u, c] rest ip pt" using client_received [OF assms(4)] by simp
  have c3: "client_at ?w3 n [c] rest ip pt" using client_received [OF c2] by simp
  have "run_state (recv_string (int n) rq_sender q) w = ((0, strcpy rq_sender s q), ?w2)"
    using run_recv_line [OF assms(1,4), of rq_sender q] assms(5) len by simp
  moreover have "run_state (recv_string (int n) rq_recipient (strcpy rq_sender s q)) ?w2 =
      ((0, strcpy rq_recipient u (strcpy rq_sender s q)), ?w3)"
    using run_recv_line [OF _ c2, of rq_recipient "strcpy rq_sender s q"] assms(1) l1 len by simp
  moreover have "run_state (recv_string (int n) rq_content (strcpy rq_recipient u (strcpy rq_sender s q))) ?w3 =
      ((0, send_request s u c q), w1)"
    using run_recv_line [OF _ c3, of rq_content "strcpy rq_recipient u (strcpy rq_sender s q)"] assms(1) l2
    by (simp add: send_request_def w1_def)
  ultimately show "\<exists>w2 w3. run_state (recv_string (int n) rq_sender q) w = ((0, strcpy rq_sender s q), w2) \<and>
      run_state (recv_string (int n) rq_recipient (strcpy rq_sender s q)) w2 =
        ((0, strcpy rq_recipient u (strcpy rq_sender s q)), w3) \<and>
      run_state (recv_string (int n) rq_content (strcpy rq_recipient u (strcpy rq_sender s q))) w3 =
        ((0, send_request s u c q), w1)"
    by blast
  show "cstr rq_sender (send_request s u c q) = s" "cstr rq_recipient (send_request s u c q) = u"
    "cstr rq_content (send_request s u c q) = take 255 c" "length (send_request s u c q) = sizeof_request"
    using assms(5) len c user_okD(2) [OF assms(2)] user_okD(2) [OF assms(3)]
    by (simp_all add: send_request_def rq_defs mem_simps)
qed

lemma new_msg_parts:
  assumes "junk_ok jk" "user_ok s" "user_ok u" "client_at w n [s, u, c] rest ip pt"
  shows "cstr ms_sender (new_msg (jk_msg_entry jk) s u (take 255 c) i) = s"
    "cstr ms_content (new_msg (jk_msg_entry jk) s u (take 255 c) i) = take 255 c"
proof -
  have "wire_string (take 255 c)"
    using assms(4) by (auto simp: client_at_def wire_string_def dest: in_set_takeD)
  with assms(1) new_msg_ok(2,3) [OF _ assms(2,3) this]
  show "cstr ms_sender (new_msg (jk_msg_entry jk) s u (take 255 c) i) = s"
    "cstr ms_content (new_msg (jk_msg_entry jk) s u (take 255 c) i) = take 255 c"
    by (simp_all add: junk_ok_def)
qed

text \<open>What all branches share: the world after the lines are read, and the two tests of
  \<^verbatim>\<open>db_user_exists\<close> with their overflows.\<close>

definition send_start :: "nat \<Rightarrow> char list \<Rightarrow> u32 \<Rightarrow> u16 \<Rightarrow> world \<Rightarrow> world" where
  "send_start n rest ip pt w = (received n rest ip pt w)\<lparr>trace := trace w @ [EvOverflow, EvOverflow]\<rparr>"

definition id_ev :: "nat \<Rightarrow> u32 \<Rightarrow> event" where
  "id_ev n i = EvSend n (show_nat (unat i) @ [NUL])"

lemma send_start_simps [simp]:
  "db_inv (send_start n rest ip pt w) = db_inv w" "ud_of (send_start n rest ip pt w) = ud_of w"
  "pend_of (send_start n rest ip pt w) = pend_of w" "reachable (send_start n rest ip pt w) = reachable w"
  "trace (send_start n rest ip pt w) = trace w @ [EvOverflow, EvOverflow]"
  "sock_at w n \<Longrightarrow> sock_at (send_start n rest ip pt w) n"
  by (simp_all add: send_start_def reachable_def)

lemma run_first_ack:
  assumes "db_inv w" "sock_at w n"
  shows "run_state (aux_send_first_ack (int n) r i) w =
    ((), w\<lparr>trace := trace w @ (if r = SRV_SUCCESS then [reply_ev n r, id_ev n i] else [reply_ev n r])\<rparr>)"
  using assms by (simp add: aux_send_first_ack_def run_reply run_answer id_ev_def)

lemma run_send_unknown:
  assumes "db_inv w" "user_ok s" "user_ok u" "client_at w n [s, u, c] rest ip pt"
    and "length q = sizeof_request" "junk_ok jk" "ud_of w s = None \<or> ud_of w u = None"
  shows "\<exists>err. run_state (srv_send jk (int n) q) w = (send_request s u c q,
    (send_start n rest ip pt w)\<lparr>err_no := err,
       trace := trace w @ [EvOverflow, EvOverflow, reply_ev n SRV_ERR_SEND_USR_NOT_EXISTS]\<rparr>)"
proof -
  note r = recv_send [OF assms(1-5)]
  let ?w1 = "received n rest ip pt w"
  obtain w2 w3 where recv: "run_state (recv_string (int n) rq_sender q) w = ((0, strcpy rq_sender s q), w2)"
    "run_state (recv_string (int n) rq_recipient (strcpy rq_sender s q)) w2 =
        ((0, strcpy rq_recipient u (strcpy rq_sender s q)), w3)"
    "run_state (recv_string (int n) rq_content (strcpy rq_recipient u (strcpy rq_sender s q))) w3 =
        ((0, send_request s u c q), ?w1)" using r(1) by blast
  have e: "length (jk_recipient_entry jk) = sizeof_entry" using assms(6) by (simp add: junk_ok_def)
  from run_send_init(1) [OF _ assms(2,3) e r(2,3), of ?w1] assms(1,7) obtain err where
    init: "run_state (aux_send_init (send_request s u c q) (jk_recipient_entry jk)) ?w1 =
      ((SRV_ERR_SEND_USR_NOT_EXISTS, jk_recipient_entry jk),
       ?w1\<lparr>trace := trace w @ [EvOverflow, EvOverflow], err_no := err\<rparr>)" by auto
  have "SRV_ERR_SEND_USR_NOT_EXISTS \<noteq> SRV_SUCCESS" by (simp add: srv_defs)
  with recv init assms(1) client_sock [OF assms(4)] show ?thesis
    by (intro exI [of _ err]) (simp add: srv_send_def run_reply send_start_def)
qed

text \<open>SEND from the point where the recipient's data has its next number: what is left to run.\<close>

lemma run_send_known:
  assumes "db_inv w" "user_ok s" "user_ok u" "client_at w n [s, u, c] rest ip pt"
    and "length q = sizeof_request" "junk_ok jk" "ud_of w s = Some ms" "ud_of w u = Some m"
  defines "v \<equiv> put_ud u (bump m) (send_start n rest ip pt w)"
    and "i \<equiv> next_msg_id (get_u32 ud_last_msg_id m)"
  defines "msg \<equiv> new_msg (jk_msg_entry jk) s u (take 255 c) i"
  shows "db_inv v" "ud_of v = (ud_of w)(u \<mapsto> bump m)" "pend_of v = pend_of w" "sock_at v n"
    "trace v = trace w @ [EvOverflow, EvOverflow]" "msg_ok u i msg" "ud_ok u m"
    "\<exists>r e v2. run_state (srv_send jk (int n) q) w =
       run_state (send_finish jk (int n) (send_request s u c q) r e msg) v2 \<and>
     (get_u8 ud_status m \<noteq> STATUS_CN \<longrightarrow> r = SRV_SUCCESS \<and> e = bump m \<and> v2 = v\<lparr>err_no := None\<rparr>) \<and>
     (get_u8 ud_status m = STATUS_CN \<and> reachable w m \<longrightarrow> r = SRV_SUCCESS \<and> e = bump m \<and>
        v2 = v\<lparr>err_no := None, trace := trace w @ [EvOverflow, EvOverflow] @
          message_events (fresh_fd (fds v)) m s i (take 255 c) @ [EvPrint (delivered_line i s u)]\<rparr>) \<and>
     (get_u8 ud_status m = STATUS_CN \<and> \<not> reachable w m \<longrightarrow> r = SRV_SUCCESS \<and> e = offline (bump m) \<and>
        v2 = put_ud u (offline (bump m)) (v\<lparr>fds := fd_add DNew (fds v), err_no := Some ECONNREFUSED\<rparr>))"
proof -
  note r = recv_send [OF assms(1-5)]
  let ?w1 = "received n rest ip pt w"
  let ?v = "v\<lparr>err_no := None\<rparr>"
  obtain w2 w3 where recv: "run_state (recv_string (int n) rq_sender q) w = ((0, strcpy rq_sender s q), w2)"
    "run_state (recv_string (int n) rq_recipient (strcpy rq_sender s q)) w2 =
        ((0, strcpy rq_recipient u (strcpy rq_sender s q)), w3)"
    "run_state (recv_string (int n) rq_content (strcpy rq_recipient u (strcpy rq_sender s q))) w3 =
        ((0, send_request s u c q), ?w1)" using r(1) by blast
  have e: "length (jk_recipient_entry jk) = sizeof_entry" "length (jk_msg_entry jk) = sizeof_entry"
    "length (jk_send_msg_request jk) = sizeof_request"
    using assms(6) by (simp_all add: junk_ok_def)
  have st: "ud_of (send_start n rest ip pt w) u = Some m" "db_inv (send_start n rest ip pt w)"
    using assms(1,8) by simp_all
  show m: "ud_ok u m" using ud_ofD(2) [OF assms(1,3,8)] .
  note b = bump_simps [OF m assms(3)]
  have wc: "wire_string (take 255 c)"
    using assms(4) by (auto simp: client_at_def wire_string_def dest: in_set_takeD)
  show inv: "db_inv v"
    unfolding v_def by (rule put_ud_inv [OF st(2) assms(3) st(1) b(1)])
  show ud: "ud_of v = (ud_of w)(u \<mapsto> bump m)" "pend_of v = pend_of w"
    and t: "trace v = trace w @ [EvOverflow, EvOverflow]"
    by (simp_all add: v_def)
  show "sock_at v n" using client_sock [OF assms(4)] by (simp add: v_def)
  show "msg_ok u i msg"
    unfolding msg_def using new_msg_ok(1) [OF e(2) assms(2,3) wc] by simp
  have v: "?v = put_ud u (bump m) (?w1\<lparr>trace := trace w @ [EvOverflow, EvOverflow], err_no := None\<rparr>)"
    by (simp add: v_def send_start_def received_def put_ud_def ud_path_def)
  have init: "run_state (aux_send_init (send_request s u c q) (jk_recipient_entry jk)) ?w1 =
      ((SRV_SUCCESS, bump m), ?v)"
    using run_send_init(2) [OF _ assms(2,3) e(1) r(2,3), of ?w1 ms m] assms(1,7,8) by (simp add: v)
  have rest: "run_state (srv_send jk (int n) q) w =
      run_state (send_finish jk (int n) (send_request s u c q) r1 e1 m1) v1"
    if "run_state (aux_send_msg_pass (jk_send_msg_request jk) (send_request s u c q) SRV_SUCCESS (bump m)
       (jk_msg_entry jk)) ?v = ((r1, e1, m1), v1)" for r1 e1 m1 v1
    using recv init that by (simp add: srv_send_def)
  have v_inv: "db_inv ?v" "ud_of ?v u = Some (bump m)" using inv ud by simp_all
  have re: "reachable ?v = reachable w" by (simp add: v_def)
  have ev: "message_events fd (bump m) = message_events fd m" for fd
    by (simp add: message_events_def fun_eq_iff b)
  have id: "get_u32 ud_last_msg_id (bump m) = i" by (simp add: b i_def)
  note pass = run_send_msg_pass [OF v_inv(1) assms(3) v_inv(2) e(2,3) r(2-4) assms(2) wc, unfolded id, folded msg_def]
  consider "get_u8 ud_status m \<noteq> STATUS_CN" | "get_u8 ud_status m = STATUS_CN" "reachable w m"
    | "get_u8 ud_status m = STATUS_CN" "\<not> reachable w m" by blast
  then show "\<exists>r e v2. run_state (srv_send jk (int n) q) w =
       run_state (send_finish jk (int n) (send_request s u c q) r e msg) v2 \<and>
     (get_u8 ud_status m \<noteq> STATUS_CN \<longrightarrow> r = SRV_SUCCESS \<and> e = bump m \<and> v2 = v\<lparr>err_no := None\<rparr>) \<and>
     (get_u8 ud_status m = STATUS_CN \<and> reachable w m \<longrightarrow> r = SRV_SUCCESS \<and> e = bump m \<and>
        v2 = v\<lparr>err_no := None, trace := trace w @ [EvOverflow, EvOverflow] @
          message_events (fresh_fd (fds v)) m s i (take 255 c) @ [EvPrint (delivered_line i s u)]\<rparr>) \<and>
     (get_u8 ud_status m = STATUS_CN \<and> \<not> reachable w m \<longrightarrow> r = SRV_SUCCESS \<and> e = offline (bump m) \<and>
        v2 = put_ud u (offline (bump m)) (v\<lparr>fds := fd_add DNew (fds v), err_no := Some ECONNREFUSED\<rparr>))"
  proof cases
    case 1
    with pass(1) [of SRV_SUCCESS] rest b show ?thesis by auto
  next
    case 2
    with pass(2) [of SRV_SUCCESS] rest b re t show ?thesis by (auto simp: ev)
  next
    case 3
    with pass(3) [of SRV_SUCCESS] rest b re show ?thesis by auto
  qed
qed

lemma run_finish_store:
  assumes "db_inv w" "sock_at w n" "user_ok u" "ud_of w u = Some m2" "get_u8 ud_status e = STATUS_DCN"
    and "msg_ok u i msg" "cstr rq_sender q = s" "cstr rq_recipient q = u"
  shows "run_state (send_finish jk (int n) q SRV_SUCCESS e msg) w = (q,
    if pend_of w u i = None
    then (add_msg u i msg w)\<lparr>trace := trace w @
      [EvPrint (stored_line i s u), reply_ev n SRV_SUCCESS, id_ev n i]\<rparr>
    else w\<lparr>err_no := Some EEXIST, trace := trace w @ [reply_ev n SRV_ERR_SEND_ANY]\<rparr>)"
proof -
  have dcn: "STATUS_DCN \<noteq> STATUS_CN" "SRV_ERR_SEND_ANY \<noteq> SRV_SUCCESS" by (simp_all add: srv_defs)
  note io = run_create_msg [OF assms(1,3,4) msg_ok_key [OF assms(6)]]
  show ?thesis
  proof (cases "pend_of w u i")
    case None
    have "db_inv (add_msg u i msg w)" by (rule add_msg_inv [OF assms(1,3,4,6) None])
    with None io assms(2,5,7,8) dcn msg_okD [OF assms(6)] show ?thesis
      by (simp add: send_finish_def Let_def run_printf run_first_ack)
  next
    case (Some d)
    with io assms(1,2,5,7,8) dcn show ?thesis
      by (simp add: send_finish_def Let_def run_first_ack err_defs)
  qed
qed

lemma run_finish_ack:
  assumes "db_inv w" "sock_at w n" "get_u8 ud_status e \<noteq> STATUS_DCN" "jk_send_msg_reply jk = SRV_SUCCESS"
    and "msg_ok u i msg" "cstr rq_sender q = s" "user_ok s" "junk_ok jk"
  defines "w1 \<equiv> w\<lparr>trace := trace w @ [reply_ev n SRV_SUCCESS, id_ev n i]\<rparr>"
  shows "run_state (send_finish jk (int n) q SRV_SUCCESS e msg) w = (q,
    if get_u8 ud_status e = STATUS_CN then ack_world s (get_u32 ud_last_msg_id e) w1 else w1)"
proof -
  let ?q = "set_u32 rq_msg_id (get_u32 ud_last_msg_id e) (strcpy rq_op_code SEND_MESS_ACK (jk_send_msg_ack_request jk))"
  let ?e = "strcpy en_username s (set_type ENT_TYPE_UD (jk_sender_entry jk))"
  have q: "cstr rq_op_code ?q = SEND_MESS_ACK" "get_u32 rq_msg_id ?q = get_u32 ud_last_msg_id e"
    using assms(8) by (simp_all add: junk_ok_def rq_defs mem_simps SEND_MESS_ACK_def)
  have e: "ud_ok s ?e"
    using assms(8) user_okD [OF assms(7)] by (simp add: junk_ok_def ud_ok_def en_defs mem_simps)
  have w1: "db_inv w1" using assms(1) by (simp add: w1_def)
  from run_clt_send_mess_ack [OF w1 assms(7) e q(1)] obtain r e2 where
    "run_state (clt_send_mess_ack ?q ?e) w1 = ((r, e2), ack_world s (get_u32 ud_last_msg_id e) w1)"
    unfolding q by blast
  with assms(1-6) msg_okD [OF assms(5)] show ?thesis
    by (simp add: send_finish_def Let_def run_first_ack w1_def)
qed

text \<open>The four outcomes for registered users.\<close>

lemma run_send_offline:
  assumes "db_inv w" "user_ok s" "user_ok u" "client_at w n [s, u, c] rest ip pt"
    and "length q = sizeof_request" "junk_ok jk" "ud_of w s = Some ms" "ud_of w u = Some m"
    and "get_u8 ud_status m = STATUS_DCN"
  defines "v \<equiv> (put_ud u (bump m) (send_start n rest ip pt w))\<lparr>err_no := None\<rparr>"
    and "i \<equiv> next_msg_id (get_u32 ud_last_msg_id m)"
  defines "msg \<equiv> new_msg (jk_msg_entry jk) s u (take 255 c) i"
  shows "run_state (srv_send jk (int n) q) w = (send_request s u c q,
    if pend_of w u i = None
    then (add_msg u i msg v)\<lparr>trace := trace w @ [EvOverflow, EvOverflow,
      EvPrint (stored_line i s u), reply_ev n SRV_SUCCESS, id_ev n i]\<rparr>
    else v\<lparr>err_no := Some EEXIST, trace := trace w @ [EvOverflow, EvOverflow, reply_ev n SRV_ERR_SEND_ANY]\<rparr>)"
proof -
  note k = run_send_known [OF assms(1-8), folded i_def, folded msg_def]
  have dcn: "STATUS_DCN \<noteq> STATUS_CN" by (simp add: srv_defs)
  have st: "get_u8 ud_status (bump m) = STATUS_DCN" using bump_simps(2) [OF k(7) assms(3)] assms(9) by simp
  have "run_state (srv_send jk (int n) q) w =
      run_state (send_finish jk (int n) (send_request s u c q) SRV_SUCCESS (bump m) msg) v"
    using k(8) assms(9) dcn unfolding v_def by auto
  also have "\<dots> = (send_request s u c q,
    if pend_of v u i = None
    then (add_msg u i msg v)\<lparr>trace := trace v @ [EvPrint (stored_line i s u), reply_ev n SRV_SUCCESS, id_ev n i]\<rparr>
    else v\<lparr>err_no := Some EEXIST, trace := trace v @ [reply_ev n SRV_ERR_SEND_ANY]\<rparr>)"
    using k by (intro run_finish_store [OF _ _ assms(3) _ st k(6) recv_send(2,3) [OF assms(1-5)]])
      (simp_all add: v_def)
  finally show ?thesis by (simp add: v_def)
qed

lemma run_send_unreachable:
  assumes "db_inv w" "user_ok s" "user_ok u" "client_at w n [s, u, c] rest ip pt"
    and "length q = sizeof_request" "junk_ok jk" "ud_of w s = Some ms" "ud_of w u = Some m"
    and "get_u8 ud_status m = STATUS_CN" "\<not> reachable w m"
  defines "i \<equiv> next_msg_id (get_u32 ud_last_msg_id m)"
  defines "msg \<equiv> new_msg (jk_msg_entry jk) s u (take 255 c) i"
  shows "\<exists>v. db_inv v \<and> sock_at v n \<and> ud_of v = (ud_of w)(u \<mapsto> offline (bump m)) \<and> pend_of v = pend_of w \<and>
    run_state (srv_send jk (int n) q) w = (send_request s u c q,
    if pend_of w u i = None
    then (add_msg u i msg v)\<lparr>trace := trace w @ [EvOverflow, EvOverflow,
      EvPrint (stored_line i s u), reply_ev n SRV_SUCCESS, id_ev n i]\<rparr>
    else v\<lparr>err_no := Some EEXIST, trace := trace w @ [EvOverflow, EvOverflow, reply_ev n SRV_ERR_SEND_ANY]\<rparr>)"
proof -
  note k = run_send_known [OF assms(1-8), folded i_def, folded msg_def]
  let ?v0 = "put_ud u (bump m) (send_start n rest ip pt w)"
  let ?v1 = "?v0\<lparr>fds := fd_add DNew (fds ?v0), err_no := Some ECONNREFUSED\<rparr>"
  let ?v = "put_ud u (offline (bump m)) ?v1"
  note b = bump_simps(1) [OF k(7) assms(3)]
  note o = offline_simps [OF b assms(3)]
  have v1: "db_inv ?v1" "ud_of ?v1 u = Some (bump m)" using k(1,2) by simp_all
  have inv: "db_inv ?v" by (rule put_ud_inv [OF v1(1) assms(3) v1(2) o(1)])
  have sock: "sock_at ?v n" using sock_fd_add(1) [OF k(4)] by simp
  have "run_state (srv_send jk (int n) q) w =
      run_state (send_finish jk (int n) (send_request s u c q) SRV_SUCCESS (offline (bump m)) msg) ?v"
    using k(8) assms(9,10) by auto
  also have "\<dots> = (send_request s u c q,
    if pend_of ?v u i = None
    then (add_msg u i msg ?v)\<lparr>trace := trace ?v @ [EvPrint (stored_line i s u), reply_ev n SRV_SUCCESS, id_ev n i]\<rparr>
    else ?v\<lparr>err_no := Some EEXIST, trace := trace ?v @ [reply_ev n SRV_ERR_SEND_ANY]\<rparr>)"
    using inv sock by (intro run_finish_store [OF _ _ assms(3) _ o(2) k(6) recv_send(2,3) [OF assms(1-5)]]) simp_all
  finally have "run_state (srv_send jk (int n) q) w = (send_request s u c q,
    if pend_of w u i = None
    then (add_msg u i msg ?v)\<lparr>trace := trace w @ [EvOverflow, EvOverflow,
      EvPrint (stored_line i s u), reply_ev n SRV_SUCCESS, id_ev n i]\<rparr>
    else ?v\<lparr>err_no := Some EEXIST, trace := trace w @ [EvOverflow, EvOverflow, reply_ev n SRV_ERR_SEND_ANY]\<rparr>)"
    by simp
  with inv sock show ?thesis by (intro exI [of _ ?v]) simp
qed

lemma run_send_connected:
  assumes "db_inv w" "user_ok s" "user_ok u" "client_at w n [s, u, c] rest ip pt"
    and "length q = sizeof_request" "junk_ok jk" "ud_of w s = Some ms" "ud_of w u = Some m"
    and "get_u8 ud_status m \<noteq> STATUS_DCN" "jk_send_msg_reply jk = SRV_SUCCESS"
  defines "v \<equiv> (put_ud u (bump m) (send_start n rest ip pt w))\<lparr>err_no := None\<rparr>"
    and "i \<equiv> next_msg_id (get_u32 ud_last_msg_id m)"
  shows "get_u8 ud_status m = STATUS_CN \<Longrightarrow> reachable w m \<Longrightarrow>
    run_state (srv_send jk (int n) q) w = (send_request s u c q, ack_world s i (v\<lparr>trace := trace w @
      [EvOverflow, EvOverflow] @ message_events (fresh_fd (fds v)) m s i (take 255 c) @
      [EvPrint (delivered_line i s u), reply_ev n SRV_SUCCESS, id_ev n i]\<rparr>))"
    and "get_u8 ud_status m \<noteq> STATUS_CN \<Longrightarrow>
    run_state (srv_send jk (int n) q) w = (send_request s u c q, v\<lparr>trace := trace w @
      [EvOverflow, EvOverflow, reply_ev n SRV_SUCCESS, id_ev n i]\<rparr>)"
proof -
  note k = run_send_known [OF assms(1-8), folded i_def]
  note b = bump_simps [OF k(7) assms(3)]
  have st: "get_u8 ud_status (bump m) \<noteq> STATUS_DCN" using b(2) assms(9) by simp
  note fin = run_finish_ack [OF _ _ st assms(10) k(6) recv_send(2) [OF assms(1-5)] assms(2,6)]
  have id: "get_u32 ud_last_msg_id (bump m) = i" by (simp add: b i_def)
  have v: "db_inv v" "sock_at v n" "trace v = trace w @ [EvOverflow, EvOverflow]"
    using k by (simp_all add: v_def)
  show "run_state (srv_send jk (int n) q) w = (send_request s u c q, ack_world s i (v\<lparr>trace := trace w @
      [EvOverflow, EvOverflow] @ message_events (fresh_fd (fds v)) m s i (take 255 c) @
      [EvPrint (delivered_line i s u), reply_ev n SRV_SUCCESS, id_ev n i]\<rparr>))"
    if "get_u8 ud_status m = STATUS_CN" "reachable w m"
  proof -
    let ?v = "v\<lparr>trace := trace w @ [EvOverflow, EvOverflow] @
      message_events (fresh_fd (fds v)) m s i (take 255 c) @ [EvPrint (delivered_line i s u)]\<rparr>"
    have "run_state (srv_send jk (int n) q) w = run_state (send_finish jk (int n) (send_request s u c q)
        SRV_SUCCESS (bump m) (new_msg (jk_msg_entry jk) s u (take 255 c) i)) ?v"
      using k(8) that by (auto simp: v_def)
    also have "\<dots> = (send_request s u c q,
        ack_world s i (?v\<lparr>trace := trace ?v @ [reply_ev n SRV_SUCCESS, id_ev n i]\<rparr>))"
      using fin [of ?v n, unfolded id] v(1,2) that(1) b(2) by simp
    finally show ?thesis by simp
  qed
  show "run_state (srv_send jk (int n) q) w = (send_request s u c q, v\<lparr>trace := trace w @
      [EvOverflow, EvOverflow, reply_ev n SRV_SUCCESS, id_ev n i]\<rparr>)"
    if "get_u8 ud_status m \<noteq> STATUS_CN"
  proof -
    have "run_state (srv_send jk (int n) q) w = run_state (send_finish jk (int n) (send_request s u c q)
        SRV_SUCCESS (bump m) (new_msg (jk_msg_entry jk) s u (take 255 c) i)) v"
      using k(8) that by (auto simp: v_def)
    with fin [of v n] v that b(2) show ?thesis by simp
  qed
qed

end
