(* ===== verification/ConnectLaws.thy ===== *)
theory ConnectLaws
  imports DeliveryLaws
begin

text \<open>
  The service CONNECT in a quiet world that satisfies \<open>db_inv\<close>: the reply and the update of
  the user's data, then the loop that delivers the pending messages. The loop ends, since each
  round takes one message out of the database, and every message has gone out once.
\<close>

subsection \<open>Connections in a trace\<close>

text \<open>What was sent on a connection until it was closed, and the connections of a trace.\<close>

fun sent_on :: "nat \<Rightarrow> event list \<Rightarrow> mem list" where
  "sent_on fd [] = []"
| "sent_on fd (EvSend k bs # es) = (if k = fd then bs # sent_on fd es else sent_on fd es)"
| "sent_on fd (EvClose k # es) = (if k = fd then [] else sent_on fd es)"
| "sent_on fd (EvPrint l # es) = sent_on fd es"
| "sent_on fd (EvConnect k ip pt # es) = sent_on fd es"
| "sent_on fd (EvOverflow # es) = sent_on fd es"

fun sessions :: "event list \<Rightarrow> (u32 \<times> u16 \<times> mem list) list" where
  "sessions [] = []"
| "sessions (EvConnect fd ip pt # es) = (ip, pt, sent_on fd es) # sessions es"
| "sessions (EvSend k bs # es) = sessions es"
| "sessions (EvClose k # es) = sessions es"
| "sessions (EvPrint l # es) = sessions es"
| "sessions (EvOverflow # es) = sessions es"

text \<open>The connections that carried a message: address, and what was sent.\<close>

definition deliveries :: "event list \<Rightarrow> (u32 \<times> u16 \<times> mem list) list" where
  "deliveries tr = filter (\<lambda>(ip, pt, ps). ps \<noteq> [] \<and> hd ps = SEND_MESSAGE @ [NUL]) (sessions tr)"

definition delivery :: "mem \<Rightarrow> mem \<Rightarrow> u32 \<Rightarrow> u32 \<times> u16 \<times> mem list" where
  "delivery m d i = (get_u32 ud_ip m, get_u16 ud_port m, [SEND_MESSAGE @ [NUL],
     cstr ms_sender d @ [NUL], show_nat (unat i) @ [NUL], cstr ms_content d @ [NUL]])"

lemma deliveries_simps [simp]:
  "deliveries [] = []" "deliveries (EvPrint l # es) = deliveries es"
  "deliveries (message_events fd m (cstr ms_sender d) i (cstr ms_content d) @ es) = delivery m d i # deliveries es"
  "deliveries (ack_events fd m i @ es) = deliveries es"
  by (simp_all add: deliveries_def message_events_def ack_events_def delivery_def SEND_MESSAGE_def SEND_MESS_ACK_def)

lemma ack_trace: "\<exists>tr. trace (ack_world s i w) = trace w @ tr \<and> (\<forall>es. deliveries (tr @ es) = deliveries es)"
proof (cases "ud_of w s")
  case None
  then show ?thesis by (intro exI [of _ "[]"]) (simp add: ack_world_def)
next
  case (Some m)
  show ?thesis
  proof (cases "reachable w m")
    case True
    with Some show ?thesis
      by (intro exI [of _ "ack_events (fresh_fd (fds w)) m i"]) (simp add: ack_world_def)
  next
    case False
    with Some show ?thesis by (intro exI [of _ "[]"]) (simp add: ack_world_def)
  qed
qed

subsection \<open>One round of the loop\<close>

text \<open>The variables of the loop are in order for the user whose messages are delivered.\<close>

definition flush_ok :: "string \<Rightarrow> flush \<Rightarrow> bool" where
  "flush_ok u f \<longleftrightarrow> ud_ok u (fl_recipient_entry f) \<and> pend_query u (fl_pend_msg_entry f) \<and>
     length (fl_sender_entry f) = sizeof_entry \<and> get_type (fl_sender_entry f) = ENT_TYPE_UD \<and>
     length (fl_send_msg_request f) = sizeof_request \<and>
     cstr rq_op_code (fl_send_msg_request f) = SEND_MESSAGE \<and>
     length (fl_send_msg_ack_request f) = sizeof_request \<and>
     cstr rq_op_code (fl_send_msg_ack_request f) = SEND_MESS_ACK"

lemma op_lengths [simp]: "length SEND_MESSAGE = 12" "length SEND_MESS_ACK = 13"
  "c_string SEND_MESSAGE" "c_string SEND_MESS_ACK"
  by (simp_all add: SEND_MESSAGE_def SEND_MESS_ACK_def)

lemma pend_body_request:
  fixes i :: u32
  assumes "length q = sizeof_request" "cstr rq_op_code q = SEND_MESSAGE" "user_ok s" "c_string c" "length c \<le> 255"
  shows "length (strcpy rq_content c (set_u32 rq_msg_id i (strcpy rq_sender s q))) = sizeof_request"
    "cstr rq_op_code (strcpy rq_content c (set_u32 rq_msg_id i (strcpy rq_sender s q))) = SEND_MESSAGE"
    "cstr rq_sender (strcpy rq_content c (set_u32 rq_msg_id i (strcpy rq_sender s q))) = s"
    "get_u32 rq_msg_id (strcpy rq_content c (set_u32 rq_msg_id i (strcpy rq_sender s q))) = i"
    "cstr rq_content (strcpy rq_content c (set_u32 rq_msg_id i (strcpy rq_sender s q))) = c"
  using assms user_okD [OF assms(3)] by (simp_all add: rq_defs mem_simps)

lemma run_pend_body:
  assumes "db_inv w" "user_ok u" "ud_of w u = Some m" "flush_ok u f" "pend_of w u i = Some d"
    and "fl_pend_msg_entry f = d"
  shows "reachable w m \<Longrightarrow> \<exists>l f2. flush_ok u f2 \<and> run_state (pend_body f) w = ((None, f2),
      ack_world (cstr ms_sender d) i (del_msg u i (w\<lparr>trace := trace w @ message_events (fresh_fd (fds w)) m
        (cstr ms_sender d) i (cstr ms_content d) @ [EvPrint l]\<rparr>)))"
    and "\<not> reachable w m \<Longrightarrow> \<exists>f2. run_state (pend_body f) w = ((Some 2, f2),
      put_ud u (offline m) (w\<lparr>fds := fd_add DNew (fds w), err_no := Some ECONNREFUSED\<rparr>))"
proof -
  let ?s = "cstr ms_sender d" and ?c = "cstr ms_content d"
  let ?q = "strcpy rq_content ?c (set_u32 rq_msg_id i (strcpy rq_sender ?s (fl_send_msg_request f)))"
  let ?a = "set_u32 rq_msg_id i (fl_send_msg_ack_request f)"
  let ?e = "strcpy en_username ?s (fl_sender_entry f)"
  let ?l = "delivered_line i ?s (cstr rq_recipient ?q)"
  have d: "msg_ok u i d" by (rule pend_of_fs(2) [OF assms(1-3,5)])
  have m: "ud_ok u m" by (rule ud_ofD(2) [OF assms(1-3)])
  have f: "ud_ok u (fl_recipient_entry f)" "length (fl_sender_entry f) = sizeof_entry"
    "get_type (fl_sender_entry f) = ENT_TYPE_UD" "length (fl_send_msg_request f) = sizeof_request"
    "cstr rq_op_code (fl_send_msg_request f) = SEND_MESSAGE"
    "length (fl_send_msg_ack_request f) = sizeof_request"
    "cstr rq_op_code (fl_send_msg_ack_request f) = SEND_MESS_ACK"
    using assms(4) by (simp_all add: flush_ok_def)
  have s: "user_ok ?s" "c_string ?c" "length ?c \<le> 255"
    using d by (auto simp: msg_ok_def)
  note q = pend_body_request [OF f(4,5) s, of i]
  have a: "cstr rq_op_code ?a = SEND_MESS_ACK" "get_u32 rq_msg_id ?a = i" "length ?a = sizeof_request"
    using f(6,7) by (simp_all add: rq_defs mem_simps)
  have e: "ud_ok ?s ?e"
    using f(2,3) user_okD [OF s(1)] by (simp add: ud_ok_def en_defs mem_simps)
  have id: "get_u32 ms_id d = i" using msg_okD [OF d] .
  note send = run_clt_send_message [OF assms(1-3) f(1) q(2), unfolded q]
  note run = pend_body_def Let_def assms(6) id q(3,4) run_printf SRV_SUCCESS_def SRV_ERR_SEND_ANY_def err_defs
  show "\<exists>l f2. flush_ok u f2 \<and> run_state (pend_body f) w = ((None, f2),
      ack_world ?s i (del_msg u i (w\<lparr>trace := trace w @ message_events (fresh_fd (fds w)) m ?s i ?c @ [EvPrint l]\<rparr>)))"
    if "reachable w m"
  proof -
    let ?w1 = "w\<lparr>trace := trace w @ message_events (fresh_fd (fds w)) m ?s i ?c @ [EvPrint ?l]\<rparr>"
    have w1: "db_inv ?w1" "ud_of ?w1 u = Some m" "pend_of ?w1 u i = Some d" using assms by simp_all
    note del = run_delete_msg [OF w1(1) assms(2) w1(2) msg_ok_key [OF d] w1(3)]
    have inv2: "db_inv (del_msg u i ?w1)" by (rule del_msg_inv [OF w1(1) assms(2) w1(2,3)])
    obtain r e2 where ack: "run_state (clt_send_mess_ack ?a ?e) (del_msg u i ?w1) =
        ((r, e2), ack_world ?s i (del_msg u i ?w1))" "e2 = ?e \<or> ud_of (del_msg u i ?w1) ?s = Some e2"
      using run_clt_send_mess_ack [OF inv2 s(1) e a(1)] unfolding a by blast
    have e2: "ud_ok ?s e2" using ack(2) e ud_ofD(2) [OF inv2 s(1)] by blast
    have "flush_ok u \<lparr>fl_send_msg_request = ?q, fl_send_msg_ack_request = ?a, fl_sender_entry = e2,
        fl_recipient_entry = m, fl_pend_msg_entry = d\<rparr>"
      using q(1,2) a m e2 msg_ok_query [OF d] by (simp add: flush_ok_def ud_ok_def)
    moreover have "run_state (pend_body f) w = ((None, \<lparr>fl_send_msg_request = ?q, fl_send_msg_ack_request = ?a,
        fl_sender_entry = e2, fl_recipient_entry = m, fl_pend_msg_entry = d\<rparr>), ack_world ?s i (del_msg u i ?w1))"
      using send(1) [OF that] del ack(1) by (simp add: run)
    ultimately show ?thesis by blast
  qed
  show "\<exists>f2. run_state (pend_body f) w = ((Some 2, f2),
      put_ud u (offline m) (w\<lparr>fds := fd_add DNew (fds w), err_no := Some ECONNREFUSED\<rparr>))"
    if "\<not> reachable w m"
  proof -
    let ?v = "w\<lparr>fds := fd_add DNew (fds w), err_no := Some ECONNREFUSED\<rparr>"
    have "run_state (db_io_op_usr_ent (offline m) MODIFY) ?v = ((DBMS_SUCCESS, offline m), put_ud u (offline m) ?v)"
      using assms(1-3) offline_simps(1) [OF m assms(2)] by (intro run_modify_ud) simp_all
    with send(2) [OF that] show ?thesis by (simp add: run offline_def [symmetric])
  qed
qed

subsection \<open>The loop\<close>

definition pending_ids :: "world \<Rightarrow> string \<Rightarrow> u32 set" where
  "pending_ids w u = {i. pend_of w u i \<noteq> None}"

lemma pending_ids_empty: "pending_ids w u = {} \<longleftrightarrow> (\<forall>i. pend_of w u i = None)"
  by (simp add: pending_ids_def)

lemma pend_loop_done:
  assumes "db_inv w" "user_ok u" "ud_of w u = Some m" "flush_ok u f" "pending_ids w u = {}"
  shows "pend_loop f w = Some (0, w\<lparr>err_no := None\<rparr>)"
proof -
  have "pend_query u (fl_pend_msg_entry f)" using assms(4) by (simp add: flush_ok_def)
  then show ?thesis
    using run_get_pend_msg(1) [OF assms(1-3)] assms(5) reg_codes
    by (simp add: pend_loop.simps [of f w] pending_ids_empty SRV_SUCCESS_def err_defs)
qed

lemma next_pending:
  assumes "db_inv w" "user_ok u" "ud_of w u = Some m" "flush_ok u f" "pending_ids w u \<noteq> {}"
  obtains i d where "pend_of w u i = Some d" "flush_ok u (f\<lparr>fl_pend_msg_entry := d\<rparr>)"
    "run_state (db_get_pend_msg (fl_pend_msg_entry f)) w = ((DBMS_SUCCESS, d), w\<lparr>err_no := None\<rparr>)"
proof -
  have q: "pend_query u (fl_pend_msg_entry f)" using assms(4) by (simp add: flush_ok_def)
  from assms(5) obtain j where "pend_of w u j \<noteq> None" by (auto simp: pending_ids_def)
  from run_get_pend_msg(2) [OF assms(1-3) q this] obtain i d where
    i: "pend_of w u i = Some d"
    "run_state (db_get_pend_msg (fl_pend_msg_entry f)) w = ((DBMS_SUCCESS, d), w\<lparr>err_no := None\<rparr>)"
    by blast
  have "flush_ok u (f\<lparr>fl_pend_msg_entry := d\<rparr>)"
    using assms(4) msg_ok_query [OF pend_of_fs(2) [OF assms(1-3) i(1)]] by (simp add: flush_ok_def)
  with i that show thesis by blast
qed

text \<open>A user that can be reached gets every pending message, each once, and none is left.\<close>

lemma pend_loop_flush:
  assumes "db_inv w" "user_ok u" "ud_of w u = Some m" "flush_ok u f" "reachable w m"
  shows "\<exists>w2 tr ids. pend_loop f w = Some (0, w2) \<and> db_inv w2 \<and> ud_of w2 = ud_of w \<and>
    pend_of w2 = (pend_of w)(u := (\<lambda>_. None)) \<and> distinct ids \<and> set ids = pending_ids w u \<and>
    trace w2 = trace w @ tr \<and> deliveries tr = map (\<lambda>i. delivery m (the (pend_of w u i)) i) ids"
  using assms
proof (induction "card (pending_ids w u)" arbitrary: w f)
  case 0
  then have none: "pending_ids w u = {}" by simp
  then have "pend_of w = (pend_of w)(u := (\<lambda>_. None))" by (auto simp: pending_ids_empty fun_eq_iff)
  with none pend_loop_done [OF 0(2-5) none] 0(2) show ?case
    by (intro exI [of _ "w\<lparr>err_no := None\<rparr>"] exI [of _ "[]"]) simp
next
  case (Suc k)
  then have "pending_ids w u \<noteq> {}" by auto
  from next_pending [OF Suc.prems(1-4) this] obtain i d where
    i: "pend_of w u i = Some d" "flush_ok u (f\<lparr>fl_pend_msg_entry := d\<rparr>)"
    "run_state (db_get_pend_msg (fl_pend_msg_entry f)) w = ((DBMS_SUCCESS, d), w\<lparr>err_no := None\<rparr>)" .
  let ?s = "cstr ms_sender d" and ?w0 = "w\<lparr>err_no := None\<rparr>"
  let ?ev = "message_events (fresh_fd (fds w)) m ?s i (cstr ms_content d)"
  have w0: "db_inv ?w0" "ud_of ?w0 u = Some m" "pend_of ?w0 u i = Some d" "reachable ?w0 m"
    using Suc.prems i(1) by simp_all
  from run_pend_body(1) [OF w0(1) Suc.prems(2) w0(2) i(2) w0(3) _ w0(4)] obtain l f2 where
    f2: "flush_ok u f2" and body: "run_state (pend_body (f\<lparr>fl_pend_msg_entry := d\<rparr>)) ?w0 = ((None, f2),
      ack_world ?s i (del_msg u i (?w0\<lparr>trace := trace w @ ?ev @ [EvPrint l]\<rparr>)))" by auto
  let ?w1 = "?w0\<lparr>trace := trace w @ ?ev @ [EvPrint l]\<rparr>"
  let ?w2 = "ack_world ?s i (del_msg u i ?w1)"
  have "db_inv (del_msg u i ?w1)"
    using del_msg_inv [of ?w1 u m i d] w0 Suc.prems(2) by simp
  then have w2: "db_inv ?w2" "ud_of ?w2 u = Some m" "reachable ?w2 m" "ud_of ?w2 = ud_of w"
    "pend_of ?w2 = (pend_of w)(u := (pend_of w u)(i := None))"
    using Suc.prems by simp_all
  obtain tr2 where tr2: "trace ?w2 = trace (del_msg u i ?w1) @ tr2" "\<And>es. deliveries (tr2 @ es) = deliveries es"
    using ack_trace [of ?s i "del_msg u i ?w1"] by blast
  have ids2: "pending_ids ?w2 u = pending_ids w u - {i}" by (auto simp: pending_ids_def w2(5))
  have "i \<in> pending_ids w u" using i(1) by (simp add: pending_ids_def)
  then have "k = card (pending_ids ?w2 u)" using Suc.hyps(2) by (simp add: ids2)
  from Suc.hyps(1) [OF this w2(1) Suc.prems(2) w2(2) f2 w2(3)] obtain w3 tr3 ids where
    IH: "pend_loop f2 ?w2 = Some (0, w3)" "db_inv w3" "ud_of w3 = ud_of ?w2"
    "pend_of w3 = (pend_of ?w2)(u := (\<lambda>_. None))" "distinct ids" "set ids = pending_ids ?w2 u"
    "trace w3 = trace ?w2 @ tr3" "deliveries tr3 = map (\<lambda>j. delivery m (the (pend_of ?w2 u j)) j) ids"
    by blast
  have loop: "pend_loop f w = Some (0, w3)"
    using i(3) body IH(1) by (simp add: pend_loop.simps [of f w])
  have tr: "trace w3 = trace w @ (?ev @ EvPrint l # tr2 @ tr3)"
    using IH(7) tr2(1) by simp
  have old: "map (\<lambda>j. delivery m (the (pend_of ?w2 u j)) j) ids = map (\<lambda>j. delivery m (the (pend_of w u j)) j) ids"
    using IH(6) ids2 by (intro map_cong refl) (auto simp: w2(5))
  have del: "deliveries (?ev @ EvPrint l # tr2 @ tr3) =
      map (\<lambda>j. delivery m (the (pend_of w u j)) j) (i # ids)"
    using IH(8) tr2(2) old i(1) by simp
  have "pend_of w3 = (pend_of w)(u := (\<lambda>_. None))" using IH(4) w2(5) by (simp add: fun_eq_iff)
  moreover have "distinct (i # ids)" "set (i # ids) = pending_ids w u"
    using IH(5,6) ids2 \<open>i \<in> pending_ids w u\<close> by auto
  moreover have "ud_of w3 = ud_of w" using IH(3) w2(4) by simp
  ultimately show ?case using loop IH(2) tr del by blast
qed

text \<open>A user out of reach keeps all of them, and is set to disconnected.\<close>

lemma pend_loop_unreachable:
  assumes "db_inv w" "user_ok u" "ud_of w u = Some m" "flush_ok u f" "\<not> reachable w m"
    and "pending_ids w u \<noteq> {}"
  shows "\<exists>w2. pend_loop f w = Some (2, w2) \<and> db_inv w2 \<and> ud_of w2 = (ud_of w)(u \<mapsto> offline m) \<and>
    pend_of w2 = pend_of w \<and> trace w2 = trace w"
proof -
  from next_pending [OF assms(1-4,6)] obtain i d where
    i: "pend_of w u i = Some d" "flush_ok u (f\<lparr>fl_pend_msg_entry := d\<rparr>)"
    "run_state (db_get_pend_msg (fl_pend_msg_entry f)) w = ((DBMS_SUCCESS, d), w\<lparr>err_no := None\<rparr>)" .
  let ?w0 = "w\<lparr>err_no := None\<rparr>"
  let ?v = "?w0\<lparr>fds := fd_add DNew (fds w), err_no := Some ECONNREFUSED\<rparr>"
  have w0: "db_inv ?w0" "ud_of ?w0 u = Some m" "pend_of ?w0 u i = Some d" "\<not> reachable ?w0 m"
    using assms i(1) by simp_all
  from run_pend_body(2) [OF w0(1) assms(2) w0(2) i(2) w0(3) _ w0(4)] obtain f2 where
    "run_state (pend_body (f\<lparr>fl_pend_msg_entry := d\<rparr>)) ?w0 = ((Some 2, f2), put_ud u (offline m) ?v)"
    by auto
  then have "pend_loop f w = Some (2, put_ud u (offline m) ?v)"
    using i(3) by (simp add: pend_loop.simps [of f w])
  moreover have "db_inv (put_ud u (offline m) ?v)"
    using assms(1-3) offline_simps(1) [OF ud_ofD(2) [OF assms(1-3)] assms(2)]
    by (intro put_ud_inv [where m = m]) simp_all
  ultimately show ?thesis by (intro exI [of _ "put_ud u (offline m) ?v"]) simp
qed

subsection \<open>\<^verbatim>\<open>aux_connect_send_pend_msgs\<close>\<close>

definition flush_start :: "junk \<Rightarrow> mem \<Rightarrow> mem \<Rightarrow> flush" where
  "flush_start jk m e = \<lparr>fl_send_msg_request = strcpy rq_op_code SEND_MESSAGE (jk_send_msg_request jk),
     fl_send_msg_ack_request = strcpy rq_op_code SEND_MESS_ACK (jk_send_msg_ack_request jk),
     fl_sender_entry = set_type ENT_TYPE_UD (jk_sender_entry jk),
     fl_recipient_entry = m, fl_pend_msg_entry = e\<rparr>"

lemma flush_start_ok:
  assumes "junk_ok jk" "ud_ok u m" "pend_query u e"
  shows "flush_ok u (flush_start jk m e)"
  using assms by (simp add: flush_ok_def flush_start_def junk_ok_def rq_defs mem_simps)

lemma flush_query_ok:
  assumes "junk_ok jk" "user_ok u"
  shows "ud_ok u (strcpy en_username u (set_type ENT_TYPE_UD (jk_recipient_entry jk)))"
  using assms user_okD [OF assms(2)] by (simp add: junk_ok_def ud_ok_def en_defs mem_simps)

lemma run_flush:
  assumes "db_inv w" "user_ok u" "junk_ok jk" "pend_query u e"
  shows "ud_of w u = None \<Longrightarrow>
      aux_connect_send_pend_msgs jk e w = Some (DBMS_ERR_ANY, w\<lparr>err_no := Some ENOENT\<rparr>)"
    and "ud_of w u = Some m \<Longrightarrow> aux_connect_send_pend_msgs jk e w = pend_loop (flush_start jk m e) w"
proof -
  have e: "cstr en_username e = u" using assms(4) by (simp add: pend_query_def)
  note q = flush_query_ok [OF assms(3,2)]
  note run = aux_connect_send_pend_msgs_def Let_def e
  show "aux_connect_send_pend_msgs jk e w = Some (DBMS_ERR_ANY, w\<lparr>err_no := Some ENOENT\<rparr>)"
    if "ud_of w u = None"
    using run_ud_absent [OF assms(1,2) that q, of READ] by (simp add: run err_defs)
  show "aux_connect_send_pend_msgs jk e w = pend_loop (flush_start jk m e) w" if "ud_of w u = Some m"
    using run_read_ud [OF assms(1,2) that q] by (simp add: run flush_start_def)
qed

text \<open>What the delivery of the pending messages does to a user whose data is \<open>m\<close>.\<close>

definition flushed :: "string \<Rightarrow> mem \<Rightarrow> world \<Rightarrow> world \<Rightarrow> bool" where
  "flushed u m w w2 \<longleftrightarrow> db_inv w2 \<and>
     (if reachable w m then ud_of w2 = ud_of w \<and> pend_of w2 = (pend_of w)(u := (\<lambda>_. None)) \<and>
        (\<exists>tr ids. distinct ids \<and> set ids = pending_ids w u \<and> trace w2 = trace w @ tr \<and>
           deliveries tr = map (\<lambda>i. delivery m (the (pend_of w u i)) i) ids)
      else pend_of w2 = pend_of w \<and> trace w2 = trace w \<and>
        ud_of w2 = (if pending_ids w u = {} then ud_of w else (ud_of w)(u \<mapsto> offline m)))"

lemma flush_outcome:
  assumes "db_inv w" "user_ok u" "junk_ok jk" "pend_query u e" "ud_of w u = Some m"
  shows "\<exists>r w2. aux_connect_send_pend_msgs jk e w = Some (r, w2) \<and> flushed u m w w2"
proof -
  have ok: "flush_ok u (flush_start jk m e)"
    using flush_start_ok [OF assms(3) ud_ofD(2) [OF assms(1,2,5)] assms(4)] .
  note run = run_flush(2) [OF assms]
  consider "reachable w m" | "\<not> reachable w m" "pending_ids w u = {}" | "\<not> reachable w m" "pending_ids w u \<noteq> {}"
    by blast
  then show ?thesis
  proof cases
    case 1
    from pend_loop_flush [OF assms(1,2,5) ok 1] obtain w2 tr ids where
      w2: "pend_loop (flush_start jk m e) w = Some (0, w2)" "db_inv w2" "ud_of w2 = ud_of w"
      "pend_of w2 = (pend_of w)(u := (\<lambda>_. None))" "distinct ids" "set ids = pending_ids w u"
      "trace w2 = trace w @ tr" "deliveries tr = map (\<lambda>i. delivery m (the (pend_of w u i)) i) ids" by blast
    then have "flushed u m w w2" using 1 unfolding flushed_def by auto
    with run w2(1) show ?thesis by auto
  next
    case 2
    with pend_loop_done [OF assms(1,2,5) ok 2(2)] run assms(1) show ?thesis
      by (simp add: flushed_def)
  next
    case 3
    from pend_loop_unreachable [OF assms(1,2,5) ok 3] obtain w2 where
      "pend_loop (flush_start jk m e) w = Some (2, w2)" "db_inv w2" "ud_of w2 = (ud_of w)(u \<mapsto> offline m)"
      "pend_of w2 = pend_of w" "trace w2 = trace w" by blast
    with 3 run show ?thesis by (simp add: flushed_def)
  qed
qed

subsection \<open>The reply of CONNECT\<close>

definition connected :: "mem \<Rightarrow> u32 \<Rightarrow> u16 \<Rightarrow> mem" where
  "connected m ip pt = set_u32 ud_ip ip (set_u16 ud_port pt (set_u8 ud_status STATUS_CN m))"

lemma connected_ok:
  assumes "ud_ok u m" "user_ok u"
  shows "ud_ok u (connected m ip pt)" "get_u8 ud_status (connected m ip pt) = STATUS_CN"
    "get_u32 ud_ip (connected m ip pt) = ip" "get_u16 ud_port (connected m ip pt) = pt"
    "get_u32 ud_last_msg_id (connected m ip pt) = get_u32 ud_last_msg_id m"
proof -
  show "ud_ok u (connected m ip pt)"
    using assms by (simp add: connected_def ud_ok_set en_defs)
  have "length m = sizeof_entry" using assms by (simp add: ud_ok_def)
  then show "get_u8 ud_status (connected m ip pt) = STATUS_CN"
    "get_u32 ud_ip (connected m ip pt) = ip" "get_u16 ud_port (connected m ip pt) = pt"
    "get_u32 ud_last_msg_id (connected m ip pt) = get_u32 ud_last_msg_id m"
    by (simp_all add: connected_def en_defs mem_simps)
qed

definition connect_request :: "string \<Rightarrow> string \<Rightarrow> mem \<Rightarrow> mem" where
  "connect_request u p q = strcpy rq_client_port (take 255 p) (strcpy rq_username u q)"

lemma recv_connect:
  assumes "db_inv w" "user_ok u" "client_at w n [u, p] rest ip pt" "length q = sizeof_request"
  shows "\<exists>w2. run_state (recv_string (int n) rq_username q) w = ((0, strcpy rq_username u q), w2) \<and>
      run_state (recv_string (int n) rq_client_port (strcpy rq_username u q)) w2 =
        ((0, connect_request u p q), received n rest ip pt w)"
    and "cstr rq_username (connect_request u p q) = u" "cstr rq_client_port (connect_request u p q) = take 255 p"
    "length (connect_request u p q) = sizeof_request"
proof -
  let ?w2 = "received n (p @ NUL # rest) ip pt w"
  have "wire_string p" using assms(3) by (simp add: client_at_def)
  then have p: "c_string (take 255 p)" by (auto simp: wire_string_def c_string_def dest: in_set_takeD)
  note r1 = recv_username [OF assms]
  have c2: "client_at ?w2 n [p] rest ip pt" using client_received [OF assms(3)] by simp
  have "run_state (recv_string (int n) rq_client_port (strcpy rq_username u q)) ?w2 =
      ((0, connect_request u p q), received n rest ip pt w)"
    using run_recv_line [OF _ c2, of rq_client_port "strcpy rq_username u q"] assms(1) r1(3)
    by (simp add: connect_request_def received_def)
  with r1(1) show "\<exists>w2. run_state (recv_string (int n) rq_username q) w = ((0, strcpy rq_username u q), w2) \<and>
      run_state (recv_string (int n) rq_client_port (strcpy rq_username u q)) w2 =
        ((0, connect_request u p q), received n rest ip pt w)" by simp
  show "cstr rq_username (connect_request u p q) = u" "cstr rq_client_port (connect_request u p q) = take 255 p"
    "length (connect_request u p q) = sizeof_request"
    using assms(4) p user_okD [OF assms(2)] by (simp_all add: connect_request_def rq_defs mem_simps)
qed

text \<open>A port as the client sends it: its decimal digits.\<close>

definition port_line :: "u16 \<Rightarrow> string" where
  "port_line pt = show_nat (unat pt)"

lemma unat_u16_bound: "unat (pt :: u16) < 65536"
  using unsigned_less [of pt, where ?'a = nat] by simp

lemma port_cast: "ucast (ucast (pt :: u16) :: u32) = pt"
  by transfer simp

lemma port_line_simps:
  "take 255 (port_line pt) = port_line pt"
  "run_state (str_to_num (port_line pt) INT_TYPE) w = ((0, Some (ucast pt)), w\<lparr>err_no := None\<rparr>)"
proof -
  have "length (show_nat (unat pt)) \<le> 5"
    using unat_u16_bound [of pt] by (intro show_nat_length_bound) simp_all
  then show "take 255 (port_line pt) = port_line pt" by (simp add: port_line_def)
  have "unat pt < 2 ^ 63" using unat_u16_bound [of pt] by simp
  then show "run_state (str_to_num (port_line pt) INT_TYPE) w = ((0, Some (ucast pt)), w\<lparr>err_no := None\<rparr>)"
    using run_str_to_num_show(2) [of "unat pt" w] by (simp add: port_line_def)
qed

lemma run_connect_update:
  assumes "db_inv w" "user_ok u" "ud_of w u = Some m" "client_at w n [] rest ip pt"
    and "cstr rq_client_port q = port_line lp"
  shows "jk_reply jk \<noteq> SRV_ERR_CN_ANY \<Longrightarrow> run_state (connect_update jk (int n) q m) w =
      ((SRV_SUCCESS, connected m ip lp), put_ud u (connected m ip lp) (w\<lparr>err_no := None\<rparr>))"
    and "jk_reply jk = SRV_ERR_CN_ANY \<Longrightarrow> run_state (connect_update jk (int n) q m) w =
      ((SRV_ERR_CN_ANY, m), w\<lparr>err_no := None\<rparr>)"
proof -
  let ?w = "w\<lparr>err_no := None\<rparr>"
  have w: "db_inv ?w" "ud_of ?w u = Some m" using assms by simp_all
  have peer: "run_state (sys_getpeername (int n)) ?w = ((0, ip, pt), ?w)"
    using run_getpeername [of ?w n rest ip pt] assms(4) db_inv_quiet [OF w(1)] by (simp add: client_at_def)
  have m: "ud_ok u m" by (rule ud_ofD(2) [OF assms(1-3)])
  note io = run_modify_ud [OF w(1) assms(2) w(2) connected_ok(1) [OF m assms(2)]]
  note run = connect_update_def assms(5) port_line_simps(2) peer Let_def port_cast
  show "run_state (connect_update jk (int n) q m) w =
      ((SRV_SUCCESS, connected m ip lp), put_ud u (connected m ip lp) ?w)" if "jk_reply jk \<noteq> SRV_ERR_CN_ANY"
    using that io [of ip lp] by (simp add: run connected_def)
  show "run_state (connect_update jk (int n) q m) w = ((SRV_ERR_CN_ANY, m), ?w)"
    if "jk_reply jk = SRV_ERR_CN_ANY"
    using that by (simp add: run)
qed

definition pend_start :: "junk \<Rightarrow> string \<Rightarrow> mem" where
  "pend_start jk u = strcpy en_username u (set_type ENT_TYPE_P_MSG (jk_pend_msg_entry jk))"

lemma pend_start_ok: "junk_ok jk \<Longrightarrow> user_ok u \<Longrightarrow> pend_query u (pend_start jk u)"
  using user_okD [of u] by (simp add: pend_start_def pend_query_def junk_ok_def en_defs mem_simps)

text \<open>CONNECT is the reply, then the pending messages.\<close>

lemma run_srv_connect:
  assumes "cstr rq_username q2 = u" "run_state (srv_connect_reply jk s q) w = ((True, q2), w1)"
    and "aux_connect_send_pend_msgs jk (pend_start jk u) w1 = Some (r, w2)"
  shows "srv_connect jk s q w = Some (q2, w2)"
  using assms by (simp add: srv_connect_def pend_start_def Let_def)

definition connect_reply_trace :: "nat \<Rightarrow> string \<Rightarrow> u8 \<Rightarrow> event list" where
  "connect_reply_trace n u r = [EvPrint (result_line CONNECT u r), reply_ev n r]"

lemma run_connect_reply:
  assumes "db_inv w" "user_ok u" "client_at w n [u, port_line lp] rest ip pt"
    and "length q = sizeof_request" "junk_ok jk"
  defines "w1 \<equiv> received n rest ip pt w" and "q2 \<equiv> connect_request u (port_line lp) q"
  shows "ud_of w u = None \<Longrightarrow> run_state (srv_connect_reply jk (int n) q) w = ((True, q2),
      w1\<lparr>err_no := Some ENOENT, trace := trace w @ connect_reply_trace n u SRV_ERR_CN_USR_NOT_EXISTS\<rparr>)"
    and "ud_of w u = Some m \<Longrightarrow> get_u8 ud_status m = STATUS_CN \<Longrightarrow>
      run_state (srv_connect_reply jk (int n) q) w = ((True, q2),
        w1\<lparr>trace := trace w @ connect_reply_trace n u SRV_ERR_CN_USR_ALREADY_CN\<rparr>)"
    and "ud_of w u = Some m \<Longrightarrow> get_u8 ud_status m \<noteq> STATUS_CN \<Longrightarrow> jk_reply jk \<noteq> SRV_ERR_CN_ANY \<Longrightarrow>
      run_state (srv_connect_reply jk (int n) q) w = ((True, q2),
        (put_ud u (connected m ip lp) w1)\<lparr>trace := trace w @ connect_reply_trace n u SRV_SUCCESS\<rparr>)"
    and "ud_of w u = Some m \<Longrightarrow> get_u8 ud_status m \<noteq> STATUS_CN \<Longrightarrow> jk_reply jk = SRV_ERR_CN_ANY \<Longrightarrow>
      run_state (srv_connect_reply jk (int n) q) w = ((True, q2),
        w1\<lparr>trace := trace w @ connect_reply_trace n u SRV_ERR_CN_ANY\<rparr>)"
proof -
  note recv = recv_connect [OF assms(1-4), folded q2_def w1_def]
  obtain w2 where r: "run_state (recv_string (int n) rq_username q) w = ((0, strcpy rq_username u q), w2)"
    "run_state (recv_string (int n) rq_client_port (strcpy rq_username u q)) w2 = ((0, q2), w1)"
    using recv(1) by blast
  have w1: "db_inv w1" "ud_of w1 = ud_of w" "sock_at w1 n" "trace w1 = trace w" "w1\<lparr>err_no := None\<rparr> = w1"
    using assms(1) client_sock [OF assms(3)] by (simp_all add: w1_def) (simp add: received_def)
  have c1: "client_at w1 n [] rest ip pt"
    using assms(3) by (simp add: client_at_def w1_def received_def map_of_fd_set)
  have jk: "ud_ok u (ud_query (jk_entry jk) u)"
    using assms(2,5) by (simp add: ud_query_ok junk_ok_def)
  have port: "cstr rq_client_port q2 = port_line lp" using recv(3) by (simp add: port_line_simps)
  note run = srv_connect_reply_def r recv(2) Let_def ud_query_def [symmetric] run_printf run_reply
    connect_reply_trace_def
  show "run_state (srv_connect_reply jk (int n) q) w = ((True, q2),
      w1\<lparr>err_no := Some ENOENT, trace := trace w @ connect_reply_trace n u SRV_ERR_CN_USR_NOT_EXISTS\<rparr>)"
    if "ud_of w u = None"
    using run_ud_absent [OF w1(1) assms(2) _ jk, of READ] w1 that by (simp add: run)
  show "run_state (srv_connect_reply jk (int n) q) w = ((True, q2),
        w1\<lparr>trace := trace w @ connect_reply_trace n u SRV_ERR_CN_USR_ALREADY_CN\<rparr>)"
    if "ud_of w u = Some m" "get_u8 ud_status m = STATUS_CN"
    using run_read_ud [OF w1(1) assms(2) _ jk] w1 that by (simp add: run err_defs)
  show "run_state (srv_connect_reply jk (int n) q) w = ((True, q2),
        (put_ud u (connected m ip lp) w1)\<lparr>trace := trace w @ connect_reply_trace n u SRV_SUCCESS\<rparr>)"
    if some: "ud_of w u = Some m" "get_u8 ud_status m \<noteq> STATUS_CN" "jk_reply jk \<noteq> SRV_ERR_CN_ANY"
  proof -
    have m: "ud_of w1 u = Some m" using w1 some by simp
    have "db_inv (put_ud u (connected m ip lp) w1)"
      using connected_ok(1) ud_ofD(2) [OF w1(1) assms(2) m] assms(2) by (intro put_ud_inv [OF w1(1) assms(2) m])
    with run_read_ud [OF w1(1) assms(2) m jk] run_connect_update(1) [OF w1(1) assms(2) m c1 port some(3)] w1 some
    show ?thesis by (simp add: run err_defs)
  qed
  show "run_state (srv_connect_reply jk (int n) q) w = ((True, q2),
        w1\<lparr>trace := trace w @ connect_reply_trace n u SRV_ERR_CN_ANY\<rparr>)"
    if some: "ud_of w u = Some m" "get_u8 ud_status m \<noteq> STATUS_CN" "jk_reply jk = SRV_ERR_CN_ANY"
  proof -
    have m: "ud_of w1 u = Some m" using w1 some by simp
    from run_read_ud [OF w1(1) assms(2) m jk] run_connect_update(2) [OF w1(1) assms(2) m c1 port some(3)] w1 some
    show ?thesis by (simp add: run err_defs srv_defs)
  qed
qed

end
