(* ===== verification/ChatSpec.thy ===== *)
theory ChatSpec
  imports Server SendLaws ConnectLaws
begin

text \<open>
  What the server promises, without files, sockets and memory: accounts by user name and
  pending messages by number. \<open>chat_step\<close> is one request of a client; \<open>chat_of\<close> reads this
  state off a world.
\<close>

record account =
  ac_status :: u8
  ac_ip :: u32
  ac_port :: u16
  ac_last :: u32

type_synonym chat = "(string \<Rightarrow> account option) \<times> (string \<Rightarrow> u32 \<Rightarrow> (string \<times> string) option)"

datatype client_req = Register string | Unregister string | Connect string u16 | Disconnect string
  | Send string string string

text \<open>The lines a client sends, and requests with ordinary user names.\<close>

fun lines_of :: "client_req \<Rightarrow> string list" where
  "lines_of (Register u) = [REGISTER, u]"
| "lines_of (Unregister u) = [UNREGISTER, u]"
| "lines_of (Connect u pt) = [CONNECT, u, port_line pt]"
| "lines_of (Disconnect u) = [DISCONNECT, u]"
| "lines_of (Send s u c) = [SEND, s, u, c]"

fun req_ok :: "client_req \<Rightarrow> bool" where
  "req_ok (Register u) = user_ok u"
| "req_ok (Unregister u) = user_ok u"
| "req_ok (Connect u pt) = user_ok u"
| "req_ok (Disconnect u) = user_ok u"
| "req_ok (Send s u c) \<longleftrightarrow> user_ok s \<and> user_ok u \<and> wire_string c"

text \<open>Delivery of what is pending for a user: all of it, or none if the user is out of reach.\<close>

definition chat_flush :: "(u32 \<Rightarrow> u16 \<Rightarrow> bool) \<Rightarrow> string \<Rightarrow> chat \<Rightarrow> chat" where
  "chat_flush rch u = (\<lambda>(acc, pend). case acc u of
     None \<Rightarrow> (acc, pend)
   | Some a \<Rightarrow>
       if rch (ac_ip a) (ac_port a) then (acc, pend(u := (\<lambda>_. None)))
       else if pend u = (\<lambda>_. None) then (acc, pend)
       else (acc(u \<mapsto> a\<lparr>ac_status := STATUS_DCN\<rparr>), pend))"

text \<open>One request from the address \<open>ip\<close>; \<open>a0\<close> is the account of a new user.\<close>

fun chat_step :: "(u32 \<Rightarrow> u16 \<Rightarrow> bool) \<Rightarrow> account \<Rightarrow> u32 \<Rightarrow> client_req \<Rightarrow> chat \<Rightarrow> u8 \<times> chat" where
  "chat_step rch a0 ip (Register u) (acc, pend) =
     (if acc u = None then (0, (acc(u \<mapsto> a0), pend)) else (1, (acc, pend)))"
| "chat_step rch a0 ip (Unregister u) (acc, pend) =
     (if acc u = None then (1, (acc, pend)) else (0, (acc(u := None), pend(u := (\<lambda>_. None)))))"
| "chat_step rch a0 ip (Connect u pt) (acc, pend) = (case acc u of
     None \<Rightarrow> (1, (acc, pend))
   | Some a \<Rightarrow>
       if ac_status a = STATUS_CN then (2, chat_flush rch u (acc, pend))
       else (0, chat_flush rch u (acc(u \<mapsto> a\<lparr>ac_status := STATUS_CN, ac_ip := ip, ac_port := pt\<rparr>), pend)))"
| "chat_step rch a0 ip (Disconnect u) (acc, pend) = (case acc u of
     None \<Rightarrow> (1, (acc, pend))
   | Some a \<Rightarrow>
       if ac_status a = STATUS_DCN then (2, (acc, pend))
       else (0, (acc(u \<mapsto> a\<lparr>ac_status := STATUS_DCN, ac_ip := 0, ac_port := 0\<rparr>), pend)))"
| "chat_step rch a0 ip (Send s u c) (acc, pend) = (case acc u of
     None \<Rightarrow> (1, (acc, pend))
   | Some a \<Rightarrow>
       if acc s = None then (1, (acc, pend))
       else let i = next_msg_id (ac_last a); b = a\<lparr>ac_last := i\<rparr> in
         if ac_status a \<noteq> STATUS_DCN \<and> (ac_status a = STATUS_CN \<longrightarrow> rch (ac_ip a) (ac_port a))
         then (0, (acc(u \<mapsto> b), pend))
         else let acc2 = acc(u \<mapsto> b\<lparr>ac_status := STATUS_DCN\<rparr>) in
           if pend u i = None then (0, (acc2, pend(u := (pend u)(i \<mapsto> (s, take 255 c)))))
           else (2, (acc2, pend)))"

definition account_of :: "mem \<Rightarrow> account" where
  "account_of m = \<lparr>ac_status = get_u8 ud_status m, ac_ip = get_u32 ud_ip m,
     ac_port = get_u16 ud_port m, ac_last = get_u32 ud_last_msg_id m\<rparr>"

definition message_of :: "mem \<Rightarrow> string \<times> string" where
  "message_of d = (cstr ms_sender d, cstr ms_content d)"

definition chat_of :: "world \<Rightarrow> chat" where
  "chat_of w = (\<lambda>u. map_option account_of (ud_of w u), \<lambda>u i. map_option message_of (pend_of w u i))"

lemma chat_of_upd:
  "ud_of w2 = (ud_of w)(u := x) \<Longrightarrow> pend_of w2 = pend_of w \<Longrightarrow>
   chat_of w2 = ((fst (chat_of w))(u := map_option account_of x), snd (chat_of w))"
  by (simp add: chat_of_def fun_eq_iff)

text \<open>Uninitialised variables that hold zero where the code reads them.\<close>

definition junk_zero :: "junk \<Rightarrow> bool" where
  "junk_zero jk \<longleftrightarrow> jk_reply jk \<noteq> SRV_ERR_CN_ANY \<and> jk_send_msg_reply jk = SRV_SUCCESS"

lemma account_simps:
  assumes "ud_ok u m" "user_ok u"
  shows "account_of (bump m) = (account_of m)\<lparr>ac_last := next_msg_id (get_u32 ud_last_msg_id m)\<rparr>"
    "account_of (offline m) = (account_of m)\<lparr>ac_status := STATUS_DCN\<rparr>"
    "account_of (connected m ip pt) = (account_of m)\<lparr>ac_status := STATUS_CN, ac_ip := ip, ac_port := pt\<rparr>"
    "account_of (disconnected m) = (account_of m)\<lparr>ac_status := STATUS_DCN, ac_ip := 0, ac_port := 0\<rparr>"
proof -
  have "length m = sizeof_entry" using assms by (simp add: ud_ok_def)
  then show "account_of (bump m) = (account_of m)\<lparr>ac_last := next_msg_id (get_u32 ud_last_msg_id m)\<rparr>"
    "account_of (offline m) = (account_of m)\<lparr>ac_status := STATUS_DCN\<rparr>"
    "account_of (connected m ip pt) = (account_of m)\<lparr>ac_status := STATUS_CN, ac_ip := ip, ac_port := pt\<rparr>"
    "account_of (disconnected m) = (account_of m)\<lparr>ac_status := STATUS_DCN, ac_ip := 0, ac_port := 0\<rparr>"
    by (simp_all add: account_of_def bump_def offline_def connected_def disconnected_def en_defs mem_simps)
qed

end
