(* ===== verification/ChatRefine.thy ===== *)
theory ChatRefine
  imports ChatSpec
begin

text \<open>
  Every service implements its step of \<open>chat_step\<close>, the dispatcher of the service thread
  implements the choice between them, and a server that serves one connection after the other
  implements a run of the specification.
\<close>

definition fresh_account :: "junk \<Rightarrow> account" where
  "fresh_account jk = \<lparr>ac_status = get_u8 ud_status (jk_entry jk), ac_ip = get_u32 ud_ip (jk_entry jk),
     ac_port = get_u16 ud_port (jk_entry jk), ac_last = 0\<rparr>"

lemma account_of_fresh:
  assumes "junk_ok jk" "user_ok u"
  shows "account_of (fresh_ud jk u) = fresh_account jk"
  using assms user_okD [OF assms(2)]
  by (simp add: account_of_def fresh_account_def fresh_ud_def ud_query_def junk_ok_def en_defs mem_simps)

text \<open>The world \<open>w2\<close> after a request: invariant, abstract state and reply.\<close>

definition chat_result :: "nat \<Rightarrow> world \<Rightarrow> u8 \<times> chat \<Rightarrow> world \<Rightarrow> bool" where
  "chat_result n w x w2 \<longleftrightarrow> db_inv w2 \<and> chat_of w2 = snd x \<and>
     (\<exists>tr. trace w2 = trace w @ tr \<and> reply_ev n (fst x) \<in> set tr)"

lemma chat_resultI:
  "db_inv w2 \<Longrightarrow> chat_of w2 = s \<Longrightarrow> trace w2 = trace w @ tr \<Longrightarrow> reply_ev n c \<in> set tr \<Longrightarrow>
   chat_result n w (c, s) w2"
  by (auto simp: chat_result_def)

lemma chat_of_update [simp]:
  "chat_of (w\<lparr>trace := t\<rparr>) = chat_of w" "chat_of (w\<lparr>err_no := e\<rparr>) = chat_of w"
  "chat_of (w\<lparr>fds := d\<rparr>) = chat_of w" "chat_of (received n inp ip pt w) = chat_of w"
  "chat_of (send_start n rest ip pt w) = chat_of w" "chat_of (ack_world s i w) = chat_of w"
  by (simp_all add: chat_of_def)

lemma chat_of_lookup:
  "fst (chat_of w) u = map_option account_of (ud_of w u)"
  "snd (chat_of w) u i = map_option message_of (pend_of w u i)"
  by (simp_all add: chat_of_def)

lemma chat_of_put: "chat_of (put_ud u m w) = ((fst (chat_of w))(u \<mapsto> account_of m), snd (chat_of w))"
  by (simp add: chat_of_def fun_eq_iff)

lemma chat_of_add:
  "chat_of (add_msg u i m w) = (fst (chat_of w), (snd (chat_of w))(u := (snd (chat_of w) u)(i \<mapsto> message_of m)))"
  by (simp add: chat_of_def fun_eq_iff)

text \<open>A step from the state read off a world, with that state spelled out.\<close>

lemma chat_step_of:
  assumes "chat_result n w (chat_step rch a0 ip r (\<lambda>u. map_option account_of (ud_of w u),
    \<lambda>u i. map_option message_of (pend_of w u i))) w2"
  shows "chat_result n w (chat_step rch a0 ip r (chat_of w)) w2"
  using assms by (simp add: chat_of_def)

lemma chat_register:
  assumes "db_inv w" "user_ok u" "client_at w n [u] rest ip pt" "length q = sizeof_request" "junk_ok jk"
  shows "\<exists>q2 w2. run_state (srv_register jk (int n) q) w = (q2, w2) \<and>
    chat_result n w (chat_step rch (fresh_account jk) ip (Register u) (chat_of w)) w2"
proof (cases "ud_of w u")
  case None
  let ?v = "received n rest ip pt w"
  let ?w2 = "(created u (fresh_ud jk u) ?v)\<lparr>trace := trace w @
         [EvPrint (result_line REGISTER u SRV_SUCCESS), reply_ev n SRV_SUCCESS]\<rparr>"
  have v: "db_inv ?v" "ud_of ?v u = None" using assms(1) None by simp_all
  have "db_inv ?w2" using created_new(2) [OF v(1) assms(2) v(2) assms(5)] by simp
  moreover have "chat_of ?w2 = ((fst (chat_of w))(u \<mapsto> fresh_account jk), snd (chat_of w))"
    using created_of(1,2) [OF v(1) assms(2) v(2)] account_of_fresh [OF assms(5,2)]
    by (simp add: chat_of_def fun_eq_iff)
  ultimately show ?thesis
    using run_register(1) [OF assms None] None
    by (auto intro!: chat_step_of chat_resultI simp: chat_of_def fun_eq_iff srv_defs)
next
  case (Some m)
  then show ?thesis
    using run_register(2) [OF assms Some] assms(1)
    by (auto intro!: chat_step_of chat_resultI simp: chat_of_def fun_eq_iff srv_defs)
qed

lemma chat_unregister:
  assumes "db_inv w" "user_ok u" "client_at w n [u] rest ip pt" "length q = sizeof_request"
  shows "\<exists>q2 w2. run_state (srv_unregister (int n) q) w = (q2, w2) \<and>
    chat_result n w (chat_step rch a0 ip (Unregister u) (chat_of w)) w2"
proof (cases "ud_of w u")
  case None
  then show ?thesis
    using run_unregister(1) [OF assms None] assms(1)
    by (auto intro!: chat_step_of chat_resultI simp: chat_of_def fun_eq_iff srv_defs)
next
  case (Some m)
  let ?v = "received n rest ip pt w"
  have v: "db_inv ?v" "ud_of ?v u = Some m" using assms(1) Some by simp_all
  have "db_inv (deleted u ?v)" by (rule deleted_inv [OF v(1) assms(2) v(2)])
  moreover have "chat_of (deleted u ?v) = ((fst (chat_of w))(u := None), (snd (chat_of w))(u := (\<lambda>_. None)))"
    by (simp add: chat_of_def fun_eq_iff)
  ultimately show ?thesis
    using run_unregister(2) [OF assms Some] Some
    by (auto intro!: chat_step_of chat_resultI simp: chat_of_def fun_eq_iff srv_defs)
qed

lemma chat_disconnect:
  assumes "db_inv w" "user_ok u" "client_at w n [u] rest ip pt" "length q = sizeof_request" "junk_ok jk"
  shows "\<exists>q2 w2. run_state (srv_disconnect jk (int n) q) w = (q2, w2) \<and>
    chat_result n w (chat_step rch a0 ip (Disconnect u) (chat_of w)) w2"
proof (cases "ud_of w u")
  case None
  then show ?thesis
    using run_disconnect(1) [OF assms None] assms(1)
    by (auto intro!: chat_step_of chat_resultI simp: chat_of_def fun_eq_iff srv_defs)
next
  case (Some m)
  let ?v = "received n rest ip pt w"
  have v: "db_inv ?v" "ud_of ?v u = Some m" using assms(1) Some by simp_all
  have m: "ud_ok u m" by (rule ud_ofD(2) [OF assms(1,2) Some])
  note d = disconnected_ok(1) [OF m assms(2)]
  have inv: "db_inv (put_ud u (disconnected m) ?v)" by (rule put_ud_inv [OF v(1) assms(2) v(2) d])
  have st: "ac_status (account_of m) = get_u8 ud_status m" by (simp add: account_of_def)
  show ?thesis
  proof (cases "get_u8 ud_status m = STATUS_DCN")
    case True
    then show ?thesis
      using run_disconnect(2) [OF assms Some True] assms(1) Some st
      by (auto intro!: chat_step_of chat_resultI simp: chat_of_def fun_eq_iff SRV_ERR_DCN_USR_NOT_CN_def)
  next
    case False
    then show ?thesis
      using run_disconnect(3) [OF assms Some False] inv Some st account_simps(4) [OF m assms(2)]
      by (auto intro!: chat_step_of chat_resultI simp: chat_of_def fun_eq_iff chat_of_put SRV_SUCCESS_def)
  qed
qed

lemma flushed_chat:
  assumes "flushed u m w w2" "db_inv w" "user_ok u" "ud_of w u = Some m"
  shows "db_inv w2" "chat_of w2 = chat_flush (reach w) u (chat_of w)" "\<exists>tr. trace w2 = trace w @ tr"
proof -
  have m: "ud_ok u m" by (rule ud_ofD(2) [OF assms(2-4)])
  have addr: "reachable w m = reach w (ac_ip (account_of m)) (ac_port (account_of m))"
    by (simp add: reachable_def account_of_def)
  have none: "pending_ids w u = {} \<longleftrightarrow> (\<lambda>i. map_option message_of (pend_of w u i)) = (\<lambda>_. None)"
    by (simp add: pending_ids_empty fun_eq_iff)
  show "db_inv w2" using assms(1) by (simp add: flushed_def)
  show "chat_of w2 = chat_flush (reach w) u (chat_of w)"
    using assms(1,4) account_simps(2) [OF m assms(3)]
    by (auto simp: flushed_def chat_flush_def chat_of_def addr none fun_eq_iff split: if_splits)
  show "\<exists>tr. trace w2 = trace w @ tr"
    using assms(1) by (cases "reachable w m") (auto simp: flushed_def)
qed

lemma reach_update [simp]: "reach (put_ud u m w) = reach w"
  by (simp add: put_ud_def)

lemma connect_flush:
  assumes "db_inv w1" "user_ok u" "junk_ok jk" "ud_of w1 u = Some m" "cstr rq_username q2 = u"
    and "run_state (srv_connect_reply jk s q) w = ((True, q2), w1)"
  shows "\<exists>w2. srv_connect jk s q w = Some (q2, w2) \<and> flushed u m w1 w2"
  using flush_outcome [OF assms(1-3) pend_start_ok [OF assms(3,2)] assms(4)]
    run_srv_connect [OF assms(5,6)] by blast

text \<open>CONNECT of a user that is not connected: the update, then the pending messages.\<close>

lemma connect_outcome:
  assumes "db_inv w" "user_ok u" "client_at w n [u, port_line lp] rest ip pt"
    and "length q = sizeof_request" "junk_ok jk" "jk_reply jk \<noteq> SRV_ERR_CN_ANY"
    and "ud_of w u = Some m" "get_u8 ud_status m \<noteq> STATUS_CN"
  shows "\<exists>w1 w2. db_inv w1 \<and> trace w1 = trace w @ connect_reply_trace n u SRV_SUCCESS \<and>
    ud_of w1 = (ud_of w)(u \<mapsto> connected m ip lp) \<and> pend_of w1 = pend_of w \<and> reachable w1 = reachable w \<and>
    reach w1 = reach w \<and> srv_connect jk (int n) q w = Some (connect_request u (port_line lp) q, w2) \<and>
    flushed u (connected m ip lp) w1 w2"
proof -
  let ?v = "received n rest ip pt w" and ?q = "connect_request u (port_line lp) q" and ?m = "connected m ip lp"
  let ?w1 = "(put_ud u ?m ?v)\<lparr>trace := trace w @ connect_reply_trace n u SRV_SUCCESS\<rparr>"
  have m: "ud_ok u m" by (rule ud_ofD(2) [OF assms(1,2,7)])
  have q: "cstr rq_username ?q = u" using recv_connect(2) [OF assms(1-4)] .
  have "db_inv (put_ud u ?m ?v)"
    using assms connected_ok(1) [OF m assms(2)] by (intro put_ud_inv [OF _ assms(2), where m = m]) simp_all
  then have w1: "db_inv ?w1" "ud_of ?w1 u = Some ?m" by simp_all
  from connect_flush [OF w1(1) assms(2,5) w1(2) q run_connect_reply(3) [OF assms(1-5,7,8,6)]] obtain w2 where
    "srv_connect jk (int n) q w = Some (?q, w2)" "flushed u ?m ?w1 w2" by blast
  with w1(1) show ?thesis by (intro exI [of _ ?w1] exI [of _ w2]) simp
qed

lemma chat_connect:
  assumes "db_inv w" "user_ok u" "client_at w n [u, port_line lp] rest ip pt"
    and "length q = sizeof_request" "junk_ok jk" "jk_reply jk \<noteq> SRV_ERR_CN_ANY"
  shows "\<exists>q2 w2. srv_connect jk (int n) q w = Some (q2, w2) \<and>
    chat_result n w (chat_step (reach w) a0 ip (Connect u lp) (chat_of w)) w2"
proof -
  let ?v = "received n rest ip pt w" and ?q = "connect_request u (port_line lp) q"
  note rep = run_connect_reply [OF assms(1-5)]
  have q: "cstr rq_username ?q = u" using recv_connect(2) [OF assms(1-4)] .
  have v: "db_inv ?v" "ud_of ?v = ud_of w" using assms(1) by simp_all
  show ?thesis
  proof (cases "ud_of w u")
    case None
    let ?w1 = "?v\<lparr>err_no := Some ENOENT, trace := trace w @ connect_reply_trace n u SRV_ERR_CN_USR_NOT_EXISTS\<rparr>"
    have "db_inv ?w1" "ud_of ?w1 u = None" using v None by simp_all
    from run_flush(1) [OF this(1) assms(2,5) pend_start_ok [OF assms(5,2)] this(2)]
      run_srv_connect [OF q rep(1) [OF None]]
    have "srv_connect jk (int n) q w = Some (?q, ?w1\<lparr>err_no := Some ENOENT\<rparr>)" by simp
    then show ?thesis
      using v(1) None
      by (auto intro!: chat_step_of chat_resultI simp: chat_of_def fun_eq_iff connect_reply_trace_def srv_defs)
  next
    case (Some m)
    have m: "ud_ok u m" by (rule ud_ofD(2) [OF assms(1,2) Some])
    have st: "ac_status (account_of m) = get_u8 ud_status m" by (simp add: account_of_def)
    show ?thesis
    proof (cases "get_u8 ud_status m = STATUS_CN")
      case True
      let ?w1 = "?v\<lparr>trace := trace w @ connect_reply_trace n u SRV_ERR_CN_USR_ALREADY_CN\<rparr>"
      have w1: "db_inv ?w1" "ud_of ?w1 u = Some m" using v Some by simp_all
      from connect_flush [OF w1(1) assms(2,5) w1(2) q rep(2) [OF Some True]] obtain w2 where
        w2: "srv_connect jk (int n) q w = Some (?q, w2)" "flushed u m ?w1 w2" by blast
      note f = flushed_chat [OF w2(2) w1(1) assms(2) w1(2)]
      from f(3) obtain tr where "trace w2 = trace w @ connect_reply_trace n u SRV_ERR_CN_USR_ALREADY_CN @ tr"
        by auto
      with w2(1) f(1,2) Some True st show ?thesis
        by (auto intro!: chat_step_of chat_resultI simp: chat_of_def connect_reply_trace_def SRV_ERR_CN_USR_ALREADY_CN_def)
    next
      case False
      from connect_outcome [OF assms(1-6) Some False] obtain w1 w2 where
        w1: "db_inv w1" "trace w1 = trace w @ connect_reply_trace n u SRV_SUCCESS"
          "ud_of w1 = (ud_of w)(u \<mapsto> connected m ip lp)" "pend_of w1 = pend_of w" "reach w1 = reach w"
        and w2: "srv_connect jk (int n) q w = Some (?q, w2)" "flushed u (connected m ip lp) w1 w2" by blast
      have "ud_of w1 u = Some (connected m ip lp)" using w1(3) by simp
      note f = flushed_chat [OF w2(2) w1(1) assms(2) this]
      have c: "chat_of w1 = ((fst (chat_of w))(u \<mapsto> (account_of m)\<lparr>ac_status := STATUS_CN, ac_ip := ip, ac_port := lp\<rparr>),
          snd (chat_of w))"
        using w1(3,4) by (simp add: chat_of_def fun_eq_iff account_simps(3) [OF m assms(2)])
      obtain acc pend where p: "chat_of w = (acc, pend)" by fastforce
      then have "acc u = Some (account_of m)" using chat_of_lookup(1) [of w u] Some by simp
      with c p st False have step: "chat_step (reach w) a0 ip (Connect u lp) (chat_of w) =
          (SRV_SUCCESS, chat_flush (reach w) u (chat_of w1))"
        by (simp add: SRV_SUCCESS_def)
      from f(3) w1(2) obtain tr where "trace w2 = trace w @ connect_reply_trace n u SRV_SUCCESS @ tr" by auto
      moreover have "chat_of w2 = chat_flush (reach w) u (chat_of w1)" using f(2) w1(5) by simp
      ultimately have "chat_result n w (SRV_SUCCESS, chat_flush (reach w) u (chat_of w1)) w2"
        using f(1) by (auto intro!: chat_resultI simp: connect_reply_trace_def)
      with w2(1) show ?thesis unfolding step by blast
    qed
  qed
qed

text \<open>SEND: the branches for a registered sender and recipient.\<close>

lemma chat_send_step:
  assumes "ud_of w s = Some ms" "ud_of w u = Some m" "ud_ok u m" "user_ok u"
  defines "i \<equiv> next_msg_id (get_u32 ud_last_msg_id m)"
  shows "chat_step (reach w) a0 ip (Send s u c) (chat_of w) =
    (if get_u8 ud_status m \<noteq> STATUS_DCN \<and> (get_u8 ud_status m = STATUS_CN \<longrightarrow> reachable w m)
     then (0, (fst (chat_of w))(u \<mapsto> account_of (bump m)), snd (chat_of w))
     else if pend_of w u i = None
     then (0, (fst (chat_of w))(u \<mapsto> account_of (offline (bump m))),
       (snd (chat_of w))(u := (snd (chat_of w) u)(i \<mapsto> (s, take 255 c))))
     else (2, (fst (chat_of w))(u \<mapsto> account_of (offline (bump m))), snd (chat_of w)))"
proof -
  obtain acc pend where p: "chat_of w = (acc, pend)" by fastforce
  have l: "acc u = Some (account_of m)" "acc s = Some (account_of ms)"
    "pend u i = map_option message_of (pend_of w u i)"
    using chat_of_lookup [of w] p assms(1,2) by (metis fst_conv snd_conv option.map(2))+
  have a: "ac_status (account_of m) = get_u8 ud_status m" "ac_last (account_of m) = get_u32 ud_last_msg_id m"
    "reach w (ac_ip (account_of m)) (ac_port (account_of m)) = reachable w m"
    by (simp_all add: account_of_def reachable_def)
  have b: "account_of (bump m) = (account_of m)\<lparr>ac_last := i\<rparr>"
    "account_of (offline (bump m)) = (account_of m)\<lparr>ac_last := i, ac_status := STATUS_DCN\<rparr>"
    using account_simps(1) [OF assms(3,4)] account_simps(2) [OF bump_simps(1) [OF assms(3,4)] assms(4)]
    by (simp_all add: i_def)
  show ?thesis
    using l by (auto simp: p a b Let_def i_def [symmetric])
qed

lemma chat_add_send:
  assumes "message_of d = x" "ud_of v = (ud_of w)(u \<mapsto> a)" "pend_of v = pend_of w"
  shows "chat_of (add_msg u i d v) = ((fst (chat_of w))(u \<mapsto> account_of a),
    (snd (chat_of w))(u := (snd (chat_of w) u)(i \<mapsto> x)))"
    "chat_of v = ((fst (chat_of w))(u \<mapsto> account_of a), snd (chat_of w))"
  using assms by (simp_all add: chat_of_def fun_eq_iff)

lemma offline_same:
  assumes "ud_ok u m" "get_u8 ud_status m = STATUS_DCN"
  shows "account_of (offline m) = account_of m"
  using assms by (simp add: account_of_def offline_def ud_ok_def en_defs mem_simps)

lemma chat_send:
  assumes "db_inv w" "user_ok s" "user_ok u" "client_at w n [s, u, c] rest ip pt"
    and "length q = sizeof_request" "junk_ok jk" "jk_send_msg_reply jk = SRV_SUCCESS"
  shows "\<exists>q2 w2. run_state (srv_send jk (int n) q) w = (q2, w2) \<and>
    chat_result n w (chat_step (reach w) a0 ip (Send s u c) (chat_of w)) w2"
proof -
  obtain acc pend where p: "chat_of w = (acc, pend)" by fastforce
  consider "ud_of w s = None \<or> ud_of w u = None" | ms m where "ud_of w s = Some ms" "ud_of w u = Some m"
    by fastforce
  then show ?thesis
  proof cases
    case 1
    then have "acc s = None \<or> acc u = None" using chat_of_lookup(1) [of w] p by (metis fst_conv option.map(1))
    then have "chat_step (reach w) a0 ip (Send s u c) (chat_of w) = (1, chat_of w)"
      by (auto simp: p split: option.split)
    with run_send_unknown [OF assms(1-6) 1] assms(1) show ?thesis
      by (auto intro!: chat_resultI simp: SRV_ERR_SEND_USR_NOT_EXISTS_def)
  next
    case (2 ms m)
    let ?i = "next_msg_id (get_u32 ud_last_msg_id m)"
    let ?msg = "new_msg (jk_msg_entry jk) s u (take 255 c) ?i"
    have m: "ud_ok u m" by (rule ud_ofD(2) [OF assms(1,3) 2(2)])
    note step = chat_send_step [OF 2 m assms(3), of a0 ip c]
    note k = run_send_known [OF assms(1-6) 2]
    have wc: "wire_string (take 255 c)"
      using assms(4) by (auto simp: client_at_def wire_string_def dest: in_set_takeD)
    have msg: "message_of ?msg = (s, take 255 c)"
      using new_msg_ok(2,3) [OF _ assms(2,3) wc, of "jk_msg_entry jk" ?i] assms(6)
      by (simp add: message_of_def junk_ok_def)
    consider "get_u8 ud_status m = STATUS_DCN" | "get_u8 ud_status m = STATUS_CN" "\<not> reachable w m"
      | "get_u8 ud_status m \<noteq> STATUS_DCN" "get_u8 ud_status m = STATUS_CN \<longrightarrow> reachable w m" by blast
    then show ?thesis
    proof cases
      case off: 1
      let ?v = "(put_ud u (bump m) (send_start n rest ip pt w))\<lparr>err_no := None\<rparr>"
      have v: "db_inv ?v" "ud_of ?v = (ud_of w)(u \<mapsto> bump m)" "pend_of ?v = pend_of w" using k by simp_all
      have b: "account_of (offline (bump m)) = account_of (bump m)"
        using bump_simps(1,2) [OF m assms(3)] off by (intro offline_same) simp_all
      have add: "db_inv (add_msg u ?i ?msg ?v)" if "pend_of w u ?i = None"
        using that v k(6) by (intro add_msg_inv [OF v(1) assms(3), where m = "bump m"]) simp_all
      show ?thesis
        using run_send_offline [OF assms(1-6) 2 off] v(1) add chat_add_send [OF msg v(2,3)] off
        by (auto simp: step b SRV_SUCCESS_def SRV_ERR_SEND_ANY_def intro!: chat_resultI)
    next
      case un: 2
      from run_send_unreachable [OF assms(1-6) 2 un] obtain v where
        v: "db_inv v" "ud_of v = (ud_of w)(u \<mapsto> offline (bump m))" "pend_of v = pend_of w"
        and run: "run_state (srv_send jk (int n) q) w = (send_request s u c q,
          if pend_of w u ?i = None
          then (add_msg u ?i ?msg v)\<lparr>trace := trace w @ [EvOverflow, EvOverflow,
            EvPrint (stored_line ?i s u), reply_ev n SRV_SUCCESS, id_ev n ?i]\<rparr>
          else v\<lparr>err_no := Some EEXIST, trace := trace w @ [EvOverflow, EvOverflow, reply_ev n SRV_ERR_SEND_ANY]\<rparr>)"
        by blast
      have add: "db_inv (add_msg u ?i ?msg v)" if "pend_of w u ?i = None"
        using that v k(6) by (intro add_msg_inv [OF v(1) assms(3), where m = "offline (bump m)"]) simp_all
      show ?thesis
        using run v(1) add chat_add_send [OF msg v(2,3)] un
        by (auto simp: step SRV_SUCCESS_def SRV_ERR_SEND_ANY_def STATUS_CN_def STATUS_DCN_def intro!: chat_resultI)
    next
      case on: 3
      have v: "db_inv (put_ud u (bump m) (send_start n rest ip pt w))"
        "chat_of (put_ud u (bump m) (send_start n rest ip pt w)) =
           ((fst (chat_of w))(u \<mapsto> account_of (bump m)), snd (chat_of w))"
        using k(1) by (simp_all add: chat_of_put)
      note run = run_send_connected [OF assms(1-6) 2 on(1) assms(7)]
      show ?thesis
      proof (cases "get_u8 ud_status m = STATUS_CN")
        case True
        let ?w1 = "(put_ud u (bump m) (send_start n rest ip pt w))\<lparr>err_no := None, trace := trace w @
          [EvOverflow, EvOverflow] @ message_events (fresh_fd (fds (put_ud u (bump m) (send_start n rest ip pt w))))
            m s ?i (take 255 c) @ [EvPrint (delivered_line ?i s u), reply_ev n SRV_SUCCESS, id_ev n ?i]\<rparr>"
        obtain tr where "trace (ack_world s ?i ?w1) = trace ?w1 @ tr" using ack_trace [of s ?i ?w1] by blast
        with v have "chat_result n w (0, (fst (chat_of w))(u \<mapsto> account_of (bump m)), snd (chat_of w))
            (ack_world s ?i ?w1)"
          by (auto simp: SRV_SUCCESS_def intro!: chat_resultI)
        moreover have "run_state (srv_send jk (int n) q) w = (send_request s u c q, ack_world s ?i ?w1)"
          using run(1) True on(2) by simp
        ultimately show ?thesis using True on by (auto simp: step)
      next
        case False
        with on run(2) v show ?thesis
          by (auto simp: step SRV_SUCCESS_def intro!: chat_resultI)
      qed
    qed
  qed
qed

subsection \<open>One connection\<close>

lemma op_facts [simp]:
  "UNREGISTER \<noteq> REGISTER" "CONNECT \<noteq> REGISTER" "CONNECT \<noteq> UNREGISTER"
  "DISCONNECT \<noteq> REGISTER" "DISCONNECT \<noteq> UNREGISTER" "DISCONNECT \<noteq> CONNECT"
  "SEND \<noteq> REGISTER" "SEND \<noteq> UNREGISTER" "SEND \<noteq> CONNECT" "SEND \<noteq> DISCONNECT"
  by (simp_all add: op_defs)

definition op_of :: "client_req \<Rightarrow> string" where
  "op_of r = hd (lines_of r)"

lemma op_of_simps [simp]:
  "op_of (Register u) = REGISTER" "op_of (Unregister u) = UNREGISTER" "op_of (Connect u pt) = CONNECT"
  "op_of (Disconnect u) = DISCONNECT" "op_of (Send s u c) = SEND"
  by (simp_all add: op_of_def)

lemma op_of_fits: "c_string (op_of r)" "length (op_of r) \<le> 255" "take 255 (op_of r) = op_of r"
  by (cases r; simp add: op_defs)+

lemma lines_of_op: "lines_of r = op_of r # tl (lines_of r)"
  by (cases r) simp_all

lemma recv_op:
  assumes "db_inv w" "client_at w n (lines_of r) rest ip pt" "length q = sizeof_request"
  shows "\<exists>w1. run_state (recv_string (int n) rq_op_code q) w = ((0, strcpy rq_op_code (op_of r) q), w1) \<and>
    db_inv w1 \<and> client_at w1 n (tl (lines_of r)) rest ip pt \<and> chat_of w1 = chat_of w \<and>
    trace w1 = trace w \<and> reach w1 = reach w"
    and "cstr rq_op_code (strcpy rq_op_code (op_of r) q) = op_of r"
    "length (strcpy rq_op_code (op_of r) q) = sizeof_request"
proof -
  have c: "client_at w n (op_of r # tl (lines_of r)) rest ip pt" using assms(2) lines_of_op [of r] by simp
  show "\<exists>w1. run_state (recv_string (int n) rq_op_code q) w = ((0, strcpy rq_op_code (op_of r) q), w1) \<and>
    db_inv w1 \<and> client_at w1 n (tl (lines_of r)) rest ip pt \<and> chat_of w1 = chat_of w \<and>
    trace w1 = trace w \<and> reach w1 = reach w"
    using run_recv_line [OF assms(1) c, of rq_op_code q] client_received [OF c] assms(1,3) op_of_fits [of r]
    by (intro exI [of _ "received n (concat (map (\<lambda>l. l @ [NUL]) (tl (lines_of r))) @ rest) ip pt w"]) simp
  show "cstr rq_op_code (strcpy rq_op_code (op_of r) q) = op_of r"
    "length (strcpy rq_op_code (op_of r) q) = sizeof_request"
    using assms(3) op_of_fits [of r] by (simp_all add: rq_defs mem_simps)
qed

lemma chat_result_from:
  "chat_result n w1 x w2 \<Longrightarrow> trace w1 = trace w \<Longrightarrow> chat_result n w x w2"
  by (auto simp: chat_result_def)

text \<open>A well-formed request is answered as \<open>chat_step\<close> says, and leaves the database in order.\<close>

lemma serve_connection_step:
  assumes "db_inv w" "req_ok r" "client_at w n (lines_of r) rest ip pt"
    and "length q = sizeof_request" "junk_ok jk" "junk_zero jk"
  shows "\<exists>q2 w2. serve_connection jk (int n) q w = Some (q2, w2) \<and>
    chat_result n w (chat_step (reach w) (fresh_account jk) ip r (chat_of w)) w2"
proof -
  note op = recv_op [OF assms(1,3,4)]
  from op(1) obtain w1 where
    recv: "run_state (recv_string (int n) rq_op_code q) w = ((0, strcpy rq_op_code (op_of r) q), w1)"
    and w1: "db_inv w1" "client_at w1 n (tl (lines_of r)) rest ip pt" "chat_of w1 = chat_of w"
      "trace w1 = trace w" "reach w1 = reach w" by blast
  note serve = serve_connection_def recv op(2)
  have jz: "jk_reply jk \<noteq> SRV_ERR_CN_ANY" "jk_send_msg_reply jk = SRV_SUCCESS"
    using assms(6) by (simp_all add: junk_zero_def)
  have "\<exists>q2 w2. serve_connection jk (int n) q w = Some (q2, w2) \<and>
    chat_result n w1 (chat_step (reach w1) (fresh_account jk) ip r (chat_of w1)) w2"
  proof (cases r)
    case (Register u)
    with chat_register [OF w1(1) _ _ op(3) assms(5)] w1(2) assms(2) serve show ?thesis by auto
  next
    case (Unregister u)
    with chat_unregister [OF w1(1) _ _ op(3)] w1(2) assms(2) serve show ?thesis by auto
  next
    case (Connect u lp)
    with chat_connect [OF w1(1) _ _ op(3) assms(5) jz(1)] w1(2) assms(2) serve show ?thesis by auto
  next
    case (Disconnect u)
    with chat_disconnect [OF w1(1) _ _ op(3) assms(5)] w1(2) assms(2) serve show ?thesis by auto
  next
    case (Send s u c)
    with chat_send [OF w1(1) _ _ _ op(3) assms(5) jz(2)] w1(2) assms(2) serve show ?thesis by auto
  qed
  then show ?thesis unfolding w1(3,5) using chat_result_from w1(4) by blast
qed

subsection \<open>One connection after the other\<close>

definition sends :: "client \<Rightarrow> client_req \<Rightarrow> bool" where
  "sends c r \<longleftrightarrow> req_ok r \<and> (\<exists>rest. cl_input c = concat (map (\<lambda>l. l @ [NUL]) (lines_of r)) @ rest) \<and>
     length (cl_request c) = sizeof_request \<and> junk_ok (cl_junk c) \<and> junk_zero (cl_junk c)"

fun chat_run :: "(u32 \<Rightarrow> u16 \<Rightarrow> bool) \<Rightarrow> (client \<times> client_req) list \<Rightarrow> chat \<Rightarrow> chat" where
  "chat_run rch [] s = s"
| "chat_run rch ((c, r) # crs) s =
     chat_run rch crs (snd (chat_step rch (fresh_account (cl_junk c)) (cl_ip c) r s))"

text \<open>The reply codes of a run, and a trace in which they go out one after the other: the one for
  the connection \<open>n\<close> among the bytes sent on \<open>n\<close>.\<close>

fun chat_replies :: "(u32 \<Rightarrow> u16 \<Rightarrow> bool) \<Rightarrow> (client \<times> client_req) list \<Rightarrow> chat \<Rightarrow> u8 list" where
  "chat_replies rch [] s = []"
| "chat_replies rch ((c, r) # crs) s =
     (case chat_step rch (fresh_account (cl_junk c)) (cl_ip c) r s of
        (code, s2) \<Rightarrow> code # chat_replies rch crs s2)"

inductive replied :: "event list \<Rightarrow> nat list \<Rightarrow> u8 list \<Rightarrow> event list \<Rightarrow> bool" where
  replied_none: "replied t [] [] t"
| replied_next: "replied t ns cs t' \<Longrightarrow> reply_ev n c \<in> set tr \<Longrightarrow> replied t (ns @ [n]) (cs @ [c]) (t' @ tr)"

lemma replied_first:
  assumes "replied (t @ tr) ns cs t'" "reply_ev n c \<in> set tr"
  shows "replied t (n # ns) (c # cs) t'"
  using assms
proof (induction "t @ tr" ns cs t' rule: replied.induct)
  case replied_none
  with replied_next [OF replied.replied_none [of t]] show ?case by fastforce
next
  case (replied_next ns cs t' n' c' tr')
  from replied.replied_next [OF replied_next.hyps(2) [OF replied_next.prems] replied_next.hyps(3)]
  show ?case by simp
qed

lemma replied_length: "replied t ns cs t' \<Longrightarrow> length ns = length cs"
  by (induction rule: replied.induct) simp_all

lemma wire_ops: "wire_string REGISTER" "wire_string UNREGISTER" "wire_string CONNECT"
  "wire_string DISCONNECT" "wire_string SEND"
  by (simp_all add: op_defs)

lemma lines_wire: "req_ok r \<Longrightarrow> l \<in> set (lines_of r) \<Longrightarrow> wire_string l"
  by (cases r) (auto simp: wire_ops user_okD port_line_def show_nat_wire)

lemma accept_client:
  assumes "db_inv w" "sends c r"
  shows "\<exists>n w1 rest. run_state (sys_accept (cl_input c) (cl_ip c) (cl_port c)) w = (int n, w1) \<and> db_inv w1 \<and>
    client_at w1 n (lines_of r) rest (cl_ip c) (cl_port c) \<and> chat_of w1 = chat_of w \<and> reach w1 = reach w \<and>
    trace w1 = trace w"
proof -
  from assms(2) obtain rest where "cl_input c = concat (map (\<lambda>l. l @ [NUL]) (lines_of r)) @ rest" "req_ok r"
    by (auto simp: sends_def)
  with db_inv_quiet [OF assms(1)] assms(1) lines_wire [of r] show ?thesis
    by (intro exI [of _ "fresh_fd (fds w)"] exI [of _ "w\<lparr>fds := fd_add (DSock (cl_input c) (cl_ip c) (cl_port c)) (fds w)\<rparr>"]
        exI [of _ rest]) (simp add: sys_accept_def run_syscall client_at_def)
qed

lemma serve_clients_answers:
  assumes "db_inv w" "\<forall>(c, r)\<in>set crs. sends c r"
  shows "\<exists>w2 ns. serve_clients (map fst crs) w = Some w2 \<and> db_inv w2 \<and>
    chat_of w2 = chat_run (reach w) crs (chat_of w) \<and>
    replied (trace w) ns (chat_replies (reach w) crs (chat_of w)) (trace w2)"
  using assms
proof (induction crs arbitrary: w)
  case Nil
  then show ?case by (auto intro: replied_none)
next
  case (Cons x crs)
  obtain c r where x: "x = (c, r)" by fastforce
  have s: "sends c r" using Cons.prems(2) x by simp
  from accept_client [OF Cons.prems(1) s] obtain n w1 rest where
    acc: "run_state (sys_accept (cl_input c) (cl_ip c) (cl_port c)) w = (int n, w1)"
    and w1: "db_inv w1" "client_at w1 n (lines_of r) rest (cl_ip c) (cl_port c)" "chat_of w1 = chat_of w"
      "reach w1 = reach w" "trace w1 = trace w" by blast
  from s have ok: "req_ok r" "length (cl_request c) = sizeof_request" "junk_ok (cl_junk c)" "junk_zero (cl_junk c)"
    by (simp_all add: sends_def)
  let ?x = "chat_step (reach w) (fresh_account (cl_junk c)) (cl_ip c) r (chat_of w)"
  from serve_connection_step [OF w1(1) ok(1) w1(2) ok(2-4)] obtain q2 v where
    v: "serve_connection (cl_junk c) (int n) (cl_request c) w1 = Some (q2, v)"
    "chat_result n w1 ?x v" unfolding w1(3,4) by blast
  have re: "reach v = reach w"
    using env_os.serve_connection_rel [OF v(1)] w1(4) by (simp add: env_rel_def)
  from v(2) obtain tr where v2: "db_inv v" "chat_of v = snd ?x" "trace v = trace w @ tr" "reply_ev n (fst ?x) \<in> set tr"
    by (auto simp: chat_result_def w1(5))
  have "\<forall>(c, r)\<in>set crs. sends c r" using Cons.prems(2) by simp
  from Cons.IH [OF v2(1) this] obtain w2 ns where
    w2: "serve_clients (map fst crs) v = Some w2" "db_inv w2" "chat_of w2 = chat_run (reach w) crs (snd ?x)"
      "replied (trace w @ tr) ns (chat_replies (reach w) crs (snd ?x)) (trace w2)"
    by (auto simp: re v2(2,3))
  from replied_first [OF w2(4) v2(4)]
  have "replied (trace w) (n # ns) (chat_replies (reach w) ((c, r) # crs) (chat_of w)) (trace w2)"
    by (simp add: case_prod_beta)
  with w2(1-3) acc v(1) show ?case
    by (intro exI [of _ w2] exI [of _ "n # ns"]) (simp add: x)
qed

lemma serve_clients_chat:
  assumes "db_inv w" "\<forall>(c, r)\<in>set crs. sends c r"
  shows "\<exists>w2. serve_clients (map fst crs) w = Some w2 \<and> db_inv w2 \<and>
    chat_of w2 = chat_run (reach w) crs (chat_of w)"
  using serve_clients_answers [OF assms] by blast

end
