(* ===== verification/StartLaws.thy ===== *)
theory StartLaws
  imports ChatRefine
begin

text \<open>
  The start of the server in a quiet world: wrong arguments are refused before anything is
  touched, and otherwise the database is there afterwards, empty if there was none and as it
  was if there was one.
\<close>

definition argv_of :: "u16 \<Rightarrow> string list" where
  "argv_of pt = [''server'', ''-p'', port_line pt]"

lemma run_main_args:
  "length argv \<noteq> 3 \<or> argv ! 1 \<noteq> ''-p'' \<Longrightarrow> run_state (main_args argv) w = (Inl GEN_ERR_INV_ARGS, w)"
  "run_state (main_args (argv_of pt)) w = (Inr (ucast pt), w\<lparr>err_no := None\<rparr>)"
  by (simp_all add: main_args_def argv_of_def port_line_simps)

lemma bad_args_refused:
  assumes "length argv \<noteq> 3 \<or> argv ! 1 \<noteq> ''-p''"
  shows "run_state (main_start argv) w = (Inl GEN_ERR_INV_ARGS, w)"
  using run_main_args(1) [OF assms, of w] by (simp add: main_start_def)

text \<open>The three calls on the new socket.\<close>

lemma run_listening:
  assumes "quiet w"
  shows "run_state (do {
     server_sd \<leftarrow> sys_socket;
     if server_sd < 0 then return (Inl GEN_ERR_ANY) else do {
     ret_val \<leftarrow> sys_setsockopt server_sd;
     CHECK_SOCK_ERROR ret_val server_sd (Inl GEN_ERR_ANY) (do {
     ret_val \<leftarrow> sys_bind server_sd INADDR_ANY (ucast port);
     CHECK_SOCK_ERROR ret_val server_sd (Inl GEN_ERR_ANY) (do {
     ret_val \<leftarrow> sys_listen server_sd LISTEN_BACKLOG;
     CHECK_SOCK_ERROR ret_val server_sd (Inl GEN_ERR_ANY) (
       return (Inr (server_sd, port))) }) }) } }) w =
   (Inr (int (fresh_fd (fds w)), port :: u32), w\<lparr>fds := fd_add DNew (fds w)\<rparr>)"
proof -
  have "orc w = []" using assms by (simp add: quiet_def)
  then show ?thesis
    by (simp add: run_socket assms sys_setsockopt_def sys_bind_def sys_listen_def run_syscall quiet_def
        CHECK_SOCK_ERROR_def)
qed

lemma run_main_start:
  assumes "quiet w" "run_state db_init_db (w\<lparr>err_no := None\<rparr>) = (DBMS_SUCCESS, v)" "quiet v"
  shows "run_state (main_start (argv_of pt)) w =
    (Inr (int (fresh_fd (fds v)), ucast pt), v\<lparr>fds := fd_add DNew (fds v)\<rparr>)"
  using run_listening [OF assms(3), of "ucast pt"] assms(2)
  unfolding err_defs by (simp add: main_start_def run_main_args(2) err_defs)

subsection \<open>The database at the start\<close>

definition server_dir_ok :: "world \<Rightarrow> bool" where
  "server_dir_ok w \<longleftrightarrow> quiet w \<and> wf_fs (fs w) \<and> posix_order (dir_order w) \<and> is_dir_at (fs w) (cwd w)"

lemma split_db_dir [simp]: "split_slash DB_DIR = [DB_DIR]"
  by (simp add: DB_DIR_def)

lemma plain_db_dir: "plain_path DB_DIR"
  by (simp add: plain_path_def PATH_MAX_def)

lemma resolve_db_dir:
  assumes "server_dir_ok w"
  shows "resolve w DB_DIR = Inr (cwd w @ [DB_DIR])"
proof -
  obtain es where "fs w (cwd w) = Some (Dir es)"
    using assms by (auto simp: server_dir_ok_def elim: is_dir_atE)
  then show ?thesis
    using resolve_plain [of w DB_DIR es] assms plain_db_dir by (simp add: server_dir_ok_def)
qed

lemma init_creates:
  assumes "server_dir_ok w" "fs w (cwd w @ [DB_DIR]) = None"
  defines "w2 \<equiv> w\<lparr>err_no := Some ENOENT, fs := fs_add (cwd w @ [DB_DIR]) (Dir []) (fs w)\<rparr>"
  shows "run_state db_init_db w = (DBMS_SUCCESS, w2)" "db_inv w2" "ud_of w2 = (\<lambda>_. None)" "pend_of w2 = (\<lambda>_ _. None)"
proof -
  let ?p = "cwd w @ [DB_DIR]"
  have w: "quiet w" "wf_fs (fs w)" using assms(1) by (simp_all add: server_dir_ok_def)
  show "run_state db_init_db w = (DBMS_SUCCESS, w2)"
    using run_open_directory_new [OF w(1) resolve_db_dir [OF assms(1)] assms(2), of OVERWRITE]
    by (simp add: db_init_db_def close_stream_def run_closedir err_defs w2_def)
  obtain es where es: "fs w (cwd w) = Some (Dir es)"
    using assms(1) by (auto simp: server_dir_ok_def elim: is_dir_atE)
  have below: "fs w2 (?p @ q) = None" if "q \<noteq> []" for q
  proof -
    have "fs w (?p @ q) = None"
      using wf_fs_leaf [OF w(2), of ?p q] assms(2) that by simp
    with that show ?thesis by (auto simp: w2_def fs_add_def butlast_append)
  qed
  have none: "fs w2 (tbl_path w2 u) = None" "fs w2 (ud_path w2 u) = None" "fs w2 (msg_path w2 u i) = None" for u i
    using below [of "[u @ ''-table'']"] below [of "[u @ ''-table'', USERDATA_ENTRY]"]
      below [of "[u @ ''-table'', PEND_MSGS_TABLE, show_nat (unat i)]"]
    by (simp_all add: path_defs w2_def)
  have "wf_fs (fs w2)"
    using wf_fs_add [OF w(2) assms(2), of es "Dir []"] es by (simp add: w2_def)
  with assms(1) have "db_ready w2"
    by (auto simp: db_ready_def server_dir_ok_def w2_def fs_add_def is_dir_at_def quiet_def)
  then show "db_inv w2" using none by (simp add: db_inv_def)
  show "ud_of w2 = (\<lambda>_. None)" "pend_of w2 = (\<lambda>_ _. None)"
    using none by (simp_all add: ud_of_def pend_of_def fun_eq_iff)
qed

lemma init_keeps:
  assumes "db_inv w"
  shows "run_state db_init_db w = (DBMS_SUCCESS, w\<lparr>err_no := None\<rparr>)"
proof -
  obtain es where es: "fs w (cwd w @ [DB_DIR]) = Some (Dir es)"
    using db_inv_ready [OF assms] by (auto simp: db_ready_def elim: is_dir_atE)
  then have "resolve w DB_DIR = Inr (cwd w @ [DB_DIR])"
    using resolve_plain_existing [of w DB_DIR] plain_db_dir db_inv_wf [OF assms] by simp
  from run_open_directory(1) [OF db_inv_quiet [OF assms] this es, of OVERWRITE] show ?thesis
    by (simp add: db_init_db_def close_stream_def run_closedir err_defs mode_defs)
qed

lemma start_fresh:
  assumes "server_dir_ok w" "fs w (cwd w @ [DB_DIR]) = None"
  shows "\<exists>n w2. run_state (main_start (argv_of pt)) w = (Inr (int n, ucast pt), w2) \<and> db_inv w2 \<and>
    map_of (fds w2) n = Some DNew \<and> chat_of w2 = (\<lambda>_. None, \<lambda>_ _. None) \<and> reach w2 = reach w"
proof -
  let ?w = "w\<lparr>err_no := None\<rparr>"
  let ?v = "?w\<lparr>err_no := Some ENOENT, fs := fs_add (cwd ?w @ [DB_DIR]) (Dir []) (fs ?w)\<rparr>"
  have ok: "server_dir_ok ?w" "fs ?w (cwd ?w @ [DB_DIR]) = None"
    using assms by (simp_all add: server_dir_ok_def)
  note i = init_creates [OF ok]
  have q: "quiet w" using assms(1) by (simp add: server_dir_ok_def)
  from run_main_start [OF q i(1) db_inv_quiet [OF i(2)], of pt] i(2-4) show ?thesis
    by (intro exI [of _ "fresh_fd (fds ?v)"] exI [of _ "?v\<lparr>fds := fd_add DNew (fds ?v)\<rparr>"])
      (simp add: chat_of_def fun_eq_iff)
qed

lemma start_again:
  assumes "db_inv w"
  shows "\<exists>n w2. run_state (main_start (argv_of pt)) w = (Inr (int n, ucast pt), w2) \<and> db_inv w2 \<and>
    chat_of w2 = chat_of w \<and> reach w2 = reach w"
proof -
  have inv: "db_inv (w\<lparr>err_no := None\<rparr>)" using assms by simp
  then have "run_state db_init_db (w\<lparr>err_no := None\<rparr>) = (DBMS_SUCCESS, w\<lparr>err_no := None\<rparr>)"
    using init_keeps [of "w\<lparr>err_no := None\<rparr>"] by simp
  from run_main_start [OF db_inv_quiet [OF assms] this db_inv_quiet [OF inv], of pt] assms
  show ?thesis by simp
qed

subsection \<open>The server as a whole\<close>

lemma chat_run_append: "chat_run rch (crs1 @ crs2) s = chat_run rch crs2 (chat_run rch crs1 s)"
  by (induction rch crs1 s rule: chat_run.induct) simp_all

lemma serve_clients_reach: "serve_clients cs w = Some w2 \<Longrightarrow> reach w2 = reach w"
  using env_os.serve_clients_rel [of cs w w2] by (simp add: env_rel_def)

text \<open>From a start that succeeded, to the state after some clients.\<close>

lemma main_serves:
  assumes "run_state (main_start argv) w = (Inr (sd, port), w1)" "db_inv w1" "0 \<le> hr"
    and "\<forall>(c, r)\<in>set crs. sends c r"
  shows "\<exists>w2. server_main argv hr (Some ip) (map fst crs) w = Some (None, w2) \<and> db_inv w2 \<and>
    chat_of w2 = chat_run (reach w1) crs (chat_of w1) \<and> reach w2 = reach w1"
proof -
  let ?w1 = "w1\<lparr>trace := trace w1 @ [EvPrint (init_line ip port)]\<rparr>"
  have a: "run_state (main_announce hr (Some ip) port) w1 = (None, ?w1)"
    using assms(3) by (simp add: main_announce_def run_printf)
  have "db_inv ?w1" using assms(2) by simp
  from serve_clients_chat [OF this assms(4)] obtain w2 where
    w2: "serve_clients (map fst crs) ?w1 = Some w2" "db_inv w2" "chat_of w2 = chat_run (reach w1) crs (chat_of w1)"
    by auto
  with serve_clients_reach [OF w2(1)] assms(1) a show ?thesis by (simp add: server_main_def)
qed

lemma main_fresh:
  assumes "server_dir_ok w" "fs w (cwd w @ [DB_DIR]) = None" "0 \<le> hr" "\<forall>(c, r)\<in>set crs. sends c r"
  shows "\<exists>w2. server_main (argv_of pt) hr (Some ip) (map fst crs) w = Some (None, w2) \<and> db_inv w2 \<and>
    chat_of w2 = chat_run (reach w) crs (\<lambda>_. None, \<lambda>_ _. None) \<and> reach w2 = reach w"
proof -
  from start_fresh [OF assms(1,2), of pt] obtain n w1 where
    w1: "run_state (main_start (argv_of pt)) w = (Inr (int n, ucast pt), w1)" "db_inv w1"
      "chat_of w1 = (\<lambda>_. None, \<lambda>_ _. None)" "reach w1 = reach w" by blast
  from main_serves [OF w1(1,2) assms(3,4)] w1(3,4) show ?thesis by simp
qed

lemma main_again:
  assumes "db_inv w" "0 \<le> hr" "\<forall>(c, r)\<in>set crs. sends c r"
  shows "\<exists>w2. server_main (argv_of pt) hr (Some ip) (map fst crs) w = Some (None, w2) \<and> db_inv w2 \<and>
    chat_of w2 = chat_run (reach w) crs (chat_of w) \<and> reach w2 = reach w"
proof -
  from start_again [OF assms(1), of pt] obtain n w1 where
    w1: "run_state (main_start (argv_of pt)) w = (Inr (int n, ucast pt), w1)" "db_inv w1"
      "chat_of w1 = chat_of w" "reach w1 = reach w" by blast
  from main_serves [OF w1(1,2) assms(2,3)] w1(3,4) show ?thesis by simp
qed

end
