(* ===== verification/Samples.thy ===== *)
theory Samples
  imports StartLaws
begin

text \<open>
  Concrete worlds on which the properties are tried: a server directory with an empty
  database, the same with users in it, and a client connected as descriptor 4.
\<close>

definition sample_fs :: fs where
  "sample_fs p = (if p = [] then Some (Dir [DB_DIR]) else if p = [DB_DIR] then Some (Dir []) else None)"

definition sample_world :: "string list \<Rightarrow> world" where
  "sample_world ls = \<lparr>fs = sample_fs, cwd = [],
     fds = [(4, DSock (concat (map (\<lambda>l. l @ [NUL]) ls)) 16777343 40000)], orc = [], err_no = None, trace = [],
     reach = (\<lambda>ip pt. ip \<noteq> 0), dir_order = id, c_strtof = (\<lambda>_. (0, 0, False))\<rparr>"

definition sample_junk :: junk where
  "sample_junk = \<lparr>jk_reply = 0, jk_send_msg_reply = 0, jk_entry = replicate sizeof_entry NUL,
     jk_msg_entry = replicate sizeof_entry NUL, jk_recipient_entry = replicate sizeof_entry NUL,
     jk_sender_entry = replicate sizeof_entry NUL, jk_pend_msg_entry = replicate sizeof_entry NUL,
     jk_send_msg_request = replicate sizeof_request NUL,
     jk_send_msg_ack_request = replicate sizeof_request NUL\<rparr>"

definition sample_request :: mem where
  "sample_request = replicate sizeof_request NUL"

lemma sample_junk_ok [simp]: "junk_ok sample_junk" "junk_zero sample_junk" "length sample_request = sizeof_request"
  "jk_reply sample_junk \<noteq> SRV_ERR_CN_ANY" "jk_send_msg_reply sample_junk = SRV_SUCCESS"
  by (simp_all add: junk_ok_def junk_zero_def sample_junk_def sample_request_def srv_defs)

lemma dec_le_zeros [simp]: "dec_le (replicate k NUL) = 0"
  by (induction k) simp_all

lemma get_u8_zeros [simp]: "get_u8 off (replicate n NUL) = 0"
  by (simp add: get_u8_def peek_def)

lemma wf_sample_fs: "wf_fs sample_fs"
  by (auto simp: wf_fs_def sample_fs_def append_eq_Cons_conv split: if_splits)

lemma sample_inv [simp]: "db_inv (sample_world ls)"
  using wf_sample_fs
  by (simp add: db_inv_def db_ready_def sample_world_def quiet_def posix_order_def is_dir_at_def
      tbl_path_def sample_fs_def)

lemma sample_of [simp]: "ud_of (sample_world ls) = (\<lambda>_. None)" "pend_of (sample_world ls) = (\<lambda>_ _. None)"
  by (simp_all add: ud_of_def pend_of_def fun_eq_iff sample_world_def path_defs sample_fs_def)

definition alice :: string where "alice = ''alice''"
definition bob :: string where "bob = ''bob''"

lemma sample_users [simp]: "user_ok alice" "user_ok bob" "alice \<noteq> bob" "bob \<noteq> alice"
  by (simp_all add: user_ok_def alice_def bob_def)

text \<open>Both users registered, both offline.\<close>

definition sample_db :: "string list \<Rightarrow> world" where
  "sample_db ls = created bob (fresh_ud sample_junk bob) (created alice (fresh_ud sample_junk alice) (sample_world ls))"

lemma sample_alice: "db_inv (created alice (fresh_ud sample_junk alice) (sample_world ls))"
  "ud_of (created alice (fresh_ud sample_junk alice) (sample_world ls)) = [alice \<mapsto> fresh_ud sample_junk alice]"
  "pend_of (created alice (fresh_ud sample_junk alice) (sample_world ls)) = (\<lambda>_ _. None)"
  using created_new(2) [of "sample_world ls" alice sample_junk] created_of(1,2) [of "sample_world ls" alice]
  by simp_all

lemma sample_db_inv [simp]: "db_inv (sample_db ls)"
  "ud_of (sample_db ls) = [alice \<mapsto> fresh_ud sample_junk alice, bob \<mapsto> fresh_ud sample_junk bob]"
  "pend_of (sample_db ls) = (\<lambda>_ _. None)"
  using created_new(2) [OF sample_alice(1) [of ls], of bob sample_junk] created_of(1,2) [OF sample_alice(1) [of ls], of bob]
  by (simp_all add: sample_db_def sample_alice)

lemma sample_client:
  "\<forall>l\<in>set ls. wire_string l \<Longrightarrow> client_at (sample_world ls) 4 ls [] 16777343 40000"
  "\<forall>l\<in>set ls. wire_string l \<Longrightarrow> client_at (sample_db ls) 4 ls [] 16777343 40000"
proof -
  have w: "client_at (sample_world ls) 4 ls [] 16777343 40000" if "\<forall>l\<in>set ls. wire_string l"
    using that by (simp add: client_at_def sample_world_def)
  then show "\<forall>l\<in>set ls. wire_string l \<Longrightarrow> client_at (sample_world ls) 4 ls [] 16777343 40000" .
  show "client_at (sample_db ls) 4 ls [] 16777343 40000" if "\<forall>l\<in>set ls. wire_string l"
    using w [OF that] by (simp add: client_at_def sample_db_def created_def new_user_def map_of_fd_add_old)
qed

lemma sample_wire [simp]: "wire_string alice" "wire_string bob" "wire_string ''hello''"
  by (simp_all add: alice_def bob_def)

lemma sample_status [simp]: "get_u8 ud_status (fresh_ud sample_junk u) = STATUS_DCN" if "user_ok u" for u
  using fresh_ud_ok(3) [OF sample_junk_ok(1) that] by (simp add: sample_junk_def srv_defs)

text \<open>Bob connected from \<open>127.0.0.1\<close>, with his listening thread at port 5000.\<close>

definition bob_online :: mem where
  "bob_online = connected (fresh_ud sample_junk bob) 16777343 5000"

definition sample_online :: "string list \<Rightarrow> world" where
  "sample_online ls = put_ud bob bob_online (sample_db ls)"

lemma bob_online_ok [simp]: "ud_ok bob bob_online" "get_u8 ud_status bob_online = STATUS_CN"
  "get_u32 ud_ip bob_online = 16777343"
  using connected_ok [OF fresh_ud_ok(1) [OF sample_junk_ok(1) sample_users(2)] sample_users(2), of 16777343 5000]
  by (simp_all add: bob_online_def)

lemma sample_online_inv [simp]: "db_inv (sample_online ls)"
  "ud_of (sample_online ls) = [alice \<mapsto> fresh_ud sample_junk alice, bob \<mapsto> bob_online]"
  "pend_of (sample_online ls) = (\<lambda>_ _. None)"
proof -
  show "db_inv (sample_online ls)"
    unfolding sample_online_def by (rule put_ud_inv [where m = "fresh_ud sample_junk bob"]) simp_all
  show "ud_of (sample_online ls) = [alice \<mapsto> fresh_ud sample_junk alice, bob \<mapsto> bob_online]"
    "pend_of (sample_online ls) = (\<lambda>_ _. None)"
    by (simp_all add: sample_online_def)
qed

lemma sample_online_client:
  "\<forall>l\<in>set ls. wire_string l \<Longrightarrow> client_at (sample_online ls) 4 ls [] 16777343 40000"
  using sample_client(2) [of ls] by (simp add: sample_online_def client_at_def put_ud_def)

lemma sample_reach [simp]: "reach (sample_db ls) = (\<lambda>ip pt. ip \<noteq> 0)" "reach (sample_online ls) = (\<lambda>ip pt. ip \<noteq> 0)"
  "reach (sample_world ls) = (\<lambda>ip pt. ip \<noteq> 0)"
  by (simp_all add: sample_online_def sample_db_def sample_world_def created_def new_user_def)

lemma sample_reachable [simp]: "reachable (sample_online ls) bob_online"
  by (simp add: reachable_def)

text \<open>A client that sends one request, and messages waiting for Bob.\<close>

definition sample_cl :: "client_req \<Rightarrow> client" where
  "sample_cl r = \<lparr>cl_junk = sample_junk, cl_request = sample_request,
     cl_input = concat (map (\<lambda>l. l @ [NUL]) (lines_of r)), cl_ip = 16777343, cl_port = 40000\<rparr>"

lemma sample_sends [simp]: "req_ok r \<Longrightarrow> sends (sample_cl r) r"
  by (simp add: sends_def sample_cl_def)

definition hello :: mem where
  "hello = new_msg (replicate sizeof_entry NUL) alice bob ''hello'' 1"

definition sample_pending :: "string list \<Rightarrow> world" where
  "sample_pending ls = add_msg bob 1 hello (sample_db ls)"

lemma hello_ok [simp]: "msg_ok bob 1 hello" "cstr ms_sender hello = alice" "cstr ms_content hello = ''hello''"
  unfolding hello_def by (rule new_msg_ok; simp)+

lemma sample_pending_inv [simp]: "db_inv (sample_pending ls)"
  "ud_of (sample_pending ls) = [alice \<mapsto> fresh_ud sample_junk alice, bob \<mapsto> fresh_ud sample_junk bob]"
  "pend_of (sample_pending ls) = (\<lambda>_ _. None)(bob := [1 \<mapsto> hello])"
  "reach (sample_pending ls) = (\<lambda>ip pt. ip \<noteq> 0)"
proof -
  show "db_inv (sample_pending ls)"
    unfolding sample_pending_def
    by (rule add_msg_inv [where m = "fresh_ud sample_junk bob"]) simp_all
  show "ud_of (sample_pending ls) = [alice \<mapsto> fresh_ud sample_junk alice, bob \<mapsto> fresh_ud sample_junk bob]"
    "pend_of (sample_pending ls) = (\<lambda>_ _. None)(bob := [1 \<mapsto> hello])"
    "reach (sample_pending ls) = (\<lambda>ip pt. ip \<noteq> 0)"
    by (simp_all add: sample_pending_def) (simp add: add_msg_def)
qed

lemma sample_pending_client:
  "\<forall>l\<in>set ls. wire_string l \<Longrightarrow> client_at (sample_pending ls) 4 ls [] 16777343 40000"
  using sample_client(2) [of ls] by (simp add: sample_pending_def client_at_def add_msg_def)

lemma sample_port_wire [simp]: "wire_string (port_line pt)"
  by (simp add: port_line_def show_nat_wire)

text \<open>The same, where nobody listens.\<close>

definition sample_deaf :: "string list \<Rightarrow> world" where
  "sample_deaf ls = (sample_pending ls)\<lparr>reach := (\<lambda>_ _. False)\<rparr>"

lemma reach_irrelevant:
  "db_inv (w\<lparr>reach := f\<rparr>) = db_inv w" "ud_of (w\<lparr>reach := f\<rparr>) = ud_of w" "pend_of (w\<lparr>reach := f\<rparr>) = pend_of w"
  by (simp_all add: db_inv_def db_ready_def quiet_def table_ok_def ud_of_def pend_of_def path_defs fun_eq_iff)

lemma sample_deaf_simps [simp]:
  "db_inv (sample_deaf ls)" "reach (sample_deaf ls) = (\<lambda>_ _. False)"
  "ud_of (sample_deaf ls) = [alice \<mapsto> fresh_ud sample_junk alice, bob \<mapsto> fresh_ud sample_junk bob]"
  "pend_of (sample_deaf ls) = (\<lambda>_ _. None)(bob := [1 \<mapsto> hello])"
  "\<forall>l\<in>set ls. wire_string l \<Longrightarrow> client_at (sample_deaf ls) 4 ls [] 16777343 40000"
proof -
  show "db_inv (sample_deaf ls)" "reach (sample_deaf ls) = (\<lambda>_ _. False)"
    "ud_of (sample_deaf ls) = [alice \<mapsto> fresh_ud sample_junk alice, bob \<mapsto> fresh_ud sample_junk bob]"
    "pend_of (sample_deaf ls) = (\<lambda>_ _. None)(bob := [1 \<mapsto> hello])"
    using sample_pending_inv [of ls] by (simp_all add: sample_deaf_def reach_irrelevant)
  show "client_at (sample_deaf ls) 4 ls [] 16777343 40000" if "\<forall>l\<in>set ls. wire_string l"
    using sample_pending_client [OF that] by (simp add: sample_deaf_def client_at_def)
qed

text \<open>A server directory with nothing in it.\<close>

definition empty_world :: world where
  "empty_world = (sample_world [])\<lparr>fs := [[] \<mapsto> Dir []]\<rparr>"

lemma empty_world_ok:
  "server_dir_ok empty_world" "fs empty_world (cwd empty_world @ [DB_DIR]) = None"
  by (simp_all add: server_dir_ok_def empty_world_def sample_world_def quiet_def posix_order_def
      is_dir_at_def wf_fs_def)

text \<open>Bob connected, but nobody listening; and a Bob whose status is neither of the two.\<close>

definition sample_unreachable :: "string list \<Rightarrow> world" where
  "sample_unreachable ls = (sample_online ls)\<lparr>reach := (\<lambda>_ _. False)\<rparr>"

lemma sample_unreachable_simps [simp]:
  "db_inv (sample_unreachable ls)" "reach (sample_unreachable ls) = (\<lambda>_ _. False)"
  "ud_of (sample_unreachable ls) = [alice \<mapsto> fresh_ud sample_junk alice, bob \<mapsto> bob_online]"
  "pend_of (sample_unreachable ls) = (\<lambda>_ _. None)"
  "\<forall>l\<in>set ls. wire_string l \<Longrightarrow> client_at (sample_unreachable ls) 4 ls [] 16777343 40000"
proof -
  show "db_inv (sample_unreachable ls)" "reach (sample_unreachable ls) = (\<lambda>_ _. False)"
    "ud_of (sample_unreachable ls) = [alice \<mapsto> fresh_ud sample_junk alice, bob \<mapsto> bob_online]"
    "pend_of (sample_unreachable ls) = (\<lambda>_ _. None)"
    by (simp_all add: sample_unreachable_def reach_irrelevant)
  show "client_at (sample_unreachable ls) 4 ls [] 16777343 40000" if "\<forall>l\<in>set ls. wire_string l"
    using sample_online_client [OF that] by (simp add: sample_unreachable_def client_at_def)
qed

definition odd_junk :: junk where
  "odd_junk = sample_junk\<lparr>jk_entry := replicate sizeof_entry (CHR ''x'')\<rparr>"

lemma odd_junk_ok [simp]: "junk_ok odd_junk"
  using sample_junk_ok(1) by (simp add: odd_junk_def junk_ok_def)

definition bob_odd :: mem where
  "bob_odd = fresh_ud odd_junk bob"

lemma bob_odd_ok [simp]: "ud_ok bob bob_odd" "get_u8 ud_status bob_odd \<noteq> STATUS_CN" "get_u8 ud_status bob_odd \<noteq> STATUS_DCN"
proof -
  show "ud_ok bob bob_odd" unfolding bob_odd_def by (rule fresh_ud_ok) simp_all
  have "get_u8 ud_status bob_odd = get_u8 ud_status (jk_entry odd_junk)"
    unfolding bob_odd_def by (rule fresh_ud_ok) simp_all
  also have "\<dots> = 120" by (simp add: odd_junk_def get_u8_def peek_def en_defs)
  finally show "get_u8 ud_status bob_odd \<noteq> STATUS_CN" "get_u8 ud_status bob_odd \<noteq> STATUS_DCN"
    by (simp_all add: srv_defs)
qed

definition sample_odd :: "string list \<Rightarrow> world" where
  "sample_odd ls = created bob bob_odd (created alice (fresh_ud sample_junk alice) (sample_world ls))"

lemma sample_odd_simps [simp]:
  "db_inv (sample_odd ls)" "ud_of (sample_odd ls) = [alice \<mapsto> fresh_ud sample_junk alice, bob \<mapsto> bob_odd]"
  "\<forall>l\<in>set ls. wire_string l \<Longrightarrow> client_at (sample_odd ls) 4 ls [] 16777343 40000"
proof -
  have n: "ud_of (created alice (fresh_ud sample_junk alice) (sample_world ls)) bob = None" by (simp add: sample_alice)
  show "db_inv (sample_odd ls)"
    unfolding sample_odd_def by (rule created_inv [OF sample_alice(1) _ n]) simp_all
  show "ud_of (sample_odd ls) = [alice \<mapsto> fresh_ud sample_junk alice, bob \<mapsto> bob_odd]"
    unfolding sample_odd_def using created_of(1) [OF sample_alice(1) _ n] by (simp add: sample_alice)
  show "client_at (sample_odd ls) 4 ls [] 16777343 40000" if "\<forall>l\<in>set ls. wire_string l"
    using sample_client(1) [OF that] by (simp add: client_at_def sample_odd_def created_def new_user_def map_of_fd_add_old)
qed

text \<open>A service thread whose \<^verbatim>\<open>send_msg_reply\<close> is not zero, a request left over from an
  UNREGISTER, and the client's socket.\<close>

definition busy_junk :: junk where
  "busy_junk = sample_junk\<lparr>jk_send_msg_reply := 5\<rparr>"

lemma busy_junk_ok [simp]: "junk_ok busy_junk" "jk_send_msg_reply busy_junk \<noteq> SRV_SUCCESS"
  using sample_junk_ok(1) by (simp_all add: busy_junk_def junk_ok_def srv_defs)

definition left_request :: mem where
  "left_request = strcpy rq_username bob (strcpy rq_op_code UNREGISTER sample_request)"

lemma left_request_parts [simp]: "cstr rq_op_code left_request = UNREGISTER" "cstr rq_username left_request = bob"
proof -
  have l: "length sample_request = sizeof_request" by simp
  have s: "length bob = 3" "c_string bob" "length UNREGISTER = 10" "c_string UNREGISTER"
    by (simp_all add: bob_def op_defs c_string_def)
  show "cstr rq_op_code left_request = UNREGISTER" "cstr rq_username left_request = bob"
    using l s by (simp_all add: left_request_def rq_defs mem_simps)
qed

lemma sample_fds [simp]:
  "map_of (fds (sample_world ls)) 4 = Some (DSock (concat (map (\<lambda>l. l @ [NUL]) ls)) 16777343 40000)"
  "map_of (fds (sample_db ls)) 4 = Some (DSock (concat (map (\<lambda>l. l @ [NUL]) ls)) 16777343 40000)"
  by (simp_all add: sample_world_def sample_db_def created_def new_user_def map_of_fd_add_old)

lemma sample_orc: "orc (sample_world ls) = []" "fds (w\<lparr>orc := xs\<rparr>) = fds w"
  by (simp_all add: sample_world_def)

definition sample_entry :: mem where
  "sample_entry = replicate sizeof_entry NUL"

end
