(* ===== verification/MsgIds.thy ===== *)
theory MsgIds
  imports SendLaws
begin

text \<open>
  Message numbers: \<open>next_msg_id\<close> counts modulo \<^verbatim>\<open>MSG_ID_MAX_VALUE\<close>, so a recipient's numbers
  repeat after that many messages and not before; and what two SENDs to one recipient do when
  their reads and writes of its data interleave, which the mutex \<^verbatim>\<open>mutex_db\<close> is there to
  prevent and nothing locks.
\<close>

lemma unat_next_msg_id: "unat (next_msg_id v) = unat (v + 1) mod MSG_ID_MAX_VALUE"
  by (simp add: next_msg_id_def unat_of_nat MSG_ID_MAX_VALUE_def)

lemma next_msg_id_less: "unat (next_msg_id v) < MSG_ID_MAX_VALUE"
  by (simp add: unat_next_msg_id MSG_ID_MAX_VALUE_def)

lemma next_msg_id_step:
  assumes "unat v < MSG_ID_MAX_VALUE"
  shows "unat (next_msg_id v) = (unat v + 1) mod MSG_ID_MAX_VALUE"
proof -
  have "unat v + 1 < 2 ^ 32" using assms by (simp add: MSG_ID_MAX_VALUE_def)
  then have "unat (v + 1) = unat v + 1" using unat_add_lem [of v 1] by simp
  then show ?thesis by (simp add: unat_next_msg_id)
qed

lemma next_msg_id_iter:
  assumes "unat v < MSG_ID_MAX_VALUE"
  shows "unat ((next_msg_id ^^ k) v) = (unat v + k) mod MSG_ID_MAX_VALUE"
proof (induction k)
  case 0
  then show ?case using assms by simp
next
  case (Suc k)
  have "unat ((next_msg_id ^^ k) v) < MSG_ID_MAX_VALUE" using Suc by (simp add: MSG_ID_MAX_VALUE_def)
  from next_msg_id_step [OF this] Suc show ?case by (simp add: mod_Suc_eq)
qed

lemma next_msg_id_distinct:
  assumes "unat v < MSG_ID_MAX_VALUE" "j < MSG_ID_MAX_VALUE" "k < MSG_ID_MAX_VALUE"
    and "(next_msg_id ^^ j) v = (next_msg_id ^^ k) v"
  shows "j = k"
proof -
  have "(unat v + j) mod MSG_ID_MAX_VALUE = (unat v + k) mod MSG_ID_MAX_VALUE"
    using next_msg_id_iter [OF assms(1), of j] next_msg_id_iter [OF assms(1), of k] assms(4) by simp
  then have "int (unat v + j) mod int MSG_ID_MAX_VALUE = int (unat v + k) mod int MSG_ID_MAX_VALUE"
    by (metis zmod_int)
  then have "int MSG_ID_MAX_VALUE dvd int j - int k"
    by (simp add: mod_eq_dvd_iff)
  then show ?thesis
    using assms(2,3) zdvd_imp_le [of "int MSG_ID_MAX_VALUE" "int j - int k"]
      zdvd_imp_le [of "int MSG_ID_MAX_VALUE" "int k - int j"] dvd_diff_commute [of "int MSG_ID_MAX_VALUE" "int j" "int k"]
    by (cases j k rule: linorder_cases) auto
qed

subsection \<open>Two SENDs at once\<close>

text \<open>The database calls of \<^verbatim>\<open>aux_send_init\<close> and the storing of the message of two threads,
  with both reads before both writes.\<close>

definition store_entry :: "mem \<Rightarrow> string \<Rightarrow> string \<Rightarrow> string \<Rightarrow> mem \<Rightarrow> mem" where
  "store_entry e s u c m = new_msg e s u c (get_u32 ud_last_msg_id m)"

definition two_sends :: "mem \<Rightarrow> mem \<Rightarrow> string \<Rightarrow> string \<Rightarrow> string \<Rightarrow> string \<Rightarrow> string \<Rightarrow> (int \<times> int) prog" where
  "two_sends e e' s1 s2 u c1 c2 = do {
     (_, m1) \<leftarrow> db_io_op_usr_ent (ud_query e u) READ;
     (_, m2) \<leftarrow> db_io_op_usr_ent (ud_query e u) READ;
     _ \<leftarrow> db_io_op_usr_ent (bump m1) MODIFY;
     _ \<leftarrow> db_io_op_usr_ent (bump m2) MODIFY;
     (r1, _) \<leftarrow> db_io_op_usr_ent (store_entry e' s1 u c1 (bump m1)) CREATE;
     (r2, _) \<leftarrow> db_io_op_usr_ent (store_entry e' s2 u c2 (bump m2)) CREATE;
     return (r1, r2) }"

lemma run_two_sends:
  assumes "db_inv w" "user_ok s1" "user_ok s2" "user_ok u" "ud_of w u = Some m"
    and "length e = sizeof_entry" "length e' = sizeof_entry"
    and "wire_string c1" "length c1 \<le> 255" "wire_string c2" "length c2 \<le> 255"
  defines "i \<equiv> next_msg_id (get_u32 ud_last_msg_id m)"
  assumes "pend_of w u i = None"
  shows "run_state (two_sends e e' s1 s2 u c1 c2) w = ((DBMS_SUCCESS, DBMS_ERR_ANY),
    (add_msg u i (new_msg e' s1 u c1 i) (put_ud u (bump m) (put_ud u (bump m) w)))\<lparr>err_no := Some EEXIST\<rparr>)"
proof -
  have m: "ud_ok u m" by (rule ud_ofD(2) [OF assms(1,4,5)])
  note b = bump_simps [OF m assms(4)]
  have q: "ud_ok u (ud_query e u)" using assms(4,6) by (simp add: ud_query_ok)
  let ?w1 = "put_ud u (bump m) w" and ?w2 = "put_ud u (bump m) (put_ud u (bump m) w)"
  have w1: "db_inv ?w1" "ud_of ?w1 u = Some (bump m)"
    using put_ud_inv [OF assms(1,4,5) b(1)] by simp_all
  have w2: "db_inv ?w2" "ud_of ?w2 u = Some (bump m)" "pend_of ?w2 u i = None"
    using put_ud_inv [OF w1(1) assms(4) w1(2) b(1)] assms(13) by simp_all
  note n1 = new_msg_ok(1) [OF assms(7,2,4,8,9), of i] and n2 = new_msg_ok(1) [OF assms(7,3,4,10,11), of i]
  have w3: "db_inv (add_msg u i (new_msg e' s1 u c1 i) ?w2)"
    by (rule add_msg_inv [OF w2(1) assms(4) w2(2) n1 w2(3)])
  show ?thesis
    using run_read_ud [OF assms(1,4,5) q] run_modify_ud [OF assms(1,4,5) b(1)] run_modify_ud [OF w1(1) assms(4) w1(2) b(1)]
      run_create_msg [OF w2(1) assms(4) w2(2) msg_ok_key [OF n1]]
      run_create_msg [OF w3 assms(4) _ msg_ok_key [OF n2]] w2 b(3)
    by (simp add: two_sends_def store_entry_def i_def)
qed

end
