(* ===== verification/Cases.thy ===== *)
theory Cases
  imports Samples MsgIds
begin

text \<open>
  Single cases worth stating on their own, which the refinement of the chat specification covers
  in a more abstract way: refused arguments, DISCONNECT, SEND to a recipient out of reach, and
  numbers printed and parsed.
\<close>

text \<open>Arguments are checked: with a wrong number of arguments, another option, or a port with no
  digits, \<^verbatim>\<open>main\<close> returns \<^verbatim>\<open>GEN_ERR_INV_ARGS\<close> and nothing is opened or created.\<close>

lemma arguments_checked:
  assumes "length argv \<noteq> 3 \<or> argv ! 1 \<noteq> ''-p'' \<or> fst (snd (strtol (argv ! 2))) = 0"
  shows "\<exists>w2. run_state (main_start argv) w = (Inl GEN_ERR_INV_ARGS, w2) \<and> fs w2 = fs w \<and>
    fds w2 = fds w \<and> trace w2 = trace w"
proof (cases "length argv \<noteq> 3 \<or> argv ! 1 \<noteq> ''-p''")
  case True
  then show ?thesis using bad_args_refused [of argv w] by simp
next
  case False
  with assms have "fst (snd (strtol (argv ! 2))) = 0" by simp
  with False show ?thesis
    by (auto simp: main_start_def main_args_def str_to_num_def run_set_errno cast_defs Let_def err_defs
        split: prod.splits)
qed

text \<open>DISCONNECT of a user that is not offline: status, address and port are cleared, the
  message counter and everything else stays, and the reply is success.\<close>

lemma disconnect_clears_address:
  assumes "db_inv w" "user_ok u" "client_at w n [u] rest ip pt" "length q = sizeof_request" "junk_ok jk"
    and "ud_of w u = Some m" "get_u8 ud_status m \<noteq> STATUS_DCN"
  shows "\<exists>q2 w2 m2. run_state (srv_disconnect jk (int n) q) w = (q2, w2) \<and> db_inv w2 \<and>
    ud_of w2 = (ud_of w)(u \<mapsto> m2) \<and> pend_of w2 = pend_of w \<and>
    get_u8 ud_status m2 = STATUS_DCN \<and> get_u32 ud_ip m2 = 0 \<and> get_u16 ud_port m2 = 0 \<and>
    get_u32 ud_last_msg_id m2 = get_u32 ud_last_msg_id m \<and>
    trace w2 = trace w @ [EvPrint (result_line DISCONNECT u SRV_SUCCESS), reply_ev n SRV_SUCCESS]"
proof -
  have m: "ud_ok u m" by (rule ud_ofD(2) [OF assms(1,2,6)])
  have "db_inv (put_ud u (disconnected m) (received n rest ip pt w))"
    using assms(1,6) disconnected_ok(1) [OF m assms(2)]
    by (intro put_ud_inv [OF _ assms(2), where m = m]) simp_all
  moreover have "get_u32 ud_ip (disconnected m) = 0" "get_u16 ud_port (disconnected m) = 0"
    using account_simps(4) [OF m assms(2)] by (simp_all add: account_of_def)
  ultimately show ?thesis
    using run_disconnect(3) [OF assms] disconnected_ok(2,3) [OF m assms(2)]
    by (auto intro!: exI [of _ "disconnected m"])
qed

text \<open>SEND to a user that is connected by its data but cannot be reached: the status becomes
  disconnected, the message is stored, and the sender gets success and the number.\<close>

lemma send_unreachable_stores:
  assumes "db_inv w" "user_ok s" "user_ok u" "client_at w n [s, u, c] rest ip pt"
    and "length q = sizeof_request" "junk_ok jk" "ud_of w s = Some ms" "ud_of w u = Some m"
    and "get_u8 ud_status m = STATUS_CN" "\<not> reachable w m"
    and "pend_of w u (next_msg_id (get_u32 ud_last_msg_id m)) = None"
  shows "\<exists>q2 w2 d. run_state (srv_send jk (int n) q) w = (q2, w2) \<and> db_inv w2 \<and>
    ud_of w2 = (ud_of w)(u \<mapsto> offline (bump m)) \<and>
    pend_of w2 = (pend_of w)(u := (pend_of w u)(next_msg_id (get_u32 ud_last_msg_id m) \<mapsto> d)) \<and>
    cstr ms_sender d = s \<and> cstr ms_content d = take 255 c \<and>
    trace w2 = trace w @ [EvOverflow, EvOverflow,
      EvPrint (stored_line (next_msg_id (get_u32 ud_last_msg_id m)) s u), reply_ev n SRV_SUCCESS,
      id_ev n (next_msg_id (get_u32 ud_last_msg_id m))]"
proof -
  let ?i = "next_msg_id (get_u32 ud_last_msg_id m)"
  let ?d = "new_msg (jk_msg_entry jk) s u (take 255 c) ?i"
  obtain v where v: "db_inv v" "ud_of v = (ud_of w)(u \<mapsto> offline (bump m))" "pend_of v = pend_of w"
    and run: "run_state (srv_send jk (int n) q) w = (send_request s u c q, (add_msg u ?i ?d v)\<lparr>trace := trace w @
      [EvOverflow, EvOverflow, EvPrint (stored_line ?i s u), reply_ev n SRV_SUCCESS, id_ev n ?i]\<rparr>)"
    using run_send_unreachable [OF assms(1-10)] assms(11) by auto
  have "msg_ok u ?i ?d" using run_send_known(6) [OF assms(1-8)] .
  then have "db_inv (add_msg u ?i ?d v)"
    using v assms(11) by (intro add_msg_inv [OF v(1) assms(3), where m = "offline (bump m)"]) simp_all
  with v run new_msg_parts [OF assms(6,2,3,4), of ?i] show ?thesis by (auto intro!: exI [of _ ?d])
qed

text \<open>A number printed is the number parsed: \<^verbatim>\<open>str_to_num\<close> reads every 32-bit unsigned number,
  as the files of pending messages are named, back from its decimal digits.\<close>

lemma number_round_trip:
  "run_state (str_to_num (show_nat (unat (i :: u32))) UINT_TYPE) w = ((0, Some i), w\<lparr>err_no := None\<rparr>)"
proof -
  have "unat i < 2 ^ 63" using unsigned_less [of i, where ?'a = nat] by simp
  from run_str_to_num_show(1) [OF this, of w] show ?thesis by simp
qed

end
