(* ===== verification/TransferLaws.thy ===== *)
theory TransferLaws
  imports NetUtil
begin

text \<open>
  The transfers of \<^verbatim>\<open>util.c\<close> and \<^verbatim>\<open>netUtil.c\<close> on a socket when calls fail, are interrupted
  or move only some of the bytes: whatever the oracle says, a string goes out whole or the
  connection is closed; and a line is received as a function of the bytes of the peer alone, as
  long as the only failures are interrupts.
\<close>

subsection \<open>Sending\<close>

definition sock :: "nat \<Rightarrow> world \<Rightarrow> bool" where
  "sock n w \<longleftrightarrow> (\<exists>inp ip pt. map_of (fds w) n = Some (DSock inp ip pt))"

lemma sys_write_sock:
  assumes "run_state (sys_write (int n) bs) w = (r, w1)" "sock n w" "bs \<noteq> []"
  shows "r = -1 \<and> (\<exists>xs e. w1 = w\<lparr>orc := xs, err_no := e\<rparr>) \<or>
    (\<exists>k xs. 0 < k \<and> k \<le> length bs \<and> r = int k \<and>
      w1 = w\<lparr>orc := xs, trace := trace w @ [EvSend n (take k bs)]\<rparr>)"
  using assms(1) unfolding sys_write_def
proof (cases rule: syscall_cases)
  case (fail e xs)
  then show ?thesis by blast
next
  case (err k xs e)
  with assms(2) show ?thesis by (auto simp: sock_def Let_def)
next
  case (ok k xs)
  with assms(2,3) show ?thesis
    by (auto simp: sock_def Let_def intro!: exI [of _ "limit k (length bs)"] exI [of _ xs])
qed

text \<open>The pieces a run of \<^verbatim>\<open>write\<close> calls sends make up a prefix, and all of it exactly on
  success.\<close>

lemma write_loop_pieces:
  assumes "write_loop (int n) bs tot w = (r, w')" "sock n w" "bs \<noteq> []"
  shows "\<exists>ps xs e. w' = w\<lparr>orc := xs, err_no := e, trace := trace w @ map (EvSend n) ps\<rparr> \<and>
    (r = tot + int (length bs) \<and> concat ps = bs \<or>
     r = -1 \<and> (\<exists>k<length bs. concat ps = take k bs))"
  using assms
proof (induction "length bs" arbitrary: bs tot w rule: less_induct)
  case less
  obtain r1 w1 where run: "run_state (sys_write (int n) bs) w = (r1, w1)" by fastforce
  from sys_write_sock [OF this less.prems(2,3)]
  consider (bad) xs e where "r1 = -1" "w1 = w\<lparr>orc := xs, err_no := e\<rparr>"
    | (all) xs where "r1 = int (length bs)" "w1 = w\<lparr>orc := xs, trace := trace w @ [EvSend n bs]\<rparr>"
    | (part) k xs where "0 < k" "k < length bs" "r1 = int k"
        "w1 = w\<lparr>orc := xs, trace := trace w @ [EvSend n (take k bs)]\<rparr>"
    by (metis le_neq_implies_less take_all_iff)
  then show ?case
  proof cases
    case bad
    then have "(r, w') = (-1, w1)"
      using less.prems(1,3) run by (simp add: write_loop.simps [of _ bs] GEN_ERR_ANY_def)
    with bad less.prems(3) show ?thesis
      by (intro exI [of _ "[]"] exI [of _ xs] exI [of _ e]) (auto intro!: exI [of _ 0])
  next
    case all
    then have "(r, w') = (tot + int (length bs), w1)"
      using less.prems(1,3) run by (simp add: write_loop.simps [of _ bs])
    with all show ?thesis
      by (intro exI [of _ "[bs]"] exI [of _ xs] exI [of _ "err_no w"]) auto
  next
    case part
    then have loop: "write_loop (int n) (drop k bs) (tot + int k) w1 = (r, w')"
      using less.prems(1) run by (simp add: write_loop.simps [of _ bs])
    have "sock n w1" using less.prems(2) part by (simp add: sock_def)
    with less.hyps [OF _ loop this] part
    have "\<exists>ps ys e. w' = w1\<lparr>orc := ys, err_no := e, trace := trace w1 @ map (EvSend n) ps\<rparr> \<and>
      (r = tot + int k + int (length (drop k bs)) \<and> concat ps = drop k bs \<or>
       r = -1 \<and> (\<exists>j<length (drop k bs). concat ps = take j (drop k bs)))" by simp
    then obtain ps ys e where ps: "w' = w1\<lparr>orc := ys, err_no := e, trace := trace w1 @ map (EvSend n) ps\<rparr>"
      "r = tot + int k + int (length (drop k bs)) \<and> concat ps = drop k bs \<or>
       r = -1 \<and> (\<exists>j<length (drop k bs). concat ps = take j (drop k bs))" by blast
    from ps(2) have "r = tot + int (length bs) \<and> concat (take k bs # ps) = bs \<or>
       r = -1 \<and> (\<exists>j<length bs. concat (take k bs # ps) = take j bs)"
    proof
      assume "r = -1 \<and> (\<exists>j<length (drop k bs). concat ps = take j (drop k bs))"
      then obtain j where "r = -1" "j < length bs - k" "concat ps = take j (drop k bs)" by auto
      then show ?thesis using part by (auto simp: take_add [symmetric] intro!: exI [of _ "k + j"])
    qed (use part in auto)
    with ps(1) part show ?thesis
      by (intro exI [of _ "take k bs # ps"] exI [of _ ys] exI [of _ e]) simp
  qed
qed

text \<open>What went out at a descriptor.\<close>

definition sent :: "nat \<Rightarrow> event list \<Rightarrow> char list" where
  "sent n tr = concat (map (\<lambda>ev. case ev of EvSend m bs \<Rightarrow> if m = n then bs else [] | _ \<Rightarrow> []) tr)"

lemma sent_simps [simp]:
  "sent n [] = []" "sent n (tr @ tr') = sent n tr @ sent n tr'" "sent n (map (EvSend n) ps) = concat ps"
  "sent n (EvClose m # tr) = sent n tr" "sent n (EvSend n bs # tr) = bs @ sent n tr"
  by (simp_all add: sent_def comp_def)

lemma send_string_all:
  assumes "run_state (send_string (int n) s) w = (r, w')" "sock n w"
  shows "fs w' = fs w \<and> (\<exists>tr. trace w' = trace w @ tr \<and>
    (r = 0 \<and> sent n tr = s @ [NUL] \<and> fds w' = fds w \<or>
     r = GEN_ERR_ANY \<and> (\<exists>k<length s + 1. sent n tr = take k (s @ [NUL])) \<and>
       fds w' = fd_del n (fds w) \<and> EvClose n \<in> set tr))"
proof -
  obtain r1 w1 where run: "write_loop (int n) (s @ [NUL]) 0 w = (r1, w1)" by fastforce
  from write_loop_pieces [OF run assms(2)] obtain ps xs e where
    w1: "w1 = w\<lparr>orc := xs, err_no := e, trace := trace w @ map (EvSend n) ps\<rparr>" and
    r1: "r1 = int (length (s @ [NUL])) \<and> concat ps = s @ [NUL] \<or>
      r1 = -1 \<and> (\<exists>k<length (s @ [NUL]). concat ps = take k (s @ [NUL]))" by auto
  from r1 show ?thesis
  proof
    assume "r1 = int (length (s @ [NUL])) \<and> concat ps = s @ [NUL]"
    with assms(1) run w1 show ?thesis
      by (auto simp: send_string_def CHECK_SOCK_ERROR_def write_bytes_def)
  next
    assume bad: "r1 = -1 \<and> (\<exists>k<length (s @ [NUL]). concat ps = take k (s @ [NUL]))"
    with assms(1) run have "(r, w') = (GEN_ERR_ANY, snd (run_state (sys_close (int n)) w1))"
      by (auto simp: send_string_def CHECK_SOCK_ERROR_def write_bytes_def split: prod.splits)
    with assms(2) w1 have "r = GEN_ERR_ANY"
      "w' = w1\<lparr>fds := fd_del n (fds w), trace := trace w @ map (EvSend n) ps @ [EvClose n]\<rparr>"
      by (auto simp: sys_close_def sock_def)
    with bad w1 show ?thesis by (intro conjI exI [of _ "map (EvSend n) ps @ [EvClose n]"]) auto
  qed
qed

subsection \<open>Receiving\<close>

definition line_end :: "char \<Rightarrow> bool" where
  "line_end c \<longleftrightarrow> c = LF \<or> c = NUL"

text \<open>The oracle only interrupts and shortens.\<close>

definition interrupts_only :: "world \<Rightarrow> bool" where
  "interrupts_only w \<longleftrightarrow> (\<forall>e. Fail e \<in> set (orc w) \<longrightarrow> e = EINTR)"

text \<open>What \<^verbatim>\<open>read_line\<close> returns and stores, from the bytes the peer sends.\<close>

definition line_result :: "nat \<Rightarrow> char list \<Rightarrow> nat \<Rightarrow> nat \<Rightarrow> mem \<Rightarrow> int \<times> mem" where
  "line_result tot inp off buf_space m =
     (if inp = [] \<and> tot = 0 then (0, m)
      else (let l = takeWhile (\<lambda>c. \<not> line_end c) inp in
        (int (min (tot + length l) (buf_space - 1)), poke (off + tot) (take (buf_space - 1 - tot) l @ [NUL]) m)))"

definition line_rest :: "char list \<Rightarrow> char list" where
  "line_rest inp = drop 1 (dropWhile (\<lambda>c. \<not> line_end c) inp)"

lemma sys_read_sock:
  assumes "run_state (sys_read (int n) (Suc 0)) w = ((r, bs), w1)" "map_of (fds w) n = Some (DSock inp ip pt)"
    and "interrupts_only w"
  shows "r = -1 \<and> err_no w1 = Some EINTR \<and> fds w1 = fds w \<and> interrupts_only w1 \<and>
      length (orc w1) < length (orc w) \<or>
    r = int (length bs) \<and> bs = take 1 inp \<and> interrupts_only w1 \<and>
      fds w1 = fd_set n (DSock (drop 1 inp) ip pt) (fds w)"
  using assms(1) unfolding sys_read_def
proof (cases rule: syscall_cases)
  case (fail e xs)
  with assms(3) show ?thesis by (auto simp: interrupts_only_def)
next
  case (err k xs e)
  with assms(2) show ?thesis by (auto simp: Let_def)
next
  case (ok k xs)
  with assms(2,3) show ?thesis by (cases inp) (auto simp: Let_def interrupts_only_def)
qed

lemma line_result_step:
  assumes "\<not> line_end c" "1 < sp" "off + sp \<le> length m"
  shows "tot < sp - 1 \<Longrightarrow> line_result (tot + 1) inp off sp (poke (off + tot) [c] m) = line_result tot (c # inp) off sp m"
    "tot = sp - 1 \<Longrightarrow> line_result tot inp off sp m = line_result tot (c # inp) off sp m"
proof -
  show "line_result (tot + 1) inp off sp (poke (off + tot) [c] m) = line_result tot (c # inp) off sp m"
    if "tot < sp - 1"
  proof -
    define l where "l = takeWhile (\<lambda>c. \<not> line_end c) inp"
    have l: "takeWhile (\<lambda>c. \<not> line_end c) (c # inp) = c # l" using assms(1) by (simp add: l_def)
    define k where "k = sp - 1 - (tot + 1)"
    have k: "sp - 1 - tot = Suc k" "sp - 1 - (tot + 1) = k" using that by (simp_all add: k_def)
    have "off + tot + length (take k l @ [NUL]) < length m" using assms(3) k that by auto
    then have "poke (Suc (off + tot)) (take k l @ [NUL]) (poke (off + tot) [c] m) = poke (off + tot) (c # take k l @ [NUL]) m"
      by (rule poke_Cons)
    then show ?thesis
      unfolding line_result_def l Let_def l_def [symmetric] k by simp
  qed
  show "line_result tot inp off sp m = line_result tot (c # inp) off sp m" if "tot = sp - 1"
    using assms that by (simp add: line_result_def Let_def)
qed

lemma read_line_loop_result:
  assumes "map_of (fds w) n = Some (DSock inp ip pt)" "interrupts_only w" "tot < sp" "1 < sp" "off + sp \<le> length m"
  shows "\<exists>w'. read_line_loop (int n) off sp tot m w = (line_result tot inp off sp m, w') \<and> interrupts_only w' \<and>
    map_of (fds w') n = Some (DSock (line_rest inp) ip pt)"
  using assms
proof (induction "length (orc w) + length inp" arbitrary: w inp tot m rule: less_induct)
  case less
  obtain r bs w1 where run: "run_state (sys_read (int n) (Suc 0)) w = ((r, bs), w1)" by (metis prod.exhaust)
  note step = read_line_loop.simps [of "int n" off sp tot m w]
  from sys_read_sock [OF run less.prems(1,2)]
  consider (intr) "r = -1" "err_no w1 = Some EINTR" "fds w1 = fds w" "interrupts_only w1" "length (orc w1) < length (orc w)"
    | (eof) "inp = []" "r = 0" "bs = []" "interrupts_only w1" "fds w1 = fd_set n (DSock [] ip pt) (fds w)"
    | (byte) c cs where "inp = c # cs" "r = 1" "bs = [c]" "interrupts_only w1" "fds w1 = fd_set n (DSock cs ip pt) (fds w)"
    by (cases inp) auto
  then show ?case
  proof cases
    case intr
    with less.hyps [of w1 inp tot m] less.prems run show ?thesis by (simp add: step)
  next
    case eof
    with less.prems run show ?thesis
      by (auto simp: step line_result_def line_rest_def map_of_fd_set)
  next
    case byte
    show ?thesis
    proof (cases "line_end c")
      case True
      with byte less.prems run show ?thesis
        by (auto simp: step line_result_def line_rest_def line_end_def map_of_fd_set)
    next
      case False
      let ?m = "if tot < sp - 1 then poke (off + tot) [c] m else m"
      let ?t = "if tot < sp - 1 then tot + 1 else tot"
      have "read_line_loop (int n) off sp tot m w = read_line_loop (int n) off sp ?t ?m w1"
        using False byte run by (simp add: step line_end_def)
      moreover have "tot = sp - 1" if "\<not> tot < sp - 1" using that less.prems(3) by simp
      then have "line_result ?t cs off sp ?m = line_result tot (c # cs) off sp m"
        using line_result_step [OF False less.prems(4,5), of tot cs] less.prems(3)
by (cases "tot < sp - 1") auto
      moreover have "length (orc w1) \<le> length (orc w)"
        using run byte unfolding sys_read_def by (cases rule: syscall_cases) (auto simp: Let_def split: if_splits option.splits desc.splits node.splits)
      then have "\<exists>w'. read_line_loop (int n) off sp ?t ?m w1 = (line_result ?t cs off sp ?m, w') \<and> interrupts_only w' \<and>
          map_of (fds w') n = Some (DSock (line_rest cs) ip pt)"
        using byte less.prems by (intro less.hyps) (auto simp: map_of_fd_set)
      moreover have "line_rest (c # cs) = line_rest cs" using False by (simp add: line_rest_def)
      ultimately show ?thesis using byte(1) by simp
    qed
  qed
qed

lemma recv_string_result:
  assumes "map_of (fds w) n = Some (DSock inp ip pt)" "interrupts_only w" "off + MAX_MSG_SIZE \<le> length m"
  shows "\<exists>w'. run_state (recv_string (int n) off m) w = ((0, snd (line_result 0 inp off MAX_MSG_SIZE m)), w') \<and>
    interrupts_only w' \<and> map_of (fds w') n = Some (DSock (line_rest inp) ip pt)"
proof -
  have "\<exists>w'. read_line_loop (int n) off MAX_MSG_SIZE 0 m (w\<lparr>err_no := None\<rparr>) =
      (line_result 0 inp off MAX_MSG_SIZE m, w') \<and> interrupts_only w' \<and>
      map_of (fds w') n = Some (DSock (line_rest inp) ip pt)"
    using assms by (intro read_line_loop_result) (auto simp: interrupts_only_def MAX_MSG_SIZE_def)
  then obtain w' where w': "read_line_loop (int n) off MAX_MSG_SIZE 0 m (w\<lparr>err_no := None\<rparr>) =
      (line_result 0 inp off MAX_MSG_SIZE m, w')" "interrupts_only w'"
      "map_of (fds w') n = Some (DSock (line_rest inp) ip pt)" by blast
  obtain a b where ab: "line_result 0 inp off MAX_MSG_SIZE m = (a, b)" by fastforce
  then have "0 \<le> a" by (auto simp: line_result_def Let_def split: if_splits)
  with w' ab show ?thesis
    by (simp add: recv_string_def read_line_def CHECK_SOCK_ERROR_def run_set_errno MAX_MSG_SIZE_def)
qed

subsection \<open>What a received line may change\<close>

text \<open>Whatever happens, \<^verbatim>\<open>read_line\<close> writes only the \<open>buf_space\<close> bytes it was given.\<close>

definition same_outside :: "nat \<Rightarrow> nat \<Rightarrow> mem \<Rightarrow> mem \<Rightarrow> bool" where
  "same_outside off k m m' \<longleftrightarrow> length m' = length m \<and> take off m' = take off m \<and> drop (off + k) m' = drop (off + k) m"

lemma same_outside_refl [simp]: "same_outside off k m m"
  by (simp add: same_outside_def)

lemma same_outside_trans: "same_outside off k m m' \<Longrightarrow> same_outside off k m' m'' \<Longrightarrow> same_outside off k m m''"
  by (simp add: same_outside_def)

lemma same_outside_poke:
  assumes "off \<le> p" "p + length bs \<le> off + k" "off + k \<le> length m" "p < off + k"
  shows "same_outside off k m (poke p bs m)"
  using assms by (simp add: same_outside_def poke_def min_def)

lemma read_line_loop_inside:
  assumes "tot < sp" "off + sp \<le> length m"
  shows "same_outside off sp m (snd (fst (read_line_loop d off sp tot m w)))"
  using assms
proof (induction d off sp tot m w rule: read_line_loop.induct)
  case (1 d off sp tot m w)
  obtain r bs w1 where run: "run_state (sys_read d 1) w = ((r, bs), w1)" by (metis prod.exhaust)
  note IH = "1.IH" [OF run [symmetric] refl]
  note step = read_line_loop.simps [of d off sp tot m w] run [simplified]
  have nul: "same_outside off sp m (poke (off + tot) [NUL] m)"
    using "1.prems" by (intro same_outside_poke) simp_all
  have one: "same_outside off sp m (poke (off + tot) [hd bs] m)"
    using "1.prems" by (intro same_outside_poke) simp_all
  have len: "off + sp \<le> length (poke (off + tot) [hd bs] m)" using one "1.prems" by (simp add: same_outside_def)
  consider "r = -1 \<and> err_no w1 = Some EINTR" | "r = -1 \<and> err_no w1 \<noteq> Some EINTR"
    | "r \<noteq> -1" "bs = [] \<or> hd bs = LF \<or> hd bs = NUL"
    | "r \<noteq> -1" "bs \<noteq> []" "hd bs \<noteq> LF" "hd bs \<noteq> NUL" "tot < sp - 1"
    | "r \<noteq> -1" "bs \<noteq> []" "hd bs \<noteq> LF" "hd bs \<noteq> NUL" "\<not> tot < sp - 1" by blast
  then show ?case
  proof cases
    case 1
    with IH(1) "1.prems" show ?thesis by (simp add: step)
  next
    case 3
    with nul show ?thesis by (auto simp: step)
  next
    case 4
    with IH(2) len have "same_outside off sp (poke (off + tot) [hd bs] m)
        (snd (fst (read_line_loop d off sp (tot + 1) (poke (off + tot) [hd bs] m) w1)))" by simp
    with same_outside_trans [OF one] 4 show ?thesis by (simp add: step)
  next
    case 5
    with IH(3) "1.prems" show ?thesis by (simp add: step)
  qed (simp add: step)
qed

lemma recv_string_inside:
  assumes "run_state (recv_string d off m) w = ((r, m'), w')" "off + MAX_MSG_SIZE \<le> length m"
  shows "same_outside off MAX_MSG_SIZE m m'"
proof -
  obtain r1 m1 w1 where loop: "read_line_loop d off MAX_MSG_SIZE 0 m (w\<lparr>err_no := None\<rparr>) = ((r1, m1), w1)"
    by (metis prod.exhaust)
  with assms(1) have "m' = m1"
    by (auto simp: recv_string_def read_line_def CHECK_SOCK_ERROR_def run_set_errno MAX_MSG_SIZE_def
        split: if_splits prod.splits)
  with loop read_line_loop_inside [of 0 MAX_MSG_SIZE off m d "w\<lparr>err_no := None\<rparr>"] assms(2) show ?thesis
    by (simp add: MAX_MSG_SIZE_def)
qed

text \<open>A string sent whole is received by whoever gets the bytes, cut to 255 characters.\<close>

lemma line_result_wire:
  assumes "wire_string s" "off + MAX_MSG_SIZE \<le> length m"
  shows "snd (line_result 0 (s @ NUL # rest) off MAX_MSG_SIZE m) = strcpy off (take 255 s) m"
    "line_rest (s @ NUL # rest) = rest"
proof -
  have "\<forall>c\<in>set s. \<not> line_end c" using assms(1) by (auto simp: wire_string_def line_end_def)
  then have "takeWhile (\<lambda>c. \<not> line_end c) (s @ NUL # rest) = s" "dropWhile (\<lambda>c. \<not> line_end c) (s @ NUL # rest) = NUL # rest"
    by (simp_all add: takeWhile_append2 dropWhile_append2 line_end_def)
  then show "snd (line_result 0 (s @ NUL # rest) off MAX_MSG_SIZE m) = strcpy off (take 255 s) m"
    "line_rest (s @ NUL # rest) = rest"
    by (simp_all add: line_result_def line_rest_def Let_def strcpy_def MAX_MSG_SIZE_def)
qed

end
