(* ===== verification/Isolation.thy ===== *)
theory Isolation
  imports TransferLaws ServicesSafe
begin

text \<open>
  What a service leaves alone. A program \<open>runs_in\<close> an invariant of the world if it keeps it and its
  result is in a given set; the rules follow the shape of programs. With the invariant that some
  descriptor has not changed, they show that whoever serves one client does not touch the connection
  of another, whatever fails: a new descriptor is never one in use, and every descriptor that is
  closed or moved is the client's own or was opened by the service itself. With the trivial
  invariant, they show that a request stays the size it has.
\<close>

definition runs_in :: "(world \<Rightarrow> bool) \<Rightarrow> 'a prog \<Rightarrow> ('a \<Rightarrow> bool) \<Rightarrow> bool" where
  "runs_in P m Q \<longleftrightarrow> (\<forall>w. P w \<longrightarrow> P (snd (run_state m w)) \<and> Q (fst (run_state m w)))"

named_theorems in_intros "programs that keep an invariant"

lemma runs_inI:
  "(\<And>w a w'. P w \<Longrightarrow> run_state m w = (a, w') \<Longrightarrow> P w' \<and> Q a) \<Longrightarrow> runs_in P m Q"
  unfolding runs_in_def by (metis prod.collapse)

lemma runs_inD: "runs_in P m Q \<Longrightarrow> P w \<Longrightarrow> run_state m w = (a, w') \<Longrightarrow> P w' \<and> Q a"
  by (auto simp: runs_in_def)

lemma runs_in_weaken: "runs_in P m Q1 \<Longrightarrow> (\<And>a. Q1 a \<Longrightarrow> Q a) \<Longrightarrow> runs_in P m Q"
  by (auto simp: runs_in_def)

lemma runs_in_bind:
  assumes "runs_in P m Q1" and "\<And>a. Q1 a \<Longrightarrow> runs_in P (f a) Q"
  shows "runs_in P (State_Monad.bind m f) Q"
  using assms by (auto simp: runs_in_def split: prod.splits)

lemma in_return [in_intros]: "Q x \<Longrightarrow> runs_in P (return x) Q"
  by (simp add: runs_in_def)

lemma in_bind [in_intros]:
  "runs_in P m (\<lambda>_. True) \<Longrightarrow> (\<And>a. runs_in P (f a) Q) \<Longrightarrow> runs_in P (State_Monad.bind m f) Q"
  by (rule runs_in_bind)

lemma in_if [in_intros]:
  "(b \<Longrightarrow> runs_in P m Q) \<Longrightarrow> (\<not> b \<Longrightarrow> runs_in P n Q) \<Longrightarrow> runs_in P (if b then m else n) Q"
  by simp

lemma in_option [in_intros]:
  "(x = None \<Longrightarrow> runs_in P m Q) \<Longrightarrow> (\<And>a. x = Some a \<Longrightarrow> runs_in P (f a) Q) \<Longrightarrow>
   runs_in P (case x of None \<Rightarrow> m | Some a \<Rightarrow> f a) Q"
  by (cases x) simp_all

lemma in_prod [in_intros]:
  "(\<And>a b. x = (a, b) \<Longrightarrow> runs_in P (f a b) Q) \<Longrightarrow> runs_in P (case x of (a, b) \<Rightarrow> f a b) Q"
  by (cases x) simp_all

lemma in_Let [in_intros]: "runs_in P (f x) Q \<Longrightarrow> runs_in P (Let x f) Q"
  by simp

lemma in_get [in_intros]: "runs_in P State_Monad.get (\<lambda>_. True)"
  by (simp add: runs_in_def)

lemma in_State:
  "(\<And>w. P w \<Longrightarrow> P (snd (f w)) \<and> Q (fst (f w))) \<Longrightarrow> runs_in P (State f) Q"
  by (simp add: runs_in_def)

subsection \<open>A descriptor that is not touched\<close>

text \<open>The events that concern a descriptor: what is written to it, and its end.\<close>

fun event_of :: "nat \<Rightarrow> event \<Rightarrow> bool" where
  "event_of k (EvSend n bs) = (n = k)"
| "event_of k (EvClose n) = (n = k)"
| "event_of k (EvConnect n ip pt) = (n = k)"
| "event_of k (EvPrint s) = False"
| "event_of k EvOverflow = False"

text \<open>Descriptor \<open>k\<close> is \<open>d\<close>, with its unread input, and what has happened on it is \<open>es\<close>.\<close>

definition holds :: "nat \<Rightarrow> desc \<times> event list \<Rightarrow> world \<Rightarrow> bool" where
  "holds k d w \<longleftrightarrow> map_of (fds w) k = Some (fst d) \<and> filter (event_of k) (trace w) = snd d"

text \<open>\<open>spares k d m Q\<close>: what \<open>m\<close> does leaves descriptor \<open>k\<close> as it is.\<close>

abbreviation spares :: "nat \<Rightarrow> desc \<times> event list \<Rightarrow> 'a prog \<Rightarrow> ('a \<Rightarrow> bool) \<Rightarrow> bool" where
  "spares k d \<equiv> runs_in (holds k d)"

lemma fresh_neq: "map_of t k = Some d \<Longrightarrow> fresh_fd t \<noteq> k"
  using fresh_fd_map [of t] by fastforce

lemma holds_add: "holds k d w \<Longrightarrow> holds k d (w\<lparr>fds := fd_add x (fds w)\<rparr>)"
  by (auto simp: holds_def map_of_fd_add dest: fresh_neq)

lemma holds_other: "n \<noteq> k \<Longrightarrow> holds k d (w\<lparr>fds := fd_set n x (fds w)\<rparr>) \<longleftrightarrow> holds k d w"
  "n \<noteq> k \<Longrightarrow> holds k d (w\<lparr>fds := fd_del n (fds w)\<rparr>) \<longleftrightarrow> holds k d w"
  by (auto simp: holds_def map_of_fd_set map_of_fd_del)

lemma spares_modify:
  "(\<And>w. fds (g w) = fds w \<and> filter (event_of k) (trace (g w)) = filter (event_of k) (trace w)) \<Longrightarrow>
   spares k d (modify g) (\<lambda>_. True)"
  by (simp add: runs_in_def modify_def holds_def)

lemma spares_syscall:
  assumes "Q bad"
    and "\<And>l w a w'. map_of (fds w) k = Some (fst d) \<Longrightarrow> act l w = Inr (a, w') \<Longrightarrow>
      map_of (fds w') k = Some (fst d) \<and> filter (event_of k) (trace w') = filter (event_of k) (trace w) \<and> Q a"
  shows "spares k d (syscall bad act) Q"
proof (rule runs_inI)
  fix w a w'
  assume h: "holds k d w" and "run_state (syscall bad act) w = (a, w')"
  from this(2) show "holds k d w' \<and> Q a"
  proof (cases rule: syscall_cases)
    case (ok l xs)
    with assms(2) [of "w\<lparr>orc := xs\<rparr>" l a w'] h show ?thesis by (simp add: holds_def)
  qed (use h assms(1) in \<open>simp_all add: holds_def\<close>)
qed

subsection \<open>System calls\<close>

lemma spares_set_errno [in_intros]: "spares k d (set_errno e) (\<lambda>_. True)"
  by (simp add: set_errno_def spares_modify)

lemma spares_printf [in_intros]: "spares k d (sys_printf s) (\<lambda>_. True)"
  by (simp add: sys_printf_def emit_def spares_modify)

lemma spares_sprintf [in_intros]: "spares k d (sys_sprintf n s) (\<lambda>_. True)"
  by (simp add: sys_sprintf_def emit_def in_return in_bind spares_modify)

lemma spares_opendir:
  "spares k d (sys_opendir s) (\<lambda>x. \<forall>y. x = Some y \<longrightarrow> fst y \<noteq> k)"
  unfolding sys_opendir_def
  by (rule spares_syscall)
    (auto simp: map_of_fd_add dest: fresh_neq split: sum.splits option.splits node.splits)

lemma spares_closedir: "n \<noteq> k \<Longrightarrow> spares k d (sys_closedir n) (\<lambda>_. True)"
  by (simp add: runs_in_def sys_closedir_def modify_def holds_other)

lemma spares_mkdir [in_intros]: "spares k d (sys_mkdir s) (\<lambda>_. True)"
  unfolding sys_mkdir_def by (rule spares_syscall) (auto split: sum.splits if_splits)

lemma int_fresh_neq: "map_of t k = Some d \<Longrightarrow> int (fresh_fd t) \<noteq> int k"
  using fresh_neq by simp

lemma spares_open: "spares k d (sys_open s fl) (\<lambda>r. r \<noteq> int k)"
  unfolding sys_open_def
  by (rule spares_syscall)
    (auto simp: map_of_fd_add dest: fresh_neq
      split: sum.splits option.splits node.splits oflags.splits if_splits)

lemma spares_read: "fd \<noteq> int k \<Longrightarrow> spares k d (sys_read fd n) (\<lambda>_. True)"
  unfolding sys_read_def
  by (rule spares_syscall)
    (auto simp: Let_def map_of_fd_set split: option.splits desc.splits node.splits if_splits)

lemma spares_write: "fd \<noteq> int k \<Longrightarrow> spares k d (sys_write fd bs) (\<lambda>_. True)"
  unfolding sys_write_def
  by (rule spares_syscall)
    (auto simp: Let_def map_of_fd_set split: option.splits desc.splits node.splits if_splits)

lemma spares_close: "fd \<noteq> int k \<Longrightarrow> spares k d (sys_close fd) (\<lambda>_. True)"
  by (auto simp: runs_in_def sys_close_def holds_def map_of_fd_del split: option.splits desc.splits)

lemma spares_remove [in_intros]: "spares k d (sys_remove s) (\<lambda>_. True)"
  unfolding sys_remove_def
  by (rule spares_syscall) (auto split: sum.splits option.splits node.splits if_splits)

lemma spares_socket: "spares k d sys_socket (\<lambda>r. r \<noteq> int k)"
  unfolding sys_socket_def by (rule spares_syscall) (auto simp: map_of_fd_add dest: fresh_neq)

lemma spares_connect: "fd \<noteq> int k \<Longrightarrow> spares k d (sys_connect fd ip pt) (\<lambda>_. True)"
  unfolding sys_connect_def
  by (rule spares_syscall) (auto simp: map_of_fd_set split: if_splits)

lemma spares_getpeername [in_intros]: "spares k d (sys_getpeername fd) (\<lambda>_. True)"
  unfolding sys_getpeername_def
  by (rule spares_syscall) (auto split: option.splits desc.splits if_splits)

lemma spares_accept: "spares k d (sys_accept inp ip pt) (\<lambda>r. r \<noteq> int k)"
  unfolding sys_accept_def by (rule spares_syscall) (auto simp: map_of_fd_add dest: fresh_neq)

declare spares_closedir [in_intros] spares_read [in_intros] spares_write [in_intros]
  spares_close [in_intros] spares_connect [in_intros]

text \<open>The result of these calls is a new descriptor, which is not \<open>k\<close>.\<close>

lemmas spares_bind_open [in_intros] = runs_in_bind [OF spares_open]

lemmas spares_bind_socket [in_intros] = runs_in_bind [OF spares_socket]

lemmas spares_bind_opendir [in_intros] = runs_in_bind [OF spares_opendir]

subsection \<open>Transfers\<close>

lemma write_loop_spares:
  "fd \<noteq> int k \<Longrightarrow> holds k d w \<Longrightarrow> holds k d (snd (write_loop fd buf tot w))"
proof (induction fd buf tot w rule: write_loop.induct)
  case (1 fd buf tot w)
  obtain r w1 where run: "run_state (sys_write fd buf) w = (r, w1)" by fastforce
  have "holds k d w1" using runs_inD [OF spares_write [OF "1.prems"(1)] "1.prems"(2) run] by simp
  with "1.IH" [OF run [symmetric] refl refl _ "1.prems"(1)] show ?case
    by (subst write_loop.simps) (auto simp: run Let_def)
qed

lemma read_loop_spares:
  "fd \<noteq> int k \<Longrightarrow> holds k d w \<Longrightarrow> holds k d (snd (read_loop fd off left tot m w))"
proof (induction fd off left tot m w rule: read_loop.induct)
  case (1 fd off left tot m w)
  obtain r bs w1 where run: "run_state (sys_read fd left) w = ((r, bs), w1)" by (metis prod.exhaust)
  have "holds k d w1" using runs_inD [OF spares_read [OF "1.prems"(1)] "1.prems"(2) run] by simp
  with "1.IH" [OF run [symmetric] refl refl refl _ "1.prems"(1)] show ?case
    by (subst read_loop.simps) (auto simp: run Let_def)
qed

lemma read_line_loop_spares:
  "fd \<noteq> int k \<Longrightarrow> holds k d w \<Longrightarrow> holds k d (snd (read_line_loop fd off sp tot m w))"
proof (induction fd off sp tot m w rule: read_line_loop.induct)
  case (1 fd off sp tot m w)
  obtain r bs w1 where run: "run_state (sys_read fd 1) w = ((r, bs), w1)" by (metis prod.exhaust)
  have w1: "holds k d w1" using runs_inD [OF spares_read [OF "1.prems"(1)] "1.prems"(2) run] by simp
  note IH = "1.IH" [OF run [symmetric] refl]
  show ?case
  proof (cases "r = -1")
    case True
    with w1 IH "1.prems"(1) show ?thesis
      by (subst read_line_loop.simps) (auto simp: run [simplified])
  next
    case False
    with w1 IH "1.prems"(1) show ?thesis
      by (subst read_line_loop.simps) (auto simp: run [simplified])
  qed
qed

lemma spares_write_bytes [in_intros]: "fd \<noteq> int k \<Longrightarrow> spares k d (write_bytes fd buf) (\<lambda>_. True)"
  by (simp add: write_bytes_def in_return in_State write_loop_spares)

lemma spares_read_bytes [in_intros]: "fd \<noteq> int k \<Longrightarrow> spares k d (read_bytes fd m len) (\<lambda>_. True)"
  by (simp add: read_bytes_def in_return in_State read_loop_spares)

lemma spares_read_line [in_intros]: "fd \<noteq> int k \<Longrightarrow> spares k d (read_line fd off sp m) (\<lambda>_. True)"
  by (auto simp: read_line_def intro!: in_intros in_State read_line_loop_spares)

lemma spares_str_to_num [in_intros]: "spares k d (str_to_num s ty) (\<lambda>_. True)"
  by (auto simp: str_to_num_def intro!: in_intros)

lemma spares_check_sock:
  "fd \<noteq> int k \<Longrightarrow> Q e \<Longrightarrow> spares k d m Q \<Longrightarrow> spares k d (CHECK_SOCK_ERROR r fd e m) Q"
  by (auto simp: CHECK_SOCK_ERROR_def intro!: in_intros)

lemma spares_send_server_reply [in_intros]:
  "fd \<noteq> int k \<Longrightarrow> spares k d (send_server_reply fd r) (\<lambda>_. True)"
  by (auto simp: send_server_reply_def intro!: in_intros spares_check_sock)

lemma spares_send_string [in_intros]: "fd \<noteq> int k \<Longrightarrow> spares k d (send_string fd s) (\<lambda>_. True)"
  by (auto simp: send_string_def intro!: in_intros spares_check_sock)

lemma spares_recv_string [in_intros]: "fd \<noteq> int k \<Longrightarrow> spares k d (recv_string fd off m) (\<lambda>_. True)"
  by (auto simp: recv_string_def intro!: in_intros spares_check_sock)

subsection \<open>The database\<close>

lemma spares_open_file: "spares k d (open_file p c) (\<lambda>r. r \<noteq> int k)"
  by (auto simp: open_file_def GEN_ERR_INV_ARGS_def intro!: in_intros spares_open)

definition not_stream :: "nat \<Rightarrow> dstream option \<Rightarrow> bool" where
  "not_stream k x \<longleftrightarrow> (\<forall>y. x = Some y \<longrightarrow> fst y \<noteq> k)"

lemma spares_open_directory: "spares k d (open_directory p c) (\<lambda>x. not_stream k (snd x))"
  by (auto simp: open_directory_def not_stream_def intro!: in_intros)

lemmas spares_bind_open_file [in_intros] = runs_in_bind [OF spares_open_file]

lemmas spares_bind_open_directory [in_intros] = runs_in_bind [OF spares_open_directory]

lemma spares_close_stream [in_intros]: "not_stream k x \<Longrightarrow> spares k d (close_stream x) (\<lambda>_. True)"
  by (auto simp: close_stream_def not_stream_def intro!: in_intros split: option.split)

lemma spares_remove_finish [in_intros]: "spares k d (remove_finish p) (\<lambda>_. True)"
  by (auto simp: remove_finish_def intro!: in_intros)

lemma remove_spares:
  "holds k d w \<Longrightarrow> holds k d (snd (remove_recursive path w))"
  "fd \<noteq> k \<Longrightarrow> holds k d v \<Longrightarrow> holds k d (snd (remove_entries path2 fd es v))"
proof (induction path w and path2 fd es v rule: remove_recursive_remove_entries.induct)
  case (1 path w)
  obtain r w1 where run: "run_state (sys_opendir path) (w\<lparr>err_no := None\<rparr>) = (r, w1)" by fastforce
  have "holds k d (w\<lparr>err_no := None\<rparr>)" using "1.prems" by (simp add: holds_def)
  note w1 = runs_inD [OF spares_opendir this run]
  show ?case
  proof (cases r)
    case None
    from w1 have "holds k d (snd (run_state (remove_finish path) w1))"
      using spares_remove_finish [of k d path] by (simp only: runs_in_def)
    with run None show ?thesis by (simp add: remove_recursive.simps [of path w])
  next
    case (Some x)
    obtain fd es where x: "x = (fd, es)" by fastforce
    obtain e w2 where loop: "remove_entries path fd es w1 = (e, w2)" by fastforce
    have fd: "fd \<noteq> k" and h: "holds k d w1" using w1 Some x by auto
    have w2: "holds k d w2"
      using "1.IH" [OF run [symmetric] Some x [symmetric] fd h] loop by simp
    have "spares k d (do { sys_closedir fd; remove_finish path }) (\<lambda>_. True)"
      using fd by (auto intro!: in_intros)
    with w2 have "holds k d (snd (run_state (do { sys_closedir fd; remove_finish path }) w2))"
      by (simp only: runs_in_def)
    with w2 loop run Some x show ?thesis
      by (cases e) (simp_all add: remove_recursive.simps [of path w] del: run_state_bind)
  qed
next
  case (2 path fd w)
  then show ?case by (simp add: remove_entries.simps)
next
  case (3 path fd name is_dir es w)
  show ?case
  proof (cases "name = ''.'' \<or> name = ''..''")
    case True
    with 3 show ?thesis by (auto simp: remove_entries.simps)
  next
    case False
    obtain r w1 where rm: "(if is_dir then remove_recursive (path @ SLASH # name) w
        else run_state (sys_remove (path @ SLASH # name)) w) = (r, w1)" by fastforce
    have w1: "holds k d w1"
    proof (cases is_dir)
      case True
      with "3.IH"(2) [OF False] rm "3.prems" show ?thesis by auto
    next
      case not_dir: False
      with rm "3.prems" show ?thesis using runs_inD [OF spares_remove] by auto
    qed
    have "spares k d (do { sys_closedir fd; return (Some DBMS_ERR_ANY) }) (\<lambda>_. True)"
      using "3.prems" by (auto intro!: in_intros)
    with w1 have "holds k d (snd (run_state (do { sys_closedir fd; return (Some DBMS_ERR_ANY) }) w1))"
      by (simp only: runs_in_def)
    with w1 "3.IH"(3) [OF False rm [symmetric]] "3.prems" False rm show ?thesis
      by (auto simp: remove_entries.simps(2) simp del: run_state_bind)
  qed
qed

lemma spares_remove_recursive [in_intros]: "spares k d (State (remove_recursive p)) (\<lambda>_. True)"
  by (simp add: in_State remove_spares)

lemma spares_read_entry [in_intros]: "fd \<noteq> int k \<Longrightarrow> spares k d (read_entry fd m) (\<lambda>_. True)"
  by (auto simp: read_entry_def intro!: in_intros)

lemma spares_write_entry [in_intros]: "fd \<noteq> int k \<Longrightarrow> spares k d (write_entry fd m) (\<lambda>_. True)"
  by (auto simp: write_entry_def intro!: in_intros)

lemma spares_db_user_exists [in_intros]: "spares k d (db_user_exists u) (\<lambda>_. True)"
  by (auto simp: db_user_exists_def intro!: in_intros)

lemma spares_db_io_op_usr_ent [in_intros]: "spares k d (db_io_op_usr_ent e c) (\<lambda>_. True)"
  by (auto simp: db_io_op_usr_ent_def intro!: in_intros)

lemma spares_pend_scan [in_intros]: "spares k d (pend_scan es b e) (\<lambda>_. True)"
  by (induction es b e rule: pend_scan.induct) (auto simp: pend_scan.simps Let_def intro!: in_intros)

lemma spares_db_get_pend_msg [in_intros]: "spares k d (db_get_pend_msg e) (\<lambda>_. True)"
  by (auto simp: db_get_pend_msg_def intro!: in_intros)

lemma spares_db_creat_usr_tbl [in_intros]: "spares k d (db_creat_usr_tbl e) (\<lambda>_. True)"
  by (auto simp: db_creat_usr_tbl_def intro!: in_intros)

lemma spares_db_del_usr_tbl [in_intros]: "spares k d (db_del_usr_tbl u) (\<lambda>_. True)"
  by (auto simp: db_del_usr_tbl_def intro!: in_intros)

subsection \<open>The services\<close>

lemma spares_aux_connect: "spares k d (aux_connect_clt_listen_thread e) (\<lambda>x. fst x \<noteq> int k)"
  by (auto simp: aux_connect_clt_listen_thread_def err_defs intro!: in_intros)

lemmas spares_bind_aux_connect [in_intros] = runs_in_bind [OF spares_aux_connect]

lemma spares_clt_send_message [in_intros]: "spares k d (clt_send_message q e) (\<lambda>_. True)"
  by (auto simp: clt_send_message_def intro!: in_intros)

lemma spares_clt_send_mess_ack [in_intros]: "spares k d (clt_send_mess_ack q e) (\<lambda>_. True)"
  by (auto simp: clt_send_mess_ack_def intro!: in_intros)

lemma spares_aux_send_init [in_intros]: "spares k d (aux_send_init q e) (\<lambda>_. True)"
  by (auto simp: aux_send_init_def intro!: in_intros)

lemma spares_aux_send_msg_pass [in_intros]: "spares k d (aux_send_msg_pass s q r e m) (\<lambda>_. True)"
  by (auto simp: aux_send_msg_pass_def intro!: in_intros)

lemma spares_aux_send_first_ack [in_intros]: "fd \<noteq> int k \<Longrightarrow> spares k d (aux_send_first_ack fd r i) (\<lambda>_. True)"
  by (auto simp: aux_send_first_ack_def intro!: in_intros)

lemma spares_pend_body [in_intros]: "spares k d (pend_body f) (\<lambda>_. True)"
  by (auto simp: pend_body_def intro!: in_intros)

lemma pend_loop_spares:
  assumes "pend_loop f w = Some y" "holds k d w"
  shows "holds k d (snd y)"
proof -
  have "holds k d w \<longrightarrow> holds k d (snd y)"
  proof (rule pend_loop.raw_induct [where P = "\<lambda>f w y. holds k d w \<longrightarrow> holds k d (snd y)", OF _ assms(1)], rule impI)
    fix loop f w y
    assume IH: "\<And>f w y. loop f w = Some y \<Longrightarrow> holds k d w \<longrightarrow> holds k d (snd y)"
      and step: "(case run_state (db_get_pend_msg (fl_pend_msg_entry f)) w of ((r, pend_msg_entry), w1) \<Rightarrow>
        if r = DBMS_SUCCESS then
          (case run_state (pend_body (f\<lparr>fl_pend_msg_entry := pend_msg_entry\<rparr>)) w1 of ((out, f2), w2) \<Rightarrow>
             (case out of Some err \<Rightarrow> Some (err, w2) | None \<Rightarrow> loop f2 w2))
        else Some (uint SRV_SUCCESS, w1)) = Some y"
      and h: "holds k d w"
    obtain n p w1 where get: "run_state (db_get_pend_msg (fl_pend_msg_entry f)) w = ((n, p), w1)"
      by (metis prod.exhaust)
    obtain out f2 w2 where body: "run_state (pend_body (f\<lparr>fl_pend_msg_entry := p\<rparr>)) w1 = ((out, f2), w2)"
      by (metis prod.exhaust)
    have w1: "holds k d w1" using runs_inD [OF spares_db_get_pend_msg h get] by simp
    have "holds k d w2" using runs_inD [OF spares_pend_body w1 body] by simp
    with IH [of f2 w2] step get body w1 show "holds k d (snd y)"
      by (auto split: if_splits option.splits)
  qed
  with assms(2) show ?thesis by blast
qed

lemma aux_connect_send_pend_spares:
  assumes "aux_connect_send_pend_msgs jk e w = Some (r, w')" "holds k d w"
  shows "holds k d w'"
proof -
  let ?e = "strcpy en_username (cstr en_username e) (set_type ENT_TYPE_UD (jk_recipient_entry jk))"
  obtain n m w1 where run: "run_state (db_io_op_usr_ent ?e READ) w = ((n, m), w1)" by (metis prod.exhaust)
  have w1: "holds k d w1" using runs_inD [OF spares_db_io_op_usr_ent assms(2) run] by simp
  have "holds k d (snd y)" if "pend_loop f w1 = Some y" for f y
    using pend_loop_spares [OF that w1] .
  with assms(1) run w1 show ?thesis
    by (fastforce simp: aux_connect_send_pend_msgs_def Let_def split: if_splits)
qed

lemma spares_srv_register [in_intros]: "fd \<noteq> int k \<Longrightarrow> spares k d (srv_register jk fd q) (\<lambda>_. True)"
  by (auto simp: srv_register_def intro!: in_intros)

lemma spares_srv_unregister [in_intros]: "fd \<noteq> int k \<Longrightarrow> spares k d (srv_unregister fd q) (\<lambda>_. True)"
  by (auto simp: srv_unregister_def intro!: in_intros)

lemma spares_connect_update [in_intros]: "fd \<noteq> int k \<Longrightarrow> spares k d (connect_update jk fd q e) (\<lambda>_. True)"
  by (auto simp: connect_update_def intro!: in_intros)

lemma spares_srv_connect_reply [in_intros]: "fd \<noteq> int k \<Longrightarrow> spares k d (srv_connect_reply jk fd q) (\<lambda>_. True)"
  by (auto simp: srv_connect_reply_def intro!: in_intros)

lemma srv_connect_spares:
  assumes "srv_connect jk fd q w = Some (q2, w')" "fd \<noteq> int k" "holds k d w"
  shows "holds k d w'"
proof -
  obtain g m w1 where run: "run_state (srv_connect_reply jk fd q) w = ((g, m), w1)" by (metis prod.exhaust)
  have w1: "holds k d w1" using runs_inD [OF spares_srv_connect_reply [OF assms(2)] assms(3) run] by simp
  from assms(1) run w1 show ?thesis
    by (auto simp: srv_connect_def Let_def split: if_splits option.splits
        dest: aux_connect_send_pend_spares)
qed

lemma spares_srv_disconnect [in_intros]: "fd \<noteq> int k \<Longrightarrow> spares k d (srv_disconnect jk fd q) (\<lambda>_. True)"
  by (auto simp: srv_disconnect_def intro!: in_intros)

lemma spares_send_finish [in_intros]: "fd \<noteq> int k \<Longrightarrow> spares k d (send_finish jk fd q r e m) (\<lambda>_. True)"
  by (auto simp: send_finish_def intro!: in_intros)

lemma spares_srv_send [in_intros]: "fd \<noteq> int k \<Longrightarrow> spares k d (srv_send jk fd q) (\<lambda>_. True)"
  by (auto simp: srv_send_def intro!: in_intros)

lemma serve_connection_spares:
  assumes "serve_connection jk fd q w = Some (q2, w2)" "fd \<noteq> int k" "holds k d w"
  shows "holds k d w2"
proof -
  obtain r q1 w1 where recv: "run_state (recv_string fd rq_op_code q) w = ((r, q1), w1)"
    by (metis prod.exhaust)
  have w1: "holds k d w1" using runs_inD [OF spares_recv_string [OF assms(2)] assms(3) recv] by simp
  have run: "holds k d v" if "run_state m w1 = (x, v)" "spares k d m (\<lambda>_. True)" for m :: "mem prog" and x v
    using runs_inD [OF that(2) w1 that(1)] by simp
  from assms(1,2) recv w1 show ?thesis unfolding serve_connection_def
    by (auto split: if_splits dest: srv_connect_spares
        intro: run [OF _ spares_srv_register] run [OF _ spares_srv_unregister]
          run [OF _ spares_srv_disconnect] run [OF _ spares_srv_send])
qed

subsection \<open>The request stays its size\<close>

definition req_size :: "mem \<Rightarrow> bool" where
  "req_size q \<longleftrightarrow> length q = sizeof_request"

abbreviation anywhere :: "world \<Rightarrow> bool" where
  "anywhere \<equiv> \<lambda>_. True"

lemma in_anywhere [simp]: "runs_in anywhere m (\<lambda>_. True)"
  by (simp add: runs_in_def)

lemma size_bind_recv:
  assumes "req_size q" "off + MAX_MSG_SIZE \<le> sizeof_request"
    and "\<And>r q1. req_size q1 \<Longrightarrow> runs_in anywhere (f (r, q1)) Q"
  shows "runs_in anywhere (State_Monad.bind (recv_string fd off q) f) Q"
proof (rule runs_in_bind [where ?Q1.0 = "\<lambda>x. req_size (snd x)"])
  show "runs_in anywhere (recv_string fd off q) (\<lambda>x. req_size (snd x))"
    using assms(1,2) by (auto simp: req_size_def same_outside_def intro!: runs_inI dest!: recv_string_inside)
qed (use assms(3) in auto)

lemma req_fields:
  "rq_op_code + MAX_MSG_SIZE \<le> sizeof_request" "rq_username + MAX_MSG_SIZE \<le> sizeof_request"
  "rq_client_port + MAX_MSG_SIZE \<le> sizeof_request" "rq_sender + MAX_MSG_SIZE \<le> sizeof_request"
  "rq_recipient + MAX_MSG_SIZE \<le> sizeof_request" "rq_content + MAX_MSG_SIZE \<le> sizeof_request"
  by (simp_all add: rq_defs MAX_MSG_SIZE_def)

lemmas size_intros = size_bind_recv [OF _ req_fields(1)] size_bind_recv [OF _ req_fields(2)]
  size_bind_recv [OF _ req_fields(3)] size_bind_recv [OF _ req_fields(4)]
  size_bind_recv [OF _ req_fields(5)] size_bind_recv [OF _ req_fields(6)]
  in_return in_if in_prod in_Let in_bind [OF in_anywhere]

lemma size_srv_register: "req_size q \<Longrightarrow> runs_in anywhere (srv_register jk fd q) req_size"
  unfolding srv_register_def by (assumption | rule size_intros | simp)+

lemma size_srv_unregister: "req_size q \<Longrightarrow> runs_in anywhere (srv_unregister fd q) req_size"
  unfolding srv_unregister_def by (assumption | rule size_intros | simp)+

lemma size_srv_connect_reply:
  "req_size q \<Longrightarrow> runs_in anywhere (srv_connect_reply jk fd q) (\<lambda>x. req_size (snd x))"
  unfolding srv_connect_reply_def by (assumption | rule size_intros | simp)+

lemma size_srv_disconnect: "req_size q \<Longrightarrow> runs_in anywhere (srv_disconnect jk fd q) req_size"
  unfolding srv_disconnect_def by (assumption | rule size_intros | simp)+

lemma size_send_finish: "req_size q \<Longrightarrow> runs_in anywhere (send_finish jk fd q r e m) req_size"
  unfolding send_finish_def by (assumption | rule size_intros | simp)+

lemma size_srv_send: "req_size q \<Longrightarrow> runs_in anywhere (srv_send jk fd q) req_size"
  unfolding srv_send_def by (assumption | rule size_send_finish size_intros | simp)+

lemma serve_connection_size:
  assumes "serve_connection jk fd q w = Some (q2, w2)" "req_size q"
  shows "req_size q2"
proof -
  obtain r q1 w1 where recv: "run_state (recv_string fd rq_op_code q) w = ((r, q1), w1)"
    by (metis prod.exhaust)
  have q1: "req_size q1"
    using recv_string_inside [OF recv] assms(2) req_fields(1) by (simp add: req_size_def same_outside_def)
  have run: "req_size x" if "run_state m w1 = (x, v)" "runs_in anywhere m req_size" for m x v
    using runs_inD [OF that(2) _ that(1)] by simp
  have con: "req_size x" if "srv_connect jk fd q1 w1 = Some (x, v)" for x v
  proof -
    obtain g m v1 where c: "run_state (srv_connect_reply jk fd q1) w1 = ((g, m), v1)" by (metis prod.exhaust)
    have "req_size m" using runs_inD [OF size_srv_connect_reply [OF q1] _ c] by simp
    with that c show ?thesis by (auto simp: srv_connect_def Let_def split: if_splits option.splits)
  qed
  from assms(1) recv q1 show ?thesis unfolding serve_connection_def
    by (auto split: if_splits dest: con
        intro: run [OF _ size_srv_register] run [OF _ size_srv_unregister]
          run [OF _ size_srv_disconnect] run [OF _ size_srv_send])
qed

end
