(* ===== verification/ConnQueue.thy ===== *)
theory ConnQueue
  imports Main
begin

text \<open>
  The connection queue of \<^verbatim>\<open>app/server.c\<close>: the array \<^verbatim>\<open>conn_q\<close> as a circular buffer with
  its three counters, what the main thread does to it and what a service thread does to it.
  The contract of a bounded queue is the locale \<open>bounded_queue\<close>; the circular buffer
  interprets it.
\<close>

definition MAX_CONN_BACKLOG :: nat where "MAX_CONN_BACKLOG = 10"

record connq =
  conn_q :: "int list"
  conn_q_size :: nat
  service_th_pos :: nat
  producer_pos :: nat

text \<open>Global variables start as zero, \<^verbatim>\<open>producer_pos\<close> is set to zero by \<^verbatim>\<open>main\<close>.\<close>

definition conn_q_init :: connq where
  "conn_q_init = \<lparr>conn_q = replicate MAX_CONN_BACKLOG 0, conn_q_size = 0, service_th_pos = 0, producer_pos = 0\<rparr>"

definition enqueue :: "int \<Rightarrow> connq \<Rightarrow> connq" where
  "enqueue client_sd q = q\<lparr>conn_q := (conn_q q)[producer_pos q := client_sd],
     producer_pos := (producer_pos q + 1) mod MAX_CONN_BACKLOG,
     conn_q_size := conn_q_size q + 1\<rparr>"

definition dequeue :: "connq \<Rightarrow> int \<times> connq" where
  "dequeue q = (conn_q q ! service_th_pos q,
     q\<lparr>service_th_pos := (service_th_pos q + 1) mod MAX_CONN_BACKLOG,
       conn_q_size := conn_q_size q - 1\<rparr>)"

subsection \<open>Bounded queues\<close>

datatype q_op = Enq int | Deq

text \<open>A run of operations: the values taken out, in order, and the queue at the end.\<close>

fun q_run :: "(int \<Rightarrow> 'q \<Rightarrow> 'q) \<Rightarrow> ('q \<Rightarrow> int \<times> 'q) \<Rightarrow> q_op list \<Rightarrow> 'q \<Rightarrow> int list \<times> 'q" where
  "q_run enq deq [] q = ([], q)"
| "q_run enq deq (Enq x # ops) q = q_run enq deq ops (enq x q)"
| "q_run enq deq (Deq # ops) q =
     (case deq q of (x, q') \<Rightarrow> case q_run enq deq ops q' of (xs, q2) \<Rightarrow> (x # xs, q2))"

text \<open>The inputs of a run, and whether it never fills over or empties under: what the
  waiting of the threads ensures.\<close>

definition q_inputs :: "q_op list \<Rightarrow> int list" where
  "q_inputs ops = concat (map (\<lambda>x. case x of Enq v \<Rightarrow> [v] | Deq \<Rightarrow> []) ops)"

lemma q_inputs_simps [simp]:
  "q_inputs [] = []" "q_inputs (Enq v # ops) = v # q_inputs ops" "q_inputs (Deq # ops) = q_inputs ops"
  by (simp_all add: q_inputs_def)

fun q_legal :: "nat \<Rightarrow> nat \<Rightarrow> q_op list \<Rightarrow> bool" where
  "q_legal cap k [] = True"
| "q_legal cap k (Enq v # ops) \<longleftrightarrow> k < cap \<and> q_legal cap (k + 1) ops"
| "q_legal cap k (Deq # ops) \<longleftrightarrow> 0 < k \<and> q_legal cap (k - 1) ops"

locale bounded_queue =
  fixes cap :: nat
    and ok :: "'q \<Rightarrow> bool"
    and elems :: "'q \<Rightarrow> int list"
    and enq :: "int \<Rightarrow> 'q \<Rightarrow> 'q"
    and deq :: "'q \<Rightarrow> int \<times> 'q"
  assumes elems_bound: "ok q \<Longrightarrow> length (elems q) \<le> cap"
    and enq_law: "ok q \<Longrightarrow> length (elems q) < cap \<Longrightarrow> ok (enq x q) \<and> elems (enq x q) = elems q @ [x]"
    and deq_law: "ok q \<Longrightarrow> elems q \<noteq> [] \<Longrightarrow> deq q = (x, q') \<Longrightarrow> ok q' \<and> elems q = x # elems q'"
begin

text \<open>First in, first out: over any legal run, what came out and what is left is what was there
  and what came in.\<close>

lemma run_fifo:
  assumes "ok q" "q_legal cap (length (elems q)) ops" "q_run enq deq ops q = (xs, q')"
  shows "ok q' \<and> xs @ elems q' = elems q @ q_inputs ops"
  using assms
proof (induction ops arbitrary: q xs q')
  case Nil
  then show ?case by simp
next
  case (Cons op ops)
  show ?case
  proof (cases op)
    case (Enq x)
    with Cons.prems have "ok (enq x q)" "elems (enq x q) = elems q @ [x]" using enq_law by auto
    with Cons Enq show ?thesis by simp
  next
    case Deq
    obtain y q1 where y: "deq q = (y, q1)" by fastforce
    obtain ys q2 where r: "q_run enq deq ops q1 = (ys, q2)" by fastforce
    have ne: "elems q \<noteq> []" using Cons.prems(2) Deq by auto
    from deq_law [OF Cons.prems(1) ne y] have q1: "ok q1" "elems q = y # elems q1" by auto
    have "q_legal cap (length (elems q1)) ops" using Cons.prems(2) Deq q1(2) by simp
    from Cons.IH [OF q1(1) this r] Cons.prems(3) Deq y r q1(2) show ?thesis by auto
  qed
qed

lemma enq_deq_empty:
  assumes "ok q" "elems q = []" "0 < cap" "deq (enq x q) = (y, q')"
  shows "y = x" "elems q' = []"
  using enq_law [OF assms(1), of x] deq_law [of "enq x q" y q'] assms by auto

end

subsection \<open>The circular buffer is a bounded queue\<close>

definition connq_ok :: "connq \<Rightarrow> bool" where
  "connq_ok q \<longleftrightarrow> length (conn_q q) = MAX_CONN_BACKLOG \<and> conn_q_size q \<le> MAX_CONN_BACKLOG \<and>
     service_th_pos q < MAX_CONN_BACKLOG \<and>
     producer_pos q = (service_th_pos q + conn_q_size q) mod MAX_CONN_BACKLOG"

definition backlog :: "connq \<Rightarrow> int list" where
  "backlog q = map (\<lambda>i. conn_q q ! ((service_th_pos q + i) mod MAX_CONN_BACKLOG)) [0..<conn_q_size q]"

lemma length_backlog [simp]: "length (backlog q) = conn_q_size q"
  by (simp add: backlog_def)

lemma backlog_empty [simp]: "backlog q = [] \<longleftrightarrow> conn_q_size q = 0"
  by (metis length_0_conv length_backlog)

lemma init_ok [simp]: "connq_ok conn_q_init" "backlog conn_q_init = []" "conn_q_size conn_q_init = 0"
  by (simp_all add: connq_ok_def conn_q_init_def MAX_CONN_BACKLOG_def)

lemma slot_wrap:
  assumes "p < MAX_CONN_BACKLOG" "i \<le> MAX_CONN_BACKLOG"
  shows "(p + i) mod MAX_CONN_BACKLOG = (if p + i < MAX_CONN_BACKLOG then p + i else p + i - MAX_CONN_BACKLOG)"
  using assms by (simp add: le_mod_geq)

lemma slot_inject:
  assumes "p < MAX_CONN_BACKLOG" "i < MAX_CONN_BACKLOG" "j < MAX_CONN_BACKLOG"
    and "(p + i) mod MAX_CONN_BACKLOG = (p + j) mod MAX_CONN_BACKLOG"
  shows "i = j"
  using assms slot_wrap [of p i] slot_wrap [of p j] by (simp split: if_splits)

lemma enqueue_law:
  assumes "connq_ok q" "conn_q_size q < MAX_CONN_BACKLOG"
  shows "connq_ok (enqueue x q)" "backlog (enqueue x q) = backlog q @ [x]"
proof -
  have m: "0 < MAX_CONN_BACKLOG" by (simp add: MAX_CONN_BACKLOG_def)
  show "connq_ok (enqueue x q)"
    using assms by (simp add: connq_ok_def enqueue_def mod_simps)
  have pos: "producer_pos q < length (conn_q q)"
    using assms m by (simp add: connq_ok_def)
  have old: "(conn_q q)[producer_pos q := x] ! ((service_th_pos q + i) mod MAX_CONN_BACKLOG) =
      conn_q q ! ((service_th_pos q + i) mod MAX_CONN_BACKLOG)" if "i < conn_q_size q" for i
  proof -
    have "producer_pos q \<noteq> (service_th_pos q + i) mod MAX_CONN_BACKLOG"
      using slot_inject [of "service_th_pos q" i "conn_q_size q"] assms that by (auto simp: connq_ok_def)
    then show ?thesis by simp
  qed
  have new: "(conn_q q)[producer_pos q := x] ! ((service_th_pos q + conn_q_size q) mod MAX_CONN_BACKLOG) = x"
    using pos assms by (simp add: connq_ok_def)
  show "backlog (enqueue x q) = backlog q @ [x]"
    using old new by (simp add: backlog_def enqueue_def)
qed

lemma dequeue_law:
  assumes "connq_ok q" "0 < conn_q_size q" "dequeue q = (x, q')"
  shows "connq_ok q'" "backlog q = x # backlog q'"
proof -
  have m: "0 < MAX_CONN_BACKLOG" by (simp add: MAX_CONN_BACKLOG_def)
  have q': "q' = q\<lparr>service_th_pos := (service_th_pos q + 1) mod MAX_CONN_BACKLOG, conn_q_size := conn_q_size q - 1\<rparr>"
    "x = conn_q q ! service_th_pos q" using assms(3) by (auto simp: dequeue_def)
  obtain k where k: "conn_q_size q = Suc k" using assms(2) gr0_implies_Suc by blast
  show "connq_ok q'"
    using assms(1) m by (simp add: connq_ok_def q' k mod_simps)
  have "backlog q = map (\<lambda>i. conn_q q ! ((service_th_pos q + i) mod MAX_CONN_BACKLOG)) (0 # map Suc [0..<k])"
    unfolding backlog_def k by (simp only: upt_conv_Cons map_Suc_upt zero_less_Suc)
  then show "backlog q = x # backlog q'"
    using assms(1) by (simp add: backlog_def q' k mod_simps connq_ok_def)
qed

interpretation cq: bounded_queue MAX_CONN_BACKLOG connq_ok backlog enqueue dequeue
proof unfold_locales
  fix q :: connq
  assume "connq_ok q"
  then show "length (backlog q) \<le> MAX_CONN_BACKLOG" by (simp add: connq_ok_def)
next
  fix q :: connq and x
  assume "connq_ok q" "length (backlog q) < MAX_CONN_BACKLOG"
  then show "connq_ok (enqueue x q) \<and> backlog (enqueue x q) = backlog q @ [x]"
    using enqueue_law by simp
next
  fix q q' :: connq and x
  assume "connq_ok q" "backlog q \<noteq> []" "dequeue q = (x, q')"
  then show "connq_ok q' \<and> backlog q = x # backlog q'"
    using dequeue_law by simp
qed

end
