(* ===== verification/Threads.thy ===== *)
theory Threads
  imports ConnQueue "HOL-Library.Multiset"
begin

text \<open>
  The threads of \<^verbatim>\<open>app/server.c\<close>: the main thread, which accepts connections and puts
  them in the queue, and the pool of service threads, which take them out, with the mutex and
  the two condition variables of the queue. A step is what a thread does between two points
  where another may run; the program counters name these points. \<^verbatim>\<open>pthread_cond_wait\<close>
  gives the mutex back and sleeps in one step, and may wake without a signal, as POSIX allows.

  \<open>accepted\<close>, \<open>taken\<close> and \<open>served\<close> are not in the code; they record the connections
  accepted, taken out of the queue, and served to the end.
\<close>

definition THREAD_POOL_SIZE :: nat where "THREAD_POOL_SIZE = 5"

datatype thread = Main | Worker nat

text \<open>Where the main thread is: at \<^verbatim>\<open>accept\<close>; before the lock; before the test of the loop;
  asleep; woken; before the queue is changed; before the signal; before the unlock.\<close>

datatype mpc = M_Accept | M_Lock int | M_Test int | M_Wait int | M_Woken int | M_Enq int
  | M_Signal | M_Unlock

text \<open>Where a service thread is, likewise; at the end it serves the connection it took.\<close>

datatype wpc = W_Lock | W_Test | W_Wait | W_Woken | W_Deq | W_Signal int | W_Unlock int | W_Serve int

record srv =
  queue :: connq
  mutex :: "thread option"
  main_pc :: mpc
  workers :: "wpc list"
  accepted :: "int list"
  taken :: "int list"
  served :: "int list"

definition srv_init :: srv where
  "srv_init = \<lparr>queue = conn_q_init, mutex = None, main_pc = M_Accept,
     workers = replicate THREAD_POOL_SIZE W_Lock, accepted = [], taken = [], served = []\<rparr>"

abbreviation at :: "srv \<Rightarrow> nat \<Rightarrow> wpc \<Rightarrow> bool" where
  "at s i p \<equiv> i < length (workers s) \<and> workers s ! i = p"

text \<open>The steps the program itself takes.\<close>

inductive work :: "srv \<Rightarrow> srv \<Rightarrow> bool" where
  main_lock: "main_pc s = M_Lock sd \<Longrightarrow> mutex s = None \<Longrightarrow>
    work s (s\<lparr>mutex := Some Main, main_pc := M_Test sd\<rparr>)"
| main_wait: "main_pc s = M_Test sd \<Longrightarrow> conn_q_size (queue s) = MAX_CONN_BACKLOG \<Longrightarrow>
    work s (s\<lparr>mutex := None, main_pc := M_Wait sd\<rparr>)"
| main_relock: "main_pc s = M_Woken sd \<Longrightarrow> mutex s = None \<Longrightarrow>
    work s (s\<lparr>mutex := Some Main, main_pc := M_Test sd\<rparr>)"
| main_go: "main_pc s = M_Test sd \<Longrightarrow> conn_q_size (queue s) \<noteq> MAX_CONN_BACKLOG \<Longrightarrow>
    work s (s\<lparr>main_pc := M_Enq sd\<rparr>)"
| main_enq: "main_pc s = M_Enq sd \<Longrightarrow>
    work s (s\<lparr>queue := enqueue sd (queue s), main_pc := M_Signal\<rparr>)"
| main_signal: "main_pc s = M_Signal \<Longrightarrow> conn_q_size (queue s) = 1 \<Longrightarrow> at s i W_Wait \<Longrightarrow>
    work s (s\<lparr>workers := (workers s)[i := W_Woken], main_pc := M_Unlock\<rparr>)"
| main_no_signal: "main_pc s = M_Signal \<Longrightarrow> conn_q_size (queue s) \<noteq> 1 \<or> W_Wait \<notin> set (workers s) \<Longrightarrow>
    work s (s\<lparr>main_pc := M_Unlock\<rparr>)"
| main_unlock: "main_pc s = M_Unlock \<Longrightarrow>
    work s (s\<lparr>mutex := None, main_pc := M_Accept\<rparr>)"
| w_lock: "at s i W_Lock \<Longrightarrow> mutex s = None \<Longrightarrow>
    work s (s\<lparr>mutex := Some (Worker i), workers := (workers s)[i := W_Test]\<rparr>)"
| w_wait: "at s i W_Test \<Longrightarrow> conn_q_size (queue s) = 0 \<Longrightarrow>
    work s (s\<lparr>mutex := None, workers := (workers s)[i := W_Wait]\<rparr>)"
| w_relock: "at s i W_Woken \<Longrightarrow> mutex s = None \<Longrightarrow>
    work s (s\<lparr>mutex := Some (Worker i), workers := (workers s)[i := W_Test]\<rparr>)"
| w_go: "at s i W_Test \<Longrightarrow> conn_q_size (queue s) \<noteq> 0 \<Longrightarrow>
    work s (s\<lparr>workers := (workers s)[i := W_Deq]\<rparr>)"
| w_deq: "at s i W_Deq \<Longrightarrow> dequeue (queue s) = (sd, q) \<Longrightarrow>
    work s (s\<lparr>queue := q, workers := (workers s)[i := W_Signal sd], taken := taken s @ [sd]\<rparr>)"
| w_signal: "at s i (W_Signal sd) \<Longrightarrow> conn_q_size (queue s) = MAX_CONN_BACKLOG - 1 \<Longrightarrow> main_pc s = M_Wait c \<Longrightarrow>
    work s (s\<lparr>main_pc := M_Woken c, workers := (workers s)[i := W_Unlock sd]\<rparr>)"
| w_no_signal: "at s i (W_Signal sd) \<Longrightarrow>
    conn_q_size (queue s) \<noteq> MAX_CONN_BACKLOG - 1 \<or> (\<forall>c. main_pc s \<noteq> M_Wait c) \<Longrightarrow>
    work s (s\<lparr>workers := (workers s)[i := W_Unlock sd]\<rparr>)"
| w_unlock: "at s i (W_Unlock sd) \<Longrightarrow>
    work s (s\<lparr>mutex := None, workers := (workers s)[i := W_Serve sd]\<rparr>)"
| w_done: "at s i (W_Serve sd) \<Longrightarrow>
    work s (s\<lparr>workers := (workers s)[i := W_Lock], served := served s @ [sd]\<rparr>)"

text \<open>What comes from outside: a connection, and wake-ups without a signal.\<close>

inductive outside :: "srv \<Rightarrow> srv \<Rightarrow> bool" where
  arrive: "main_pc s = M_Accept \<Longrightarrow> outside s (s\<lparr>main_pc := M_Lock sd, accepted := accepted s @ [sd]\<rparr>)"
| main_spurious: "main_pc s = M_Wait sd \<Longrightarrow> outside s (s\<lparr>main_pc := M_Woken sd\<rparr>)"
| w_spurious: "at s i W_Wait \<Longrightarrow> outside s (s\<lparr>workers := (workers s)[i := W_Woken]\<rparr>)"

definition step :: "srv \<Rightarrow> srv \<Rightarrow> bool" where
  "step s s' \<longleftrightarrow> work s s' \<or> outside s s'"

subsection \<open>Invariants\<close>

fun m_crit :: "mpc \<Rightarrow> bool" where
  "m_crit (M_Test sd) = True" | "m_crit (M_Enq sd) = True" | "m_crit M_Signal = True"
| "m_crit M_Unlock = True" | "m_crit M_Accept = False" | "m_crit (M_Lock sd) = False"
| "m_crit (M_Wait sd) = False" | "m_crit (M_Woken sd) = False"

fun w_crit :: "wpc \<Rightarrow> bool" where
  "w_crit W_Test = True" | "w_crit W_Deq = True" | "w_crit (W_Signal sd) = True"
| "w_crit (W_Unlock sd) = True" | "w_crit W_Lock = False" | "w_crit W_Wait = False"
| "w_crit W_Woken = False" | "w_crit (W_Serve sd) = False"

text \<open>The mutex is held by exactly the thread that is in its critical section.\<close>

definition inv_mutex :: "srv \<Rightarrow> bool" where
  "inv_mutex s \<longleftrightarrow> length (workers s) = THREAD_POOL_SIZE \<and> (case mutex s of
     None \<Rightarrow> \<not> m_crit (main_pc s) \<and> (\<forall>j<length (workers s). \<not> w_crit (workers s ! j))
   | Some Main \<Rightarrow> m_crit (main_pc s) \<and> (\<forall>j<length (workers s). \<not> w_crit (workers s ! j))
   | Some (Worker i) \<Rightarrow> \<not> m_crit (main_pc s) \<and> i < length (workers s) \<and> w_crit (workers s ! i) \<and>
       (\<forall>j<length (workers s). j \<noteq> i \<longrightarrow> \<not> w_crit (workers s ! j)))"

definition inv_queue :: "srv \<Rightarrow> bool" where
  "inv_queue s \<longleftrightarrow> connq_ok (queue s) \<and>
     ((\<exists>sd. main_pc s = M_Enq sd) \<longrightarrow> conn_q_size (queue s) < MAX_CONN_BACKLOG) \<and>
     (main_pc s = M_Signal \<longrightarrow> 0 < conn_q_size (queue s)) \<and>
     (W_Deq \<in> set (workers s) \<longrightarrow> 0 < conn_q_size (queue s))"

text \<open>The main thread only sleeps while the queue is full or a signal to it is on its way.\<close>

definition inv_main_wait :: "srv \<Rightarrow> bool" where
  "inv_main_wait s \<longleftrightarrow> (\<forall>sd. main_pc s = M_Wait sd \<longrightarrow> conn_q_size (queue s) = MAX_CONN_BACKLOG \<or>
     conn_q_size (queue s) = MAX_CONN_BACKLOG - 1 \<and> (\<exists>sd'. W_Signal sd' \<in> set (workers s)))"

text \<open>While there is a connection in the queue, some service thread is awake or about to be
  woken.\<close>

definition inv_awake :: "srv \<Rightarrow> bool" where
  "inv_awake s \<longleftrightarrow> (0 < conn_q_size (queue s) \<longrightarrow>
     set (workers s) \<noteq> {W_Wait} \<or> main_pc s = M_Signal \<and> conn_q_size (queue s) = 1)"

fun m_hand :: "mpc \<Rightarrow> int list" where
  "m_hand (M_Lock sd) = [sd]" | "m_hand (M_Test sd) = [sd]" | "m_hand (M_Wait sd) = [sd]"
| "m_hand (M_Woken sd) = [sd]" | "m_hand (M_Enq sd) = [sd]" | "m_hand M_Accept = []"
| "m_hand M_Signal = []" | "m_hand M_Unlock = []"

fun w_hand :: "wpc \<Rightarrow> int list" where
  "w_hand (W_Signal sd) = [sd]" | "w_hand (W_Unlock sd) = [sd]" | "w_hand (W_Serve sd) = [sd]"
| "w_hand W_Lock = []" | "w_hand W_Test = []" | "w_hand W_Wait = []" | "w_hand W_Woken = []" | "w_hand W_Deq = []"

text \<open>Connections are taken in the order of their acceptance, and none is lost or taken twice.\<close>

definition inv_fifo :: "srv \<Rightarrow> bool" where
  "inv_fifo s \<longleftrightarrow> accepted s = taken s @ backlog (queue s) @ m_hand (main_pc s)"

definition inv_served :: "srv \<Rightarrow> bool" where
  "inv_served s \<longleftrightarrow> mset (taken s) = mset (served s) + (\<Sum>p\<leftarrow>workers s. mset (w_hand p))"

text \<open>At most one thread is inside.\<close>

lemma inv_mutexD:
  assumes "inv_mutex s" "at s i p" "w_crit p"
  shows "mutex s = Some (Worker i)" "\<not> m_crit (main_pc s)"
    "j < length (workers s) \<Longrightarrow> j \<noteq> i \<Longrightarrow> \<not> w_crit (workers s ! j)"
proof -
  show m: "mutex s = Some (Worker i)"
    using assms by (auto simp: inv_mutex_def split: option.splits thread.splits)
  show "\<not> m_crit (main_pc s)"
    using assms(1) m by (simp add: inv_mutex_def)
  show "j < length (workers s) \<Longrightarrow> j \<noteq> i \<Longrightarrow> \<not> w_crit (workers s ! j)"
    using assms(1) m by (simp add: inv_mutex_def)
qed

lemma inv_mutex_main:
  assumes "inv_mutex s" "m_crit (main_pc s)"
  shows "mutex s = Some Main" "i < length (workers s) \<Longrightarrow> \<not> w_crit (workers s ! i)"
  using assms by (auto simp: inv_mutex_def split: option.splits thread.splits)

lemma mutex_work:
  assumes "work s s'" "inv_mutex s"
  shows "inv_mutex s'"
  using assms
proof (cases rule: work.cases)
  case (main_lock sd)
  with assms(2) show ?thesis by (auto simp: inv_mutex_def)
next
  case (main_wait sd)
  with inv_mutex_main [OF assms(2)] assms(2) show ?thesis by (auto simp: inv_mutex_def)
next
  case (main_relock sd)
  with assms(2) show ?thesis by (auto simp: inv_mutex_def)
next
  case (main_go sd)
  with inv_mutex_main [OF assms(2)] assms(2) show ?thesis by (auto simp: inv_mutex_def)
next
  case (main_enq sd)
  with inv_mutex_main [OF assms(2)] assms(2) show ?thesis by (auto simp: inv_mutex_def)
next
  case (main_signal i)
  with inv_mutex_main [OF assms(2)] assms(2) show ?thesis by (auto simp: inv_mutex_def nth_list_update)
next
  case main_no_signal
  with inv_mutex_main [OF assms(2)] assms(2) show ?thesis by (auto simp: inv_mutex_def)
next
  case main_unlock
  with inv_mutex_main [OF assms(2)] assms(2) show ?thesis by (auto simp: inv_mutex_def)
next
  case (w_lock i)
  with assms(2) show ?thesis by (auto simp: inv_mutex_def nth_list_update)
next
  case (w_wait i)
  with inv_mutexD [OF assms(2), of i W_Test] assms(2) show ?thesis by (auto simp: inv_mutex_def nth_list_update)
next
  case (w_relock i)
  with assms(2) show ?thesis by (auto simp: inv_mutex_def nth_list_update)
next
  case (w_go i)
  with inv_mutexD [OF assms(2), of i W_Test] assms(2) show ?thesis by (auto simp: inv_mutex_def nth_list_update)
next
  case (w_deq i sd q)
  with inv_mutexD [OF assms(2), of i W_Deq] assms(2) show ?thesis by (auto simp: inv_mutex_def nth_list_update)
next
  case (w_signal i sd c)
  with inv_mutexD [OF assms(2), of i "W_Signal sd"] assms(2) show ?thesis
    by (auto simp: inv_mutex_def nth_list_update)
next
  case (w_no_signal i sd)
  with inv_mutexD [OF assms(2), of i "W_Signal sd"] assms(2) show ?thesis
    by (auto simp: inv_mutex_def nth_list_update)
next
  case (w_unlock i sd)
  with inv_mutexD [OF assms(2), of i "W_Unlock sd"] assms(2) show ?thesis
    by (auto simp: inv_mutex_def nth_list_update)
next
  case (w_done i sd)
  with assms(2) show ?thesis
    by (auto simp: inv_mutex_def nth_list_update split: option.splits thread.splits)
qed

lemma mutex_outside:
  assumes "outside s s'" "inv_mutex s"
  shows "inv_mutex s'"
  using assms
  by (cases rule: outside.cases)
    (auto simp: inv_mutex_def nth_list_update split: option.splits thread.splits)

end
