(* ===== verification/Systems.thy ===== *)
theory Systems
  imports Main
begin

text \<open>
  Transition systems: the contract of an invariant that every step keeps, and of a system whose
  own steps use up a measure. Both are locales; the threads of the server interpret them.
\<close>

locale invariant_of =
  fixes init :: 's
    and step :: "'s \<Rightarrow> 's \<Rightarrow> bool"
    and Inv :: "'s \<Rightarrow> bool"
  assumes inv_init: "Inv init"
    and inv_step: "Inv s \<Longrightarrow> step s s' \<Longrightarrow> Inv s'"
begin

lemma inv_steps:
  assumes "step\<^sup>*\<^sup>* s s'" "Inv s"
  shows "Inv s'"
  using assms by (induction rule: rtranclp_induct) (auto intro: inv_step)

lemma inv_reachable: "step\<^sup>*\<^sup>* init s \<Longrightarrow> Inv s"
  using inv_steps inv_init by blast

end

text \<open>\<open>work\<close> are the steps of the program itself; the other steps come from outside.\<close>

locale working = invariant_of init step Inv
  for init :: 's and step :: "'s \<Rightarrow> 's \<Rightarrow> bool" and Inv :: "'s \<Rightarrow> bool" +
  fixes work :: "'s \<Rightarrow> 's \<Rightarrow> bool"
    and left :: "'s \<Rightarrow> nat"
  assumes work_step: "work s s' \<Longrightarrow> step s s'"
    and work_left: "Inv s \<Longrightarrow> work s s' \<Longrightarrow> left s' < left s"
begin

lemma work_steps: "work\<^sup>*\<^sup>* s s' \<Longrightarrow> step\<^sup>*\<^sup>* s s'"
  by (induction rule: rtranclp_induct) (auto intro: work_step rtranclp.rtrancl_into_rtrancl)

lemma work_bound:
  assumes "(work ^^ n) s s'" "Inv s"
  shows "n + left s' \<le> left s \<and> Inv s'"
  using assms
proof (induction n arbitrary: s')
  case 0
  then show ?case by simp
next
  case (Suc n)
  then obtain t where t: "(work ^^ n) s t" "work t s'" by auto
  with Suc.IH Suc.prems have "n + left t \<le> left s" "Inv t" by auto
  with work_left [OF this(2) t(2)] inv_step [OF this(2) work_step [OF t(2)]] show ?case by simp
qed

text \<open>Left alone, the program comes to rest.\<close>

lemma comes_to_rest:
  assumes "Inv s"
  shows "\<exists>s'. work\<^sup>*\<^sup>* s s' \<and> Inv s' \<and> (\<forall>t. \<not> work s' t)"
  using assms
proof (induction "left s" arbitrary: s rule: less_induct)
  case less
  show ?case
  proof (cases "\<exists>t. work s t")
    case True
    then obtain t where t: "work s t" by blast
    from less.hyps [OF work_left [OF less.prems t] inv_step [OF less.prems work_step [OF t]]]
    obtain s' where "work\<^sup>*\<^sup>* t s'" "Inv s'" "\<forall>u. \<not> work s' u" by blast
    with t show ?thesis by (meson converse_rtranclp_into_rtranclp)
  qed (use less.prems in blast)
qed

end

end
