(* ===== verification/ThreadsInv.thy ===== *)
theory ThreadsInv
  imports Threads Systems
begin

text \<open>
  Every step of the threads keeps the invariants of \<open>Threads\<close>; the whole is an interpretation
  of the locale of invariants.
\<close>

lemma crit_main:
  assumes "inv_mutex s" "m_crit (main_pc s)" "p \<in> set (workers s)"
  shows "\<not> w_crit p"
  using inv_mutex_main(2) [OF assms(1,2)] assms(3) by (auto simp: in_set_conv_nth)

lemma crit_others:
  assumes "inv_mutex s" "at s i p" "w_crit p" "q \<in> set ((workers s)[i := r])"
  shows "q = r \<or> \<not> w_crit q"
proof -
  obtain j where j: "j < length (workers s)" "(workers s)[i := r] ! j = q"
    using assms(4) by (auto simp: in_set_conv_nth)
  with inv_mutexD(3) [OF assms(1-3), of j] assms(2) show ?thesis
    by (cases "j = i") auto
qed

lemma set_update_mem:
  assumes "q \<in> set (xs[i := x])"
  shows "q = x \<or> q \<in> set xs"
  using assms set_update_subset_insert by fastforce

lemma queue_work:
  assumes "work s s'" "inv_mutex s" "inv_queue s"
  shows "inv_queue s'"
  using assms(1)
proof (cases rule: work.cases)
  case (main_enq sd)
  with assms(3) have "connq_ok (queue s)" "conn_q_size (queue s) < MAX_CONN_BACKLOG"
    by (auto simp: inv_queue_def)
  moreover have "W_Deq \<notin> set (workers s)"
    using crit_main [OF assms(2), of W_Deq] main_enq by auto
  ultimately show ?thesis
    using main_enq enqueue_law(1) by (auto simp: inv_queue_def enqueue_def)
next
  case (w_deq i sd q)
  with inv_mutexD(2) [OF assms(2), of i W_Deq] have m: "\<not> m_crit (main_pc s)" by simp
  have "W_Deq \<notin> set ((workers s)[i := W_Signal sd])"
    using crit_others [OF assms(2), of i W_Deq W_Deq "W_Signal sd"] w_deq by auto
  moreover have "connq_ok q"
    using dequeue_law(1) [of "queue s" sd q] assms(3) w_deq nth_mem [of i "workers s"] by (auto simp: inv_queue_def)
  ultimately show ?thesis using w_deq m by (auto simp: inv_queue_def)
qed (use assms(3) in \<open>auto simp: inv_queue_def connq_ok_def dest!: set_update_mem\<close>)

lemma queue_outside:
  assumes "outside s s'" "inv_queue s"
  shows "inv_queue s'"
  using assms by (cases rule: outside.cases) (auto simp: inv_queue_def dest!: set_update_mem)

lemma set_update_keep:
  assumes "q \<in> set xs" "xs ! i \<noteq> q"
  shows "q \<in> set (xs[i := x])"
proof -
  obtain j where "j < length xs" "xs ! j = q" using assms(1) by (auto simp: in_set_conv_nth)
  with assms(2) show ?thesis using nth_list_update_neq [of i j xs x] by (metis length_list_update nth_mem)
qed

lemma main_wait_keep:
  assumes "inv_main_wait s" "main_pc s' = main_pc s" "conn_q_size (queue s') = conn_q_size (queue s)"
    "\<And>c. W_Signal c \<in> set (workers s) \<Longrightarrow> W_Signal c \<in> set (workers s')"
  shows "inv_main_wait s'"
  using assms by (auto simp: inv_main_wait_def)

lemma main_wait_update:
  assumes "inv_main_wait s" "main_pc s' = main_pc s" "conn_q_size (queue s') = conn_q_size (queue s)"
    "workers s' = (workers s)[i := p]" "\<And>c. workers s ! i \<noteq> W_Signal c"
  shows "inv_main_wait s'"
  using assms by (intro main_wait_keep [OF assms(1-3)]) (auto intro: set_update_keep)

lemma main_wait_other:
  assumes "\<And>c. main_pc s \<noteq> M_Wait c"
  shows "inv_main_wait s"
  using assms by (simp add: inv_main_wait_def)

lemma main_wait_work:
  assumes "work s s'" "inv_mutex s" "inv_queue s" "inv_main_wait s"
  shows "inv_main_wait s'"
  using assms(1)
proof (cases rule: work.cases)
  case (w_deq i sd q)
  have "0 < conn_q_size (queue s)" "conn_q_size (queue s) \<le> MAX_CONN_BACKLOG"
    using assms(3) w_deq nth_mem [of i "workers s"] by (auto simp: inv_queue_def connq_ok_def)
  moreover have "conn_q_size q = conn_q_size (queue s) - 1"
    using w_deq by (auto simp: dequeue_def)
  moreover have "conn_q_size (queue s) = MAX_CONN_BACKLOG" if "main_pc s = M_Wait c" for c
  proof (rule ccontr)
    assume "conn_q_size (queue s) \<noteq> MAX_CONN_BACKLOG"
    with assms(4) that obtain c' where "W_Signal c' \<in> set (workers s)" by (auto simp: inv_main_wait_def)
    then have "W_Signal c' \<in> set ((workers s)[i := W_Lock])" using w_deq by (intro set_update_keep) auto
    with crit_others [OF assms(2), of i W_Deq "W_Signal c'" W_Lock] w_deq show False by simp
  qed
  ultimately show ?thesis
    using w_deq by (auto simp: inv_main_wait_def intro!: exI [of _ sd] set_update_memI)
next
  case (w_no_signal i sd)
  show ?thesis
  proof (cases "\<exists>c. main_pc s = M_Wait c")
    case True
    with w_no_signal assms(4) show ?thesis by (auto simp: inv_main_wait_def)
  qed (use w_no_signal in \<open>simp add: inv_main_wait_def\<close>)
next
  case (main_wait sd)
  then show ?thesis by (simp add: inv_main_wait_def)
qed (auto intro: main_wait_other main_wait_update [OF assms(4)])

lemma main_wait_outside:
  assumes "outside s s'" "inv_main_wait s"
  shows "inv_main_wait s'"
  using assms(1)
proof (cases rule: outside.cases)
  case (w_spurious i)
  with assms(2) show ?thesis by (auto intro!: main_wait_keep [of s] set_update_keep)
qed (auto intro: main_wait_other)

lemma awake_by:
  assumes "p \<in> set (workers s)" "p \<noteq> W_Wait"
  shows "inv_awake s"
  using assms by (auto simp: inv_awake_def)

lemma awake_update:
  assumes "workers s' = (workers s)[i := p]" "i < length (workers s)" "p \<noteq> W_Wait"
  shows "inv_awake s'"
  using assms by (auto intro!: awake_by [of p] set_update_memI)

lemma awake_keep:
  assumes "inv_awake s" "main_pc s \<noteq> M_Signal" "workers s' = workers s" "conn_q_size (queue s') = conn_q_size (queue s)"
  shows "inv_awake s'"
  using assms by (auto simp: inv_awake_def)

lemma awake_work:
  assumes "work s s'" "inv_mutex s" "inv_queue s" "inv_awake s"
  shows "inv_awake s'"
  using assms(1)
proof (cases rule: work.cases)
  case (main_enq sd)
  with assms(4) show ?thesis by (auto simp: inv_awake_def enqueue_def)
next
  case main_no_signal
  have "set (workers s) \<noteq> {}" using assms(2) by (auto simp: inv_mutex_def THREAD_POOL_SIZE_def)
  with main_no_signal assms(3,4) show ?thesis by (auto simp: inv_awake_def inv_queue_def)
next
  case (w_wait i)
  then show ?thesis by (simp add: inv_awake_def)
qed (use assms(4) in \<open>auto intro: awake_keep awake_update\<close>)

lemma awake_outside:
  assumes "outside s s'" "inv_awake s"
  shows "inv_awake s'"
  using assms(1)
  by (cases rule: outside.cases) (use assms(2) in \<open>auto intro: awake_keep awake_update\<close>)

lemma fifo_work:
  assumes "work s s'" "inv_mutex s" "inv_queue s" "inv_fifo s"
  shows "inv_fifo s'"
  using assms(1)
proof (cases rule: work.cases)
  case (main_enq sd)
  with assms(3,4) enqueue_law(2) show ?thesis by (auto simp: inv_fifo_def inv_queue_def)
next
  case (w_deq i sd q)
  with assms(3) dequeue_law(2) [of "queue s" sd q] nth_mem [of i "workers s"]
  have "backlog (queue s) = sd # backlog q" by (auto simp: inv_queue_def)
  with w_deq assms(4) show ?thesis by (simp add: inv_fifo_def)
qed (use assms(4) in \<open>simp_all add: inv_fifo_def\<close>)

lemma fifo_outside:
  assumes "outside s s'" "inv_queue s" "inv_fifo s"
  shows "inv_fifo s'"
  using assms(1) by (cases rule: outside.cases) (use assms(3) in \<open>simp_all add: inv_fifo_def\<close>)

text \<open>What the service threads hold when one of them changes what it holds.\<close>

definition hands :: "wpc list \<Rightarrow> int multiset" where
  "hands ws = (\<Sum>p\<leftarrow>ws. mset (w_hand p))"

lemma hands_update:
  "i < length ws \<Longrightarrow> hands (ws[i := p]) + mset (w_hand (ws ! i)) = hands ws + mset (w_hand p)"
  unfolding hands_def by (induction ws arbitrary: i) (auto simp: less_Suc_eq_0_disj ac_simps split: nat.splits)

lemma hands_same:
  "i < length ws \<Longrightarrow> w_hand (ws ! i) = w_hand p \<Longrightarrow> hands (ws[i := p]) = hands ws"
  using hands_update [of i ws p] by simp

lemma served_hands: "inv_served s \<longleftrightarrow> mset (taken s) = mset (served s) + hands (workers s)"
  by (simp add: inv_served_def hands_def)

lemma served_work:
  assumes "work s s'" "inv_served s"
  shows "inv_served s'"
  using assms(1)
proof (cases rule: work.cases)
  case (w_deq i sd q)
  with hands_update [of i "workers s" "W_Signal sd"] assms(2) show ?thesis by (simp add: served_hands)
next
  case (w_done i sd)
  with hands_update [of i "workers s" W_Lock] assms(2) show ?thesis by (simp add: served_hands)
qed (use assms(2) in \<open>simp_all add: served_hands hands_same\<close>)

lemma served_outside:
  assumes "outside s s'" "inv_served s"
  shows "inv_served s'"
  using assms(1) by (cases rule: outside.cases) (use assms(2) in \<open>simp_all add: served_hands hands_same\<close>)

definition srv_inv :: "srv \<Rightarrow> bool" where
  "srv_inv s \<longleftrightarrow> inv_mutex s \<and> inv_queue s \<and> inv_main_wait s \<and> inv_awake s \<and> inv_fifo s \<and> inv_served s"

lemma srv_inv_init: "srv_inv srv_init"
  by (auto simp: srv_inv_def srv_init_def inv_mutex_def nth_Cons' inv_queue_def inv_main_wait_def inv_awake_def inv_fifo_def
      inv_served_def THREAD_POOL_SIZE_def eval_nat_numeral)

interpretation ts: invariant_of srv_init step srv_inv
proof unfold_locales
  show "srv_inv srv_init" by (rule srv_inv_init)
next
  fix s s'
  assume i: "srv_inv s" and "step s s'"
  then consider "work s s'" | "outside s s'" by (auto simp: step_def)
  then show "srv_inv s'"
    using i by cases (simp_all add: srv_inv_def mutex_work queue_work main_wait_work awake_work fifo_work served_work
      mutex_outside queue_outside main_wait_outside awake_outside fifo_outside served_outside)
qed

end
