(* ===== verification/ThreadsLive.thy ===== *)
theory ThreadsLive
  imports ThreadsInv
begin

text \<open>
  What the threads do in the end: a bound on the steps they take by themselves, the state they
  come to rest in, and a state in which a connection waits although service threads are idle.
  The steps of the program are also given as functions, one for the main thread and one for a
  service thread, which a schedule can be run with.
\<close>

subsection \<open>Work left\<close>

fun m_left :: "mpc \<Rightarrow> nat" where
  "m_left M_Accept = 0" | "m_left M_Unlock = 1" | "m_left M_Signal = 5" | "m_left (M_Enq sd) = 14"
| "m_left (M_Wait sd) = 14" | "m_left (M_Test sd) = 15" | "m_left (M_Woken sd) = 16" | "m_left (M_Lock sd) = 16"

fun w_left :: "wpc \<Rightarrow> nat" where
  "w_left W_Wait = 0" | "w_left W_Deq = 1" | "w_left W_Test = 2" | "w_left W_Lock = 3" | "w_left W_Woken = 3"
| "w_left (W_Serve sd) = 4" | "w_left (W_Unlock sd) = 5" | "w_left (W_Signal sd) = 8"

text \<open>A connection in the queue is worth eight steps: those of the thread that serves it.\<close>

definition work_left :: "srv \<Rightarrow> nat" where
  "work_left s = m_left (main_pc s) + 8 * conn_q_size (queue s) + sum_list (map w_left (workers s))"

lemma w_left_update:
  "i < length ws \<Longrightarrow> sum_list (map w_left (ws[i := p])) + w_left (ws ! i) = sum_list (map w_left ws) + w_left p"
  by (induction ws arbitrary: i) (auto simp: less_Suc_eq_0_disj split: nat.splits)

lemma work_left_less:
  assumes "srv_inv s" "work s s'"
  shows "work_left s' < work_left s"
  using assms(2)
proof (cases rule: work.cases)
  case (main_enq sd)
  then show ?thesis by (simp add: work_left_def enqueue_def)
next
  case (main_signal i)
  with w_left_update [of i "workers s" W_Woken] show ?thesis by (simp add: work_left_def)
next
  case (w_lock i)
  with w_left_update [of i "workers s" W_Test] show ?thesis by (simp add: work_left_def)
next
  case (w_wait i)
  with w_left_update [of i "workers s" W_Wait] show ?thesis by (simp add: work_left_def)
next
  case (w_relock i)
  with w_left_update [of i "workers s" W_Test] show ?thesis by (simp add: work_left_def)
next
  case (w_go i)
  with w_left_update [of i "workers s" W_Deq] show ?thesis by (simp add: work_left_def)
next
  case (w_deq i sd q)
  have "0 < conn_q_size (queue s)"
    using assms(1) w_deq nth_mem [of i "workers s"] by (auto simp: srv_inv_def inv_queue_def)
  moreover have "conn_q_size q = conn_q_size (queue s) - 1" using w_deq by (auto simp: dequeue_def)
  ultimately show ?thesis
    using w_deq w_left_update [of i "workers s" "W_Signal sd"] by (simp add: work_left_def)
next
  case (w_signal i sd c)
  with w_left_update [of i "workers s" "W_Unlock sd"] show ?thesis by (simp add: work_left_def)
next
  case (w_no_signal i sd)
  with w_left_update [of i "workers s" "W_Unlock sd"] show ?thesis by (simp add: work_left_def)
next
  case (w_unlock i sd)
  with w_left_update [of i "workers s" "W_Serve sd"] show ?thesis by (simp add: work_left_def)
next
  case (w_done i sd)
  with w_left_update [of i "workers s" W_Lock] show ?thesis by (simp add: work_left_def)
qed (simp_all add: work_left_def)

interpretation tw: working srv_init step srv_inv work work_left
  by unfold_locales (auto simp: step_def work_left_less)

lemma w_left_le: "w_left p \<le> 8"
  by (cases p) auto

lemma m_left_le: "m_left p \<le> 16"
  by (cases p) auto

lemma work_left_le:
  assumes "srv_inv s"
  shows "work_left s \<le> 136"
proof -
  have "sum_list (map w_left (workers s)) \<le> sum_list (map (\<lambda>_. 8) (workers s))"
    by (rule sum_list_mono) (simp add: w_left_le)
  moreover have "length (workers s) = 5" "conn_q_size (queue s) \<le> 10"
    using assms by (auto simp: srv_inv_def inv_mutex_def THREAD_POOL_SIZE_def inv_queue_def connq_ok_def MAX_CONN_BACKLOG_def)
  ultimately show ?thesis using m_left_le [of "main_pc s"] by (simp add: work_left_def sum_list_triv)
qed

subsection \<open>The steps as functions\<close>

text \<open>The next step of the main thread, when it has one; a signal wakes the sleeper \<open>w\<close>.\<close>

definition main_move :: "nat \<Rightarrow> srv \<Rightarrow> srv option" where
  "main_move w s = (case main_pc s of
     M_Accept \<Rightarrow> None
   | M_Lock sd \<Rightarrow> if mutex s = None then Some (s\<lparr>mutex := Some Main, main_pc := M_Test sd\<rparr>) else None
   | M_Test sd \<Rightarrow> Some (if conn_q_size (queue s) = MAX_CONN_BACKLOG
       then s\<lparr>mutex := None, main_pc := M_Wait sd\<rparr> else s\<lparr>main_pc := M_Enq sd\<rparr>)
   | M_Wait sd \<Rightarrow> None
   | M_Woken sd \<Rightarrow> if mutex s = None then Some (s\<lparr>mutex := Some Main, main_pc := M_Test sd\<rparr>) else None
   | M_Enq sd \<Rightarrow> Some (s\<lparr>queue := enqueue sd (queue s), main_pc := M_Signal\<rparr>)
   | M_Signal \<Rightarrow>
       if conn_q_size (queue s) = 1 \<and> W_Wait \<in> set (workers s)
       then if at s w W_Wait then Some (s\<lparr>workers := (workers s)[w := W_Woken], main_pc := M_Unlock\<rparr>) else None
       else Some (s\<lparr>main_pc := M_Unlock\<rparr>)
   | M_Unlock \<Rightarrow> Some (s\<lparr>mutex := None, main_pc := M_Accept\<rparr>))"

text \<open>The next step of the service thread \<open>i\<close>.\<close>

definition worker_move :: "nat \<Rightarrow> srv \<Rightarrow> srv option" where
  "worker_move i s = (if length (workers s) \<le> i then None else case workers s ! i of
     W_Lock \<Rightarrow> if mutex s = None then Some (s\<lparr>mutex := Some (Worker i), workers := (workers s)[i := W_Test]\<rparr>) else None
   | W_Test \<Rightarrow> Some (if conn_q_size (queue s) = 0
       then s\<lparr>mutex := None, workers := (workers s)[i := W_Wait]\<rparr> else s\<lparr>workers := (workers s)[i := W_Deq]\<rparr>)
   | W_Wait \<Rightarrow> None
   | W_Woken \<Rightarrow> if mutex s = None then Some (s\<lparr>mutex := Some (Worker i), workers := (workers s)[i := W_Test]\<rparr>) else None
   | W_Deq \<Rightarrow> Some (case dequeue (queue s) of (sd, q) \<Rightarrow>
       s\<lparr>queue := q, workers := (workers s)[i := W_Signal sd], taken := taken s @ [sd]\<rparr>)
   | W_Signal sd \<Rightarrow> Some (case main_pc s of
       M_Wait c \<Rightarrow> if conn_q_size (queue s) = MAX_CONN_BACKLOG - 1
         then s\<lparr>main_pc := M_Woken c, workers := (workers s)[i := W_Unlock sd]\<rparr>
         else s\<lparr>workers := (workers s)[i := W_Unlock sd]\<rparr>
     | _ \<Rightarrow> s\<lparr>workers := (workers s)[i := W_Unlock sd]\<rparr>)
   | W_Unlock sd \<Rightarrow> Some (s\<lparr>mutex := None, workers := (workers s)[i := W_Serve sd]\<rparr>)
   | W_Serve sd \<Rightarrow> Some (s\<lparr>workers := (workers s)[i := W_Lock], served := served s @ [sd]\<rparr>))"

lemma main_move_work: "main_move w s = Some s' \<Longrightarrow> work s s'"
  by (auto simp: main_move_def intro: work.intros split: mpc.splits if_splits)

lemma worker_move_work: "worker_move i s = Some s' \<Longrightarrow> work s s'"
  by (auto simp: worker_move_def not_le intro: work.intros split: wpc.splits if_splits prod.splits mpc.splits)

lemma main_move_I: "main_move w s = Some s' \<Longrightarrow> (\<exists>w. main_move w s = Some s') \<or> (\<exists>i. worker_move i s = Some s')"
  by blast

lemma worker_move_I: "worker_move i s = Some s' \<Longrightarrow> (\<exists>w. main_move w s = Some s') \<or> (\<exists>i. worker_move i s = Some s')"
  by blast

lemma work_move: "work s s' \<Longrightarrow> (\<exists>w. main_move w s = Some s') \<or> (\<exists>i. worker_move i s = Some s')"
proof (induction rule: work.induct)
  case (main_signal s i)
  then show ?case
    using nth_mem [of i "workers s"] by (intro main_move_I [of i]) (auto simp: main_move_def)
next
  case (main_no_signal s)
  then show ?case by (intro main_move_I [of 0]) (auto simp: main_move_def)
next
  case (w_lock s i)
  then show ?case by (intro worker_move_I [of i]) (simp add: worker_move_def)
next
  case (w_wait s i)
  then show ?case by (intro worker_move_I [of i]) (simp add: worker_move_def)
next
  case (w_relock s i)
  then show ?case by (intro worker_move_I [of i]) (simp add: worker_move_def)
next
  case (w_go s i)
  then show ?case by (intro worker_move_I [of i]) (simp add: worker_move_def)
next
  case (w_deq s i sd q)
  then show ?case by (intro worker_move_I [of i]) (simp add: worker_move_def)
next
  case (w_signal s i sd c)
  then show ?case by (intro worker_move_I [of i]) (simp add: worker_move_def)
next
  case (w_no_signal s i sd)
  then show ?case by (intro worker_move_I [of i]) (auto simp: worker_move_def split: mpc.splits)
next
  case (w_unlock s i sd)
  then show ?case by (intro worker_move_I [of i]) (simp add: worker_move_def)
next
  case (w_done s i sd)
  then show ?case by (intro worker_move_I [of i]) (simp add: worker_move_def)
qed (rule main_move_I [of 0], simp add: main_move_def)+

lemma work_iff: "work s s' \<longleftrightarrow> (\<exists>w. main_move w s = Some s') \<or> (\<exists>i. worker_move i s = Some s')"
  using work_move main_move_work worker_move_work by blast

subsection \<open>At rest\<close>

lemma rest_move:
  assumes "\<And>t. \<not> work s t"
  shows "main_move w s = None" "worker_move i s = None"
  using assms main_move_work worker_move_work by (metis option.exhaust)+

lemma rest_main:
  assumes "\<And>t. \<not> work s t"
  shows "\<not> m_crit (main_pc s)"
proof
  assume "m_crit (main_pc s)"
  moreover obtain w where "W_Wait \<in> set (workers s) \<Longrightarrow> at s w W_Wait"
    by (auto simp: in_set_conv_nth)
  ultimately show False
    using rest_move(1) [OF assms, of w] by (auto simp: main_move_def split: mpc.splits if_splits)
qed

lemma rest_worker:
  assumes "\<And>t. \<not> work s t" "i < length (workers s)"
  shows "\<not> w_crit (workers s ! i)"
  using rest_move(2) [OF assms(1), of i] assms(2)
  by (auto simp: worker_move_def split: wpc.splits if_splits)

lemma at_rest:
  assumes "\<And>t. \<not> work s t" "srv_inv s"
  shows "main_pc s = M_Accept" "set (workers s) = {W_Wait}" "conn_q_size (queue s) = 0"
proof -
  have m: "mutex s = None"
    using assms(2) rest_main [OF assms(1)] rest_worker [OF assms(1)]
    by (auto simp: srv_inv_def inv_mutex_def split: option.splits thread.splits)
  have "workers s ! i = W_Wait" if "i < length (workers s)" for i
    using rest_worker [OF assms(1) that] assms(1) m that by (cases "workers s ! i") (auto intro: work.intros)
  then have "set (workers s) \<subseteq> {W_Wait}" by (auto simp: in_set_conv_nth)
  moreover have "workers s \<noteq> []"
    using assms(2) by (auto simp: srv_inv_def inv_mutex_def THREAD_POOL_SIZE_def)
  ultimately show ws: "set (workers s) = {W_Wait}"
    by (metis set_empty2 subset_singletonD)
  have "main_pc s = M_Accept \<or> (\<exists>c. main_pc s = M_Wait c)"
    using rest_main [OF assms(1)] assms(1) m by (cases "main_pc s") (auto intro: work.intros)
  then have ns: "main_pc s \<noteq> M_Signal" by auto
  have "inv_awake s" "inv_main_wait s" using assms(2) by (simp_all add: srv_inv_def)
  show size: "conn_q_size (queue s) = 0"
    using \<open>inv_awake s\<close> ws ns unfolding inv_awake_def by blast
  have "main_pc s \<noteq> M_Wait c" for c
    using \<open>inv_main_wait s\<close> size unfolding inv_main_wait_def by (simp add: MAX_CONN_BACKLOG_def)
  with \<open>main_pc s = M_Accept \<or> (\<exists>c. main_pc s = M_Wait c)\<close> show "main_pc s = M_Accept" by blast
qed

lemma rest_hands: "set ws \<subseteq> {W_Wait} \<Longrightarrow> hands ws = {#}"
  unfolding hands_def by (induction ws) auto

lemma rest_all_served:
  assumes "\<And>t. \<not> work s t" "srv_inv s"
  shows "taken s = accepted s" "mset (served s) = mset (accepted s)"
  using at_rest [OF assms] assms(2) rest_hands [of "workers s"]
  by (auto simp: srv_inv_def inv_fifo_def served_hands)

lemma work_accepted: "work s s' \<Longrightarrow> accepted s' = accepted s"
  by (induction rule: work.induct) simp_all

lemma works_accepted: "work\<^sup>*\<^sup>* s s' \<Longrightarrow> accepted s' = accepted s"
  by (induction rule: rtranclp_induct) (simp_all add: work_accepted)

subsection \<open>Schedules\<close>

text \<open>A schedule says who moves next; a connection may come while the main thread accepts.\<close>

datatype turn = Main_turn nat | Worker_turn nat | Comes int

fun take_turn :: "turn \<Rightarrow> srv \<Rightarrow> srv option" where
  "take_turn (Main_turn w) s = main_move w s"
| "take_turn (Worker_turn i) s = worker_move i s"
| "take_turn (Comes sd) s = (if main_pc s = M_Accept
     then Some (s\<lparr>main_pc := M_Lock sd, accepted := accepted s @ [sd]\<rparr>) else None)"

fun run_turns :: "turn list \<Rightarrow> srv \<Rightarrow> srv option" where
  "run_turns [] s = Some s"
| "run_turns (t # ts) s = (case take_turn t s of None \<Rightarrow> None | Some s' \<Rightarrow> run_turns ts s')"

lemma take_turn_step: "take_turn t s = Some s' \<Longrightarrow> step s s'"
  by (cases t) (auto simp: step_def work_iff intro: outside.intros split: if_splits)

lemma run_turns_steps: "run_turns ts s = Some s' \<Longrightarrow> step\<^sup>*\<^sup>* s s'"
  by (induction ts arbitrary: s)
    (auto split: option.splits dest!: take_turn_step intro: converse_rtranclp_into_rtranclp)

text \<open>The first service thread has the mutex.\<close>

definition locked :: srv where
  "locked = srv_init\<lparr>mutex := Some (Worker 0), workers := [W_Test, W_Lock, W_Lock, W_Lock, W_Lock]\<rparr>"

lemma locked_reachable: "step\<^sup>*\<^sup>* srv_init locked"
  by (rule run_turns_steps [of "[Worker_turn 0]"]) code_simp

text \<open>All service threads find the queue empty and sleep; then two connections come before the
  woken thread gets the mutex. The second is put in a queue of size two, so nobody is woken
  for it.\<close>

definition accept_turns :: "int \<Rightarrow> turn list" where
  "accept_turns sd = Comes sd # replicate 5 (Main_turn 0)"

definition stall_turns :: "turn list" where
  "stall_turns = concat (map (\<lambda>i. [Worker_turn i, Worker_turn i]) [0..<THREAD_POOL_SIZE]) @
     accept_turns 7 @ accept_turns 8 @ replicate 5 (Worker_turn 0)"

definition stalled :: srv where
  "stalled = \<lparr>queue = \<lparr>conn_q = [7, 8, 0, 0, 0, 0, 0, 0, 0, 0], conn_q_size = 1, service_th_pos = 1, producer_pos = 2\<rparr>,
     mutex = None, main_pc = M_Accept, workers = [W_Serve 7, W_Wait, W_Wait, W_Wait, W_Wait],
     accepted = [7, 8], taken = [7], served = []\<rparr>"

lemma run_stall: "run_turns stall_turns srv_init = Some stalled"
  by code_simp

lemma stalled_reachable: "step\<^sup>*\<^sup>* srv_init stalled"
  by (rule run_turns_steps [OF run_stall])

text \<open>From there the program can only go on when the thread that serves is done.\<close>

lemma stalled_work:
  assumes "work stalled s'"
  shows "s' = stalled\<lparr>workers := [W_Lock, W_Wait, W_Wait, W_Wait, W_Wait], served := [7]\<rparr>"
proof -
  from assms obtain w i where "main_move w stalled = Some s' \<or> worker_move i stalled = Some s'"
    by (auto simp: work_iff)
  then show ?thesis
    by (auto simp: main_move_def worker_move_def stalled_def nth_Cons' split: if_splits)
qed

lemma stalled_done: "work stalled (stalled\<lparr>workers := [W_Lock, W_Wait, W_Wait, W_Wait, W_Wait], served := [7]\<rparr>)"
proof -
  have "worker_move 0 stalled = Some (stalled\<lparr>workers := [W_Lock, W_Wait, W_Wait, W_Wait, W_Wait], served := [7]\<rparr>)"
    by (simp add: worker_move_def stalled_def)
  then show ?thesis by (rule worker_move_work)
qed

end
