(* ===== verification/WholeServer.thy ===== *)
theory WholeServer
  imports Isolation ThreadsLive StartLaws
begin

text \<open>
  The threads and what they do, together: the main thread accepts connections while service threads
  serve others, each with the \<^verbatim>\<open>request\<close> variable it keeps from one connection to the next. The
  threads take the steps of \<open>Threads\<close>; to serve a connection begins and ends with a step, and its
  effect is that of \<open>serve_connection\<close> on the world that all share.

  Nothing in the code keeps two services apart: \<^verbatim>\<open>mutex_db\<close> is never locked. What happens when
  one service begins while another runs, when a connection is accepted meanwhile, or when the
  process ends meanwhile, is therefore left open: the flag \<open>overlap\<close> is set, and from then on the
  world and the requests may be anything. So every execution of the program is one of the model, and
  what is proved of states without the flag holds of all executions without such an overlap.

  The invariant says that a connection between its acceptance and its service is an open descriptor
  nobody touches (this rests on \<open>Isolation\<close>), that no two have the same, that the
  database is what \<open>chat_run\<close> computes for the requests in the order of their service, and that the
  replies have gone out in this order.
\<close>

record sys =
  threads :: srv
  os :: world
  request :: "mem list"
  up :: bool
  running :: "nat set"
  overlap :: bool
  peer :: "int \<Rightarrow> char list \<times> u32 \<times> u16"
  arrived :: "(char list \<times> u32 \<times> u16) list"
  answered :: "client list"

text \<open>\<open>running\<close> are the service threads between the begin and the end of a service. \<open>peer\<close>,
  \<open>arrived\<close> and \<open>answered\<close> record what a client that was accepted sends from where, all clients
  accepted, and those whose service has ended, with what the variables of the thread held.\<close>

definition sys_init :: "world \<Rightarrow> mem list \<Rightarrow> sys" where
  "sys_init w qs = \<lparr>threads = srv_init, os = w, request = qs, up = True, running = {}, overlap = False,
     peer = (\<lambda>_. ([], 0, 0)), arrived = [], answered = []\<rparr>"

text \<open>\<^verbatim>\<open>main\<close> got the client socket \<open>sd\<close> from \<^verbatim>\<open>accept\<close>; service thread \<open>i\<close> begins, and ends,
  the service of the connection \<open>sd\<close>; SIGINT.\<close>

definition accepts :: "int \<Rightarrow> char list \<times> u32 \<times> u16 \<Rightarrow> world \<Rightarrow> sys \<Rightarrow> sys" where
  "accepts sd x w s = s\<lparr>
     threads := (threads s)\<lparr>main_pc := M_Lock sd, accepted := accepted (threads s) @ [sd]\<rparr>,
     os := w, peer := (peer s)(sd := x), arrived := arrived s @ [x]\<rparr>"

definition begins :: "nat \<Rightarrow> sys \<Rightarrow> sys" where
  "begins i s = s\<lparr>running := insert i (running s), overlap := overlap s \<or> running s \<noteq> {}\<rparr>"

definition served_by :: "nat \<Rightarrow> int \<Rightarrow> junk \<Rightarrow> mem \<Rightarrow> world \<Rightarrow> sys \<Rightarrow> sys" where
  "served_by i sd jk q w s = (case peer s sd of (inp, ip, pt) \<Rightarrow> s\<lparr>
     threads := (threads s)\<lparr>workers := (workers (threads s))[i := W_Lock],
       served := served (threads s) @ [sd]\<rparr>,
     os := w, request := (request s)[i := q], running := running s - {i},
     answered := answered s @ [\<lparr>cl_junk = jk, cl_request = request s ! i, cl_input = inp,
       cl_ip = ip, cl_port = pt\<rparr>]\<rparr>)"

definition shutdown_server :: "sys \<Rightarrow> sys" where
  "shutdown_server s = s\<lparr>up := False\<rparr>"

text \<open>A service or several are on their way, or have been in each other's.\<close>

definition busy :: "sys \<Rightarrow> bool" where
  "busy s \<longleftrightarrow> running s \<noteq> {} \<or> overlap s"

text \<open>The steps of the program itself: those of the threads outside services, the begin of a
  service, and its end, with an effect that is known if there was no overlap.\<close>

inductive own_step :: "sys \<Rightarrow> sys \<Rightarrow> bool" where
  inside: "up s \<Longrightarrow> work (threads s) t \<Longrightarrow> served t = served (threads s) \<Longrightarrow>
    own_step s (s\<lparr>threads := t\<rparr>)"
| begin_service: "up s \<Longrightarrow> at (threads s) i (W_Serve sd) \<Longrightarrow> i \<notin> running s \<Longrightarrow>
    own_step s (begins i s)"
| end_service: "up s \<Longrightarrow> at (threads s) i (W_Serve sd) \<Longrightarrow> i \<in> running s \<Longrightarrow>
    overlap s \<or> serve_connection jk sd (request s ! i) (os s) = Some (q, w) \<Longrightarrow>
    own_step s (served_by i sd jk q w s)"

text \<open>With those that come from outside: a connection, or \<^verbatim>\<open>accept\<close> that fails, which ends
  \<^verbatim>\<open>main\<close>; a wake-up without a signal; SIGINT. While a service runs a connection has an
  unknown effect, and so has the end of the process, which can then also come from SIGPIPE, as a
  service writes to a socket the client has closed.\<close>

inductive sys_step :: "sys \<Rightarrow> sys \<Rightarrow> bool" where
  own: "own_step s s' \<Longrightarrow> sys_step s s'"
| accept: "up s \<Longrightarrow> main_pc (threads s) = M_Accept \<Longrightarrow> \<not> busy s \<Longrightarrow>
    run_state (sys_accept inp ip pt) (os s) = (sd, w) \<Longrightarrow> 0 \<le> sd \<Longrightarrow>
    sys_step s (accepts sd (inp, ip, pt) w s)"
| accept_fails: "up s \<Longrightarrow> main_pc (threads s) = M_Accept \<Longrightarrow> \<not> busy s \<Longrightarrow>
    run_state (sys_accept inp ip pt) (os s) = (sd, w) \<Longrightarrow> sd < 0 \<Longrightarrow>
    sys_step s (s\<lparr>os := w, up := False\<rparr>)"
| spurious: "up s \<Longrightarrow> outside (threads s) t \<Longrightarrow> accepted t = accepted (threads s) \<Longrightarrow>
    sys_step s (s\<lparr>threads := t\<rparr>)"
| interrupt: "up s \<Longrightarrow> \<not> busy s \<Longrightarrow> sys_step s (shutdown_server s)"
| accept_amid: "up s \<Longrightarrow> main_pc (threads s) = M_Accept \<Longrightarrow> busy s \<Longrightarrow>
    sys_step s (accepts sd x w (s\<lparr>overlap := True\<rparr>))"
| end_amid: "up s \<Longrightarrow> busy s \<Longrightarrow> sys_step s (s\<lparr>os := w, overlap := True, up := False\<rparr>)"

inductive_cases own_stepE: "own_step s s'"

inductive_cases sys_stepE: "sys_step s s'"

subsection \<open>The threads of the whole are those of \<open>Threads\<close>\<close>

lemma own_step_work:
  assumes "own_step s s'"
  shows "threads s' = threads s \<or> work (threads s) (threads s')" "up s" "up s'" "arrived s' = arrived s"
  using assms
  by (auto elim!: own_stepE simp: served_by_def begins_def split: prod.splits intro: work.w_done)

lemma outside_served: "outside t t' \<Longrightarrow> served t' = served t"
  by (induction rule: outside.induct) simp_all

lemma sys_step_step:
  assumes "sys_step s s'"
  shows "threads s' = threads s \<or> step (threads s) (threads s')"
  using assms
  by (auto elim!: sys_stepE dest: own_step_work(1) simp: step_def accepts_def shutdown_server_def
      intro: outside.arrive)

lemma sys_step_srv_inv: "srv_inv (threads s) \<Longrightarrow> sys_step s s' \<Longrightarrow> srv_inv (threads s')"
  using sys_step_step ts.inv_step by metis


subsection \<open>Connections on their way\<close>

definition unserved :: "srv \<Rightarrow> int multiset" where
  "unserved t = mset (accepted t) - mset (served t)"

lemma unserved_hands:
  assumes "srv_inv t"
  shows "unserved t = mset (backlog (queue t)) + mset (m_hand (main_pc t)) + hands (workers t)"
    "mset (accepted t) = mset (served t) + unserved t"
  using assms by (simp_all add: srv_inv_def inv_fifo_def served_hands unserved_def)

lemma hands_in: "i < length ws \<Longrightarrow> sd \<in> set (w_hand (ws ! i)) \<Longrightarrow> sd \<in># hands ws"
  unfolding hands_def by (induction ws arbitrary: i) (auto simp: less_Suc_eq_0_disj split: nat.splits)

lemma serving_unserved: "srv_inv t \<Longrightarrow> at t i (W_Serve sd) \<Longrightarrow> sd \<in># unserved t"
  using unserved_hands(1) [of t] hands_in [of i "workers t" sd] by auto

subsection \<open>The invariant\<close>

text \<open>What a client sends is a request; clients, and the variables of the threads, are as the chat
  specification supposes.\<close>

definition asks :: "char list \<times> u32 \<times> u16 \<Rightarrow> client_req \<Rightarrow> bool" where
  "asks x r \<longleftrightarrow> req_ok r \<and> (\<exists>rest. fst x = concat (map (\<lambda>l. l @ [NUL]) (lines_of r)) @ rest)"

definition polite :: "sys \<Rightarrow> bool" where
  "polite s \<longleftrightarrow> (\<forall>x\<in>set (arrived s). \<exists>r. asks x r) \<and>
     (\<forall>c\<in>set (answered s). junk_ok (cl_junk c) \<and> junk_zero (cl_junk c))"

text \<open>Where the client \<open>c\<close> came from and what it sent.\<close>

definition contact :: "client \<Rightarrow> char list \<times> u32 \<times> u16" where
  "contact c = (cl_input c, cl_ip c, cl_port c)"

definition desc_of :: "char list \<times> u32 \<times> u16 \<Rightarrow> desc" where
  "desc_of x = DSock (fst x) (fst (snd x)) (snd (snd x))"

definition open_at :: "nat \<Rightarrow> desc \<Rightarrow> world \<Rightarrow> bool" where
  "open_at k d w \<longleftrightarrow> map_of (fds w) k = Some d"

lemma open_at_holds: "open_at k d w \<longleftrightarrow> holds k (d, filter (event_of k) (trace w)) w"
  by (simp add: open_at_def holds_def)

definition inv_conns :: "sys \<Rightarrow> bool" where
  "inv_conns s \<longleftrightarrow>
     (\<forall>sd. sd \<in># unserved (threads s) \<longrightarrow> 0 \<le> sd \<and> open_at (nat sd) (desc_of (peer s sd)) (os s) \<and>
       peer s sd \<in> set (arrived s) \<and> count (unserved (threads s)) sd = 1) \<and>
     mset (arrived s) = mset (map contact (answered s)) + image_mset (peer s) (unserved (threads s))"

definition inv_requests :: "sys \<Rightarrow> bool" where
  "inv_requests s \<longleftrightarrow> length (request s) = THREAD_POOL_SIZE \<and> (\<forall>q\<in>set (request s). req_size q)"

definition inv_chat :: "world \<Rightarrow> sys \<Rightarrow> bool" where
  "inv_chat w0 s \<longleftrightarrow> db_inv (os s) \<and> reach (os s) = reach w0 \<and>
     (\<exists>rs. list_all2 sends (answered s) rs \<and>
       chat_of (os s) = chat_run (reach w0) (zip (answered s) rs) (chat_of w0) \<and>
       replied (trace w0) (map nat (served (threads s)))
         (chat_replies (reach w0) (zip (answered s) rs) (chat_of w0)) (trace (os s)))"

definition inv_running :: "sys \<Rightarrow> bool" where
  "inv_running s \<longleftrightarrow> (\<forall>i\<in>running s. \<exists>sd. at (threads s) i (W_Serve sd))"

definition sys_ready :: "world \<Rightarrow> mem list \<Rightarrow> bool" where
  "sys_ready w0 qs \<longleftrightarrow> db_inv w0 \<and> length qs = THREAD_POOL_SIZE \<and> (\<forall>q\<in>set qs. req_size q)"

definition sys_inv :: "world \<Rightarrow> mem list \<Rightarrow> sys \<Rightarrow> bool" where
  "sys_inv w0 qs s \<longleftrightarrow> srv_inv (threads s) \<and> inv_running s \<and>
     (sys_ready w0 qs \<and> polite s \<and> \<not> overlap s \<longrightarrow> inv_conns s \<and> inv_requests s \<and> inv_chat w0 s)"

lemma sys_inv_init: "sys_inv w0 qs (sys_init w0 qs)"
  using srv_inv_init
  by (auto simp: sys_inv_def sys_init_def sys_ready_def inv_conns_def inv_requests_def
      inv_chat_def inv_running_def unserved_def srv_init_def intro: replied_none)

lemma own_polite: "own_step s s' \<Longrightarrow> polite s' \<Longrightarrow> polite s"
  by (auto elim!: own_stepE simp: polite_def served_by_def begins_def split: prod.splits)

lemma step_back:
  assumes "sys_step s s'"
  shows "polite s' \<Longrightarrow> polite s" "\<not> overlap s' \<Longrightarrow> \<not> overlap s"
  using assms
  by (auto elim!: sys_stepE own_stepE simp: polite_def accepts_def shutdown_server_def served_by_def
      begins_def split: prod.splits)

text \<open>Steps that touch no connection.\<close>

lemma conns_keep:
  assumes "inv_conns s" "accepted t = accepted (threads s)" "served t = served (threads s)"
  shows "inv_conns (s\<lparr>threads := t\<rparr>)"
  using assms by (simp add: inv_conns_def unserved_def)

subsection \<open>A connection is accepted\<close>

lemma unserved_accept:
  assumes "srv_inv t"
  shows "unserved (t\<lparr>main_pc := M_Lock sd, accepted := accepted t @ [sd]\<rparr>) = unserved t + {#sd#}"
proof -
  have "mset (accepted t @ [sd]) = mset (served t) + (unserved t + {#sd#})"
    using unserved_hands(2) [OF assms] by simp
  then have "mset (accepted t @ [sd]) - mset (served t) = unserved t + {#sd#}"
    by (simp only: add_diff_cancel_left')
  then show ?thesis by (simp add: unserved_def)
qed

lemma run_accept:
  assumes "quiet w"
  shows "run_state (sys_accept inp ip pt) w =
    (int (fresh_fd (fds w)), w\<lparr>fds := fd_add (DSock inp ip pt) (fds w)\<rparr>)"
  using assms by (simp add: sys_accept_def run_syscall)

lemma accept_conns:
  assumes inv: "inv_conns s" "srv_inv (threads s)" and q: "quiet (os s)"
    and run: "run_state (sys_accept inp ip pt) (os s) = (sd, w)"
  shows "inv_conns (accepts sd (inp, ip, pt) w s)"
proof -
  have sd: "sd = int (fresh_fd (fds (os s)))" and w: "w = os s\<lparr>fds := fd_add (DSock inp ip pt) (fds (os s))\<rparr>"
    using run run_accept [OF q] by simp_all
  have new: "sd' \<noteq> sd" if "sd' \<in># unserved (threads s)" for sd'
  proof -
    have "0 \<le> sd'" "map_of (fds (os s)) (nat sd') \<noteq> None"
      using inv(1) that by (auto simp: inv_conns_def open_at_def)
    with sd show ?thesis by auto
  qed
  then have notin: "sd \<notin># unserved (threads s)" by blast
  have keep: "open_at (nat sd') d w" if "open_at (nat sd') d (os s)" for sd' d
    using that by (auto simp: open_at_def w map_of_fd_add dest: fresh_neq)
  have here: "open_at (nat sd) (DSock inp ip pt) w"
    by (simp add: open_at_def w sd map_of_fd_add)
  let ?t = "(threads s)\<lparr>main_pc := M_Lock sd, accepted := accepted (threads s) @ [sd]\<rparr>"
  have un: "unserved ?t = unserved (threads s) + {#sd#}" by (rule unserved_accept [OF inv(2)])
  have "image_mset ((peer s)(sd := (inp, ip, pt))) (unserved (threads s)) = image_mset (peer s) (unserved (threads s))"
    using notin by (intro image_mset_cong) auto
  with inv(1) notin new keep here un sd show ?thesis
    by (auto simp: inv_conns_def accepts_def desc_of_def not_in_iff [symmetric] count_inI)
qed

lemma accept_inv:
  assumes "inv_conns s" "inv_requests s" "inv_chat w0 s" "srv_inv (threads s)"
    and run: "run_state (sys_accept inp ip pt) (os s) = (sd, w)"
  shows "inv_conns (accepts sd (inp, ip, pt) w s) \<and> inv_requests (accepts sd (inp, ip, pt) w s) \<and>
    inv_chat w0 (accepts sd (inp, ip, pt) w s)"
proof -
  have q: "quiet (os s)" using assms(3) by (simp add: inv_chat_def db_inv_quiet)
  have w: "w = os s\<lparr>fds := fd_add (DSock inp ip pt) (fds (os s))\<rparr>"
    using run run_accept [OF q] by simp
  have "inv_chat w0 (accepts sd (inp, ip, pt) w s)"
    using assms(3) by (auto simp: inv_chat_def accepts_def w)
  with accept_conns [OF assms(1,4) q run] assms(2) show ?thesis
    by (simp add: inv_requests_def accepts_def)
qed


subsection \<open>A connection is served\<close>

lemma chat_snoc:
  assumes "length cs = length rs"
  shows "chat_run rch (zip (cs @ [c]) (rs @ [r])) s =
    snd (chat_step rch (fresh_account (cl_junk c)) (cl_ip c) r (chat_run rch (zip cs rs) s))"
    "chat_replies rch (zip (cs @ [c]) (rs @ [r])) s = chat_replies rch (zip cs rs) s @
    [fst (chat_step rch (fresh_account (cl_junk c)) (cl_ip c) r (chat_run rch (zip cs rs) s))]"
proof -
  have "chat_replies rch (xs @ [(c, r)]) s = chat_replies rch xs s @
      [fst (chat_step rch (fresh_account (cl_junk c)) (cl_ip c) r (chat_run rch xs s))]" for xs
    by (induction rch xs s rule: chat_run.induct) (simp_all add: case_prod_beta)
  with assms show "chat_run rch (zip (cs @ [c]) (rs @ [r])) s =
    snd (chat_step rch (fresh_account (cl_junk c)) (cl_ip c) r (chat_run rch (zip cs rs) s))"
    "chat_replies rch (zip (cs @ [c]) (rs @ [r])) s = chat_replies rch (zip cs rs) s @
    [fst (chat_step rch (fresh_account (cl_junk c)) (cl_ip c) r (chat_run rch (zip cs rs) s))]"
    by (simp_all add: chat_run_append)
qed

text \<open>Whatever the thread's variables hold, as long as they suit the specification, the service
  returns and is a step of it.\<close>

lemma serve_returns:
  assumes "inv_conns s" "inv_requests s" "inv_chat w0 s" "srv_inv (threads s)"
    and i: "at (threads s) i (W_Serve sd)" and x: "peer s sd = (inp, ip, pt)" "asks (inp, ip, pt) r"
    and jk: "junk_ok jk" "junk_zero jk"
  shows "\<exists>q w. serve_connection jk sd (request s ! i) (os s) = Some (q, w) \<and>
    chat_result (nat sd) (os s) (chat_step (reach w0) (fresh_account jk) ip r (chat_of (os s))) w"
proof -
  have sd: "0 \<le> sd" "open_at (nat sd) (desc_of (inp, ip, pt)) (os s)"
    using assms(1) serving_unserved [OF assms(4) i] x(1) by (auto simp: inv_conns_def)
  from x(2) obtain rest where r: "req_ok r" "inp = concat (map (\<lambda>l. l @ [NUL]) (lines_of r)) @ rest"
    by (auto simp: asks_def)
  have cl: "client_at (os s) (nat sd) (lines_of r) rest ip pt"
    using sd(2) r lines_wire [OF r(1)] by (simp add: client_at_def open_at_def desc_of_def)
  have db: "db_inv (os s)" "reach (os s) = reach w0" using assms(3) by (simp_all add: inv_chat_def)
  have len: "length (request s ! i) = sizeof_request"
    using assms(2,4) i by (auto simp: inv_requests_def req_size_def srv_inv_def inv_mutex_def)
  from serve_connection_step [OF db(1) r(1) cl len jk] sd(1) db(2) show ?thesis by auto
qed

lemma unserved_done:
  assumes "srv_inv t" "at t i (W_Serve sd)"
  shows "unserved (t\<lparr>workers := ws, served := served t @ [sd]\<rparr>) = unserved t - {#sd#}"
  by (simp add: unserved_def)

lemma serve_conns:
  assumes inv: "inv_conns s" "srv_inv (threads s)" and i: "at (threads s) i (W_Serve sd)"
    and x: "peer s sd = (inp, ip, pt)"
    and run: "serve_connection jk sd (request s ! i) (os s) = Some (q, w)"
  shows "inv_conns (served_by i sd jk q w s)"
proof -
  let ?u = "unserved (threads s)"
  have sd: "sd \<in># ?u" by (rule serving_unserved [OF inv(2) i])
  with inv(1) have one: "count ?u sd = 1" by (simp add: inv_conns_def)
  have un: "unserved (threads (served_by i sd jk q w s)) = ?u - {#sd#}"
    by (simp add: served_by_def x unserved_done [OF inv(2) i])
  have other: "sd' \<noteq> sd \<and> sd' \<in># ?u" if "sd' \<in># ?u - {#sd#}" for sd'
    using that one by (metis count_diff count_single diff_self_eq_0 in_diffD not_in_iff)
  have keep: "open_at (nat sd') (desc_of (peer s sd')) w" if "sd' \<in># ?u - {#sd#}" for sd'
  proof -
    have h: "0 \<le> sd'" "open_at (nat sd') (desc_of (peer s sd')) (os s)"
      using inv(1) other [OF that] by (simp_all add: inv_conns_def)
    have "sd \<noteq> int (nat sd')" using h(1) other [OF that] by auto
    from serve_connection_spares [OF run this h(2) [unfolded open_at_holds]] show ?thesis
      by (simp add: open_at_def holds_def)
  qed
  have "image_mset (peer s) ?u = image_mset (peer s) (?u - {#sd#}) + {#(inp, ip, pt)#}"
    using sd x by (metis add_mset_add_single image_mset_add_mset insert_DiffM)
  moreover have "count (?u - {#sd#}) sd' = 1" if "sd' \<in># ?u - {#sd#}" for sd'
    using other [OF that] inv(1) by (simp add: inv_conns_def)
  ultimately show ?thesis
    using inv(1) keep other un by (auto simp: inv_conns_def served_by_def x contact_def)
qed

lemma serve_inv:
  assumes inv: "inv_conns s" "inv_requests s" "inv_chat w0 s" "srv_inv (threads s)"
    and i: "at (threads s) i (W_Serve sd)"
    and run: "serve_connection jk sd (request s ! i) (os s) = Some (q, w)"
    and p: "polite (served_by i sd jk q w s)"
  shows "inv_conns (served_by i sd jk q w s) \<and> inv_requests (served_by i sd jk q w s) \<and>
    inv_chat w0 (served_by i sd jk q w s)"
proof -
  obtain inp ip pt where x: "peer s sd = (inp, ip, pt)" by (metis prod.exhaust)
  have "peer s sd \<in> set (arrived s)"
    using inv(1) serving_unserved [OF inv(4) i] by (simp add: inv_conns_def)
  with p x obtain r where r: "asks (inp, ip, pt) r"
    by (auto simp: polite_def served_by_def)
  have jk: "junk_ok jk" "junk_zero jk" using p x by (simp_all add: polite_def served_by_def)
  from serve_returns [OF inv i x r jk] run obtain tr where
    w: "db_inv w" "chat_of w = snd (chat_step (reach w0) (fresh_account jk) ip r (chat_of (os s)))"
      "trace w = trace (os s) @ tr"
      "reply_ev (nat sd) (fst (chat_step (reach w0) (fresh_account jk) ip r (chat_of (os s)))) \<in> set tr"
    by (auto simp: chat_result_def)
  have rw: "reach w = reach w0"
    using env_os.serve_connection_rel [OF run] inv(3) by (simp add: env_rel_def inv_chat_def)
  from inv(3) obtain rs where rs: "list_all2 sends (answered s) rs"
    "chat_of (os s) = chat_run (reach w0) (zip (answered s) rs) (chat_of w0)"
    "replied (trace w0) (map nat (served (threads s)))
      (chat_replies (reach w0) (zip (answered s) rs) (chat_of w0)) (trace (os s))"
    by (auto simp: inv_chat_def)
  let ?c = "\<lparr>cl_junk = jk, cl_request = request s ! i, cl_input = inp, cl_ip = ip, cl_port = pt\<rparr>"
  have q: "req_size (request s ! i)"
    using inv(2,4) i by (auto simp: inv_requests_def srv_inv_def inv_mutex_def)
  have "sends ?c r" using r jk q by (simp add: sends_def asks_def req_size_def)
  then have "list_all2 sends (answered s @ [?c]) (rs @ [r])"
    using rs(1) by (simp add: list_all2_appendI)
  moreover have len: "length (answered s) = length rs" using rs(1) by (rule list_all2_lengthD)
  have "chat_of w = chat_run (reach w0) (zip (answered s @ [?c]) (rs @ [r])) (chat_of w0)"
    using w(2) rs(2) unfolding chat_snoc [OF len] by simp
  moreover have "replied (trace w0) (map nat (served (threads s)) @ [nat sd])
      (chat_replies (reach w0) (zip (answered s @ [?c]) (rs @ [r])) (chat_of w0)) (trace (os s) @ tr)"
    unfolding chat_snoc [OF len] using w(4) rs(2) by (intro replied_next [OF rs(3)]) simp
  ultimately have "inv_chat w0 (served_by i sd jk q w s)"
    using w(1,3) rw by (auto simp: inv_chat_def served_by_def x)
  moreover have "inv_requests (served_by i sd jk q w s)"
    using inv(2) serve_connection_size [OF run q]
    by (auto simp: inv_requests_def served_by_def x dest: set_update_subset_insert [THEN subsetD])
  ultimately show ?thesis using serve_conns [OF inv(1,4) i x run] by simp
qed


subsection \<open>Every step keeps the invariant\<close>

lemma work_serving:
  assumes "work t t'" "served t' = served t" "at t i (W_Serve sd)"
  shows "at t' i (W_Serve sd)"
  using assms(1)
proof (cases rule: work.cases)
  case (w_done j sd')
  with assms(2) show ?thesis by simp
qed (use assms(3) in \<open>auto simp: nth_list_update\<close>)

lemma outside_serving: "outside t t' \<Longrightarrow> at t i (W_Serve sd) \<Longrightarrow> at t' i (W_Serve sd)"
  by (cases rule: outside.cases) (auto simp: nth_list_update)

lemma running_step:
  assumes "sys_step s s'" "inv_running s"
  shows "inv_running s'"
  using assms(1)
proof (cases rule: sys_step.cases)
  case own
  then show ?thesis
  proof (cases rule: own_step.cases)
    case (inside t)
    with assms(2) work_serving show ?thesis by (fastforce simp: inv_running_def)
  next
    case (begin_service i sd)
    with assms(2) show ?thesis by (auto simp: inv_running_def begins_def)
  next
    case (end_service i sd jk q w)
    with assms(2) show ?thesis
      by (auto simp: inv_running_def served_by_def nth_list_update split: prod.splits)
  qed
next
  case (spurious t)
  with assms(2) outside_serving show ?thesis by (fastforce simp: inv_running_def)
qed (use assms(2) in \<open>auto simp: inv_running_def accepts_def shutdown_server_def\<close>)

lemma sys_inv_step:
  assumes "sys_inv w0 qs s" "sys_step s s'"
  shows "sys_inv w0 qs s'"
proof -
  have t: "srv_inv (threads s)" using assms(1) by (simp add: sys_inv_def)
  have t': "srv_inv (threads s')" by (rule sys_step_srv_inv [OF t assms(2)])
  have "inv_conns s' \<and> inv_requests s' \<and> inv_chat w0 s'"
    if r: "sys_ready w0 qs" and p: "polite s'" and o: "\<not> overlap s'"
  proof -
    have inv: "inv_conns s" "inv_requests s" "inv_chat w0 s" and os: "\<not> overlap s"
      using assms(1) r step_back [OF assms(2)] p o by (simp_all add: sys_inv_def)
    show ?thesis
      using assms(2)
    proof (cases rule: sys_step.cases)
      case own
      then show ?thesis
      proof (cases rule: own_step.cases)
        case (inside t)
        with inv conns_keep [OF inv(1)] work_accepted show ?thesis
          by (auto simp: inv_requests_def inv_chat_def)
      next
        case (begin_service i sd)
        with inv show ?thesis
          by (auto simp: inv_conns_def inv_requests_def inv_chat_def begins_def)
      next
        case (end_service i sd jk q w)
        with serve_inv [OF inv t, of i sd jk q w] p os show ?thesis by auto
      qed
    next
      case (accept inp ip pt sd w)
      with accept_inv [OF inv t] show ?thesis by blast
    next
      case (accept_fails inp ip pt sd w)
      have "quiet (os s)" using inv(3) by (simp add: inv_chat_def db_inv_quiet)
      with accept_fails show ?thesis by (simp add: run_accept)
    next
      case (spurious t)
      with inv conns_keep [OF inv(1)] outside_served show ?thesis
        by (auto simp: inv_requests_def inv_chat_def)
    next
      case interrupt
      with inv show ?thesis
        by (auto simp: inv_conns_def inv_requests_def inv_chat_def shutdown_server_def)
    qed (use o in \<open>simp_all add: accepts_def\<close>)
  qed
  with t' running_step [OF assms(2)] assms(1) show ?thesis by (simp add: sys_inv_def)
qed

interpretation sy: invariant_of "sys_init w0 qs" sys_step "sys_inv w0 qs" for w0 qs
  by unfold_locales (auto intro: sys_inv_init sys_inv_step)

lemma reachable_chat:
  assumes "sys_step\<^sup>*\<^sup>* (sys_init w0 qs) s" "sys_ready w0 qs" "polite s" "\<not> overlap s"
  shows "inv_chat w0 s" "inv_conns s"
  using sy.inv_reachable [OF assms(1)] assms(2-4) by (simp_all add: sys_inv_def)

subsection \<open>Everybody is answered\<close>

text \<open>The steps the program can take on its own with its services one after the other, as long as
  the variables of its threads hold nothing the chat specification does not suppose.\<close>

definition fair_step :: "sys \<Rightarrow> sys \<Rightarrow> bool" where
  "fair_step s s' \<longleftrightarrow> own_step s s' \<and> (polite s \<longrightarrow> polite s') \<and> (overlap s' \<longrightarrow> overlap s)"

text \<open>The measure: that of the threads, and the services that have not begun.\<close>

definition to_begin :: "sys \<Rightarrow> nat set" where
  "to_begin s = {i. (\<exists>sd. at (threads s) i (W_Serve sd)) \<and> i \<notin> running s}"

definition sys_left :: "sys \<Rightarrow> nat" where
  "sys_left s = Suc THREAD_POOL_SIZE * work_left (threads s) + card (to_begin s)"

lemma to_begin_le:
  assumes "srv_inv (threads s)"
  shows "finite (to_begin s)" "card (to_begin s) \<le> THREAD_POOL_SIZE"
proof -
  have sub: "to_begin s \<subseteq> {..<THREAD_POOL_SIZE}"
    using assms by (auto simp: to_begin_def srv_inv_def inv_mutex_def)
  then show "finite (to_begin s)" by (rule finite_subset) simp
  from card_mono [OF _ sub] show "card (to_begin s) \<le> THREAD_POOL_SIZE" by simp
qed

lemma sys_left_less:
  assumes "srv_inv (threads s)" "own_step s s'"
  shows "sys_left s' < sys_left s"
proof (cases "threads s' = threads s")
  case True
  have same: "work (threads s) (threads s) \<Longrightarrow> False"
    using tw.work_left [OF assms(1)] by fastforce
  from assms(2) show ?thesis
  proof (cases rule: own_step.cases)
    case (begin_service i sd)
    then have "to_begin s' = to_begin s - {i}" "i \<in> to_begin s"
      by (auto simp: to_begin_def begins_def)
    then have "card (to_begin s') < card (to_begin s)"
      using to_begin_le(1) [OF assms(1)] card_Diff1_less by metis
    with True show ?thesis by (simp add: sys_left_def)
  next
    case (end_service i sd jk q w)
    with True show ?thesis
      by (auto simp: served_by_def srv.defs split: prod.splits dest: arg_cong [where f = served])
  qed (use True same in auto)
next
  case False
  then have w: "work (threads s) (threads s')" using own_step_work(1) [OF assms(2)] by blast
  have "srv_inv (threads s')"
    using sys_step_srv_inv [OF assms(1) sys_step.own [OF assms(2)]] .
  with to_begin_le(2) [OF this] tw.work_left [OF assms(1) w] show ?thesis
    by (simp add: sys_left_def THREAD_POOL_SIZE_def)
qed

interpretation sw: working "sys_init w0 qs" sys_step "sys_inv w0 qs" fair_step sys_left for w0 qs
proof unfold_locales
  fix s s'
  assume f: "fair_step s s'"
  then show "sys_step s s'" by (simp add: fair_step_def sys_step.own)
  assume "sys_inv w0 qs s"
  with f show "sys_left s' < sys_left s"
    using sys_left_less by (auto simp: fair_step_def sys_inv_def)
qed

lemma good_junk: "\<exists>jk. junk_ok jk \<and> junk_zero jk"
  by (rule exI [of _ "\<lparr>jk_reply = 0, jk_send_msg_reply = SRV_SUCCESS, jk_entry = replicate sizeof_entry NUL,
     jk_msg_entry = replicate sizeof_entry NUL, jk_recipient_entry = replicate sizeof_entry NUL,
     jk_sender_entry = replicate sizeof_entry NUL, jk_pend_msg_entry = replicate sizeof_entry NUL,
     jk_send_msg_request = replicate sizeof_request NUL,
     jk_send_msg_ack_request = replicate sizeof_request NUL\<rparr>"])
    (simp add: junk_ok_def junk_zero_def srv_defs)

lemma fair_steps:
  assumes "fair_step\<^sup>*\<^sup>* s s'"
  shows "own_step\<^sup>*\<^sup>* s s'" "arrived s' = arrived s" "polite s \<Longrightarrow> polite s'" "up s \<Longrightarrow> up s'"
    "\<not> overlap s \<Longrightarrow> \<not> overlap s'"
proof -
  have "own_step\<^sup>*\<^sup>* s s' \<and> arrived s' = arrived s \<and> (polite s \<longrightarrow> polite s') \<and> (up s \<longrightarrow> up s') \<and>
      (\<not> overlap s \<longrightarrow> \<not> overlap s')"
    using assms
    by (induction rule: rtranclp_induct)
      (auto simp: fair_step_def own_step_work intro: rtranclp.rtrancl_into_rtrancl)
  then show "own_step\<^sup>*\<^sup>* s s'" "arrived s' = arrived s" "polite s \<Longrightarrow> polite s'" "up s \<Longrightarrow> up s'"
    "\<not> overlap s \<Longrightarrow> \<not> overlap s'"
    by simp_all
qed

text \<open>A service that has begun can end.\<close>

lemma end_fair:
  assumes "sys_inv w0 qs s" "sys_ready w0 qs" "polite s" "up s" "\<not> overlap s" "i \<in> running s"
  shows "\<exists>u. fair_step s u"
proof -
  have inv: "inv_conns s" "inv_requests s" "inv_chat w0 s" "srv_inv (threads s)" "inv_running s"
    using assms(1-3,5) by (simp_all add: sys_inv_def)
  then obtain sd where i: "at (threads s) i (W_Serve sd)" using assms(6) by (auto simp: inv_running_def)
  obtain inp ip pt where x: "peer s sd = (inp, ip, pt)" by (metis prod.exhaust)
  have "peer s sd \<in> set (arrived s)"
    using inv(1) serving_unserved [OF inv(4) i] by (simp add: inv_conns_def)
  with assms(3) x obtain r where r: "asks (inp, ip, pt) r" by (auto simp: polite_def)
  obtain jk where jk: "junk_ok jk" "junk_zero jk" using good_junk by blast
  from serve_returns [OF inv(1-4) i x r jk] obtain q v where
    "serve_connection jk sd (request s ! i) (os s) = Some (q, v)" by blast
  with end_service [OF assms(4) i assms(6)] have "own_step s (served_by i sd jk q v s)" by blast
  moreover have "polite (served_by i sd jk q v s)"
    using assms(3) jk by (auto simp: polite_def served_by_def x)
  ultimately have "fair_step s (served_by i sd jk q v s)"
    using assms(5) by (simp add: fair_step_def served_by_def x)
  then show ?thesis by blast
qed

text \<open>Where no fair step is left, no service runs and the threads are at rest.\<close>

lemma fair_rest:
  assumes "sys_inv w0 qs s" "sys_ready w0 qs" "polite s" "up s" "\<not> overlap s"
    and rest: "\<And>u. \<not> fair_step s u"
  shows "\<not> work (threads s) t" "running s = {}"
proof -
  show idle: "running s = {}" using end_fair [OF assms(1-5)] rest by blast
  show "\<not> work (threads s) t"
  proof
    assume w: "work (threads s) t"
    show False
    proof (cases "served t = served (threads s)")
      case True
      with w assms(4) have "own_step s (s\<lparr>threads := t\<rparr>)" by (intro own_step.inside)
      moreover have "polite (s\<lparr>threads := t\<rparr>)" using assms(3) by (simp add: polite_def)
      ultimately show False using rest [of "s\<lparr>threads := t\<rparr>"] assms(5) by (simp add: fair_step_def)
    next
      case False
      with w obtain i sd where i: "at (threads s) i (W_Serve sd)"
        by (cases rule: work.cases) auto
      with begin_service [OF assms(4) i] idle have "own_step s (begins i s)" by simp
      moreover have "polite (begins i s)" using assms(3) by (simp add: polite_def begins_def)
      ultimately show False using rest [of "begins i s"] idle assms(5)
        by (simp add: fair_step_def begins_def)
    qed
  qed
qed

lemma rest_answered:
  assumes "sys_step\<^sup>*\<^sup>* (sys_init w0 qs) s" "sys_ready w0 qs" "polite s" "up s" "\<not> overlap s"
    and "(fair_step ^^ n) s s'" "\<And>u. \<not> fair_step s' u"
  shows "n \<le> 821" "own_step\<^sup>*\<^sup>* s s'" "arrived s' = arrived s" "mset (map contact (answered s')) = mset (arrived s)"
    "inv_chat w0 s'" "main_pc (threads s') = M_Accept" "\<not> busy s'" "up s'" "polite s'"
proof -
  have i: "sys_inv w0 qs s" by (rule sy.inv_reachable [OF assms(1)])
  then have "sys_left s \<le> 821"
    using work_left_le [of "threads s"] to_begin_le(2) [of s]
    by (auto simp: sys_inv_def sys_left_def THREAD_POOL_SIZE_def)
  with sw.work_bound [OF assms(6) i] show "n \<le> 821" by simp
  have i': "sys_inv w0 qs s'" using sw.work_bound [OF assms(6) i] by simp
  have "fair_step\<^sup>*\<^sup>* s s'" using assms(6) by (rule relpowp_imp_rtranclp)
  note f = fair_steps [OF this]
  then show "own_step\<^sup>*\<^sup>* s s'" "arrived s' = arrived s" by simp_all
  show p: "polite s'" "up s'" using f(3,4) assms(3,4) by simp_all
  have o: "\<not> overlap s'" using f(5) assms(5) by simp
  note rest = fair_rest [OF i' assms(2) p o assms(7)]
  have inv: "inv_conns s'" "inv_chat w0 s'" "srv_inv (threads s')"
    using i' assms(2) p(1) o by (simp_all add: sys_inv_def)
  have "unserved (threads s') = {#}"
    using rest_all_served(2) [OF rest(1) inv(3)] by (simp add: unserved_def)
  with inv(1) f(2) show "mset (map contact (answered s')) = mset (arrived s)"
    by (simp add: inv_conns_def)
  show "inv_chat w0 s'" "main_pc (threads s') = M_Accept" "\<not> busy s'"
    using inv(2) at_rest(1) [OF rest(1) inv(3)] rest(2) o by (simp_all add: busy_def)
qed

text \<open>Such a rest is always reached.\<close>

lemma rest_exists:
  assumes "sys_step\<^sup>*\<^sup>* (sys_init w0 qs) s"
  shows "\<exists>n s'. (fair_step ^^ n) s s' \<and> (\<forall>u. \<not> fair_step s' u)"
  using sw.comes_to_rest [OF sy.inv_reachable [OF assms]] by (metis rtranclp_imp_relpowp)

end
