(* ===== verification/WholeSamples.thy ===== *)
theory WholeSamples
  imports WholeServer Samples
begin

text \<open>Concrete runs of the whole server, on which its properties are tried.\<close>

definition sample_requests :: "mem list" where
  "sample_requests = replicate THREAD_POOL_SIZE sample_request"

lemma sample_sys_ready: "sys_ready (sample_db []) sample_requests"
  by (simp add: sys_ready_def sample_requests_def req_size_def)

text \<open>The server just after it accepted Alice, who sends a message to Bob.\<close>

definition sample_contact :: "client_req \<Rightarrow> char list \<times> u32 \<times> u16" where
  "sample_contact r = (concat (map (\<lambda>l. l @ [NUL]) (lines_of r)), 16777343, 40000)"

lemma sample_asks: "req_ok r \<Longrightarrow> \<exists>r2. asks (sample_contact r) r2"
  by (auto simp: asks_def sample_contact_def)

text \<open>A server at rest accepts, and answers.\<close>

definition after_accept :: "client_req \<Rightarrow> sys \<Rightarrow> sys" where
  "after_accept r s = accepts (int (fresh_fd (fds (os s)))) (sample_contact r)
     ((os s)\<lparr>fds := fd_add (DSock (fst (sample_contact r)) 16777343 40000) (fds (os s))\<rparr>) s"

lemma after_accept_step:
  assumes "up s" "main_pc (threads s) = M_Accept" "\<not> busy s" "quiet (os s)"
  shows "sys_step s (after_accept r s)"
proof -
  note acc = run_accept [OF assms(4), of "fst (sample_contact r)" 16777343 40000]
  have "sys_step s (accepts (int (fresh_fd (fds (os s)))) (fst (sample_contact r), 16777343, 40000)
     ((os s)\<lparr>fds := fd_add (DSock (fst (sample_contact r)) 16777343 40000) (fds (os s))\<rparr>) s)"
    by (rule sys_step.accept [OF assms(1-3) acc]) simp
  then show ?thesis by (simp add: after_accept_def sample_contact_def)
qed

definition sample_accepted :: sys where
  "sample_accepted = after_accept (Send alice bob ''hello'') (sys_init (sample_db []) sample_requests)"

lemma sample_accepted_reachable: "sys_step\<^sup>*\<^sup>* (sys_init (sample_db []) sample_requests) sample_accepted"
  unfolding sample_accepted_def
  by (rule r_into_rtranclp, rule after_accept_step) (simp_all add: sys_init_def srv_init_def busy_def db_inv_quiet)

lemma sample_accepted_polite: "polite sample_accepted" "up sample_accepted" "\<not> overlap sample_accepted"
  using sample_asks [of "Send alice bob ''hello''"]
  by (simp_all add: sample_accepted_def after_accept_def polite_def accepts_def sys_init_def)

text \<open>After Alice was answered, Bob connects and is answered.\<close>

lemma after_accept_simps [simp]:
  "up (after_accept r s) = up s" "overlap (after_accept r s) = overlap s" "arrived (after_accept r s) = arrived s @ [sample_contact r]"
  "answered (after_accept r s) = answered s"
  by (simp_all add: after_accept_def accepts_def)

lemma own_steps_sys: "own_step\<^sup>*\<^sup>* s s' \<Longrightarrow> sys_step\<^sup>*\<^sup>* s s'"
  by (induction rule: rtranclp_induct) (auto intro: sys_step.own rtranclp.rtrancl_into_rtrancl)

lemma answered_length: "mset (map contact (answered s)) = mset xs \<Longrightarrow> length (answered s) = length xs"
  by (metis length_map size_mset)

lemma sample_two_answered:
  "\<exists>s. sys_step\<^sup>*\<^sup>* (sys_init (sample_db []) sample_requests) s \<and> polite s \<and> \<not> overlap s \<and>
    length (answered s) = 2"
proof -
  let ?start = "sys_init (sample_db []) sample_requests"
  obtain n s where n: "(fair_step ^^ n) sample_accepted s" "\<And>u. \<not> fair_step s u"
    using rest_exists [OF sample_accepted_reachable] by blast
  note s = rest_answered [OF sample_accepted_reachable sample_sys_ready sample_accepted_polite n]
  let ?s = "after_accept (Connect bob 5000) s"
  have r: "sys_step\<^sup>*\<^sup>* ?start s"
    using sample_accepted_reachable own_steps_sys [OF s(2)] by (rule rtranclp_trans)
  have "quiet (os s)" using s(5) by (simp add: inv_chat_def db_inv_quiet)
  with r s(6-8) have r2: "sys_step\<^sup>*\<^sup>* ?start ?s"
    using after_accept_step rtranclp.rtrancl_into_rtrancl by metis
  have p: "polite ?s" "up ?s" "\<not> overlap ?s"
    using s(7-9) sample_asks [of "Connect bob 5000"] by (auto simp: polite_def busy_def)
  obtain n2 s2 where n2: "(fair_step ^^ n2) ?s s2" "\<And>u. \<not> fair_step s2 u"
    using rest_exists [OF r2] by blast
  note s2 = rest_answered [OF r2 sample_sys_ready p n2]
  have "arrived sample_accepted = [sample_contact (Send alice bob ''hello'')]"
    by (simp add: sample_accepted_def sys_init_def)
  then have "length (answered s2) = 2"
    using answered_length [OF s2(4)] s(3) by simp
  with s2(7,9) rtranclp_trans [OF r2 own_steps_sys [OF s2(2)]] show ?thesis
    by (auto simp: busy_def)
qed

text \<open>A client that has been accepted while another waits at descriptor 4.\<close>

lemma sample_two_clients:
  "\<exists>n w1 q2 w2. n \<noteq> 4 \<and> map_of (fds w1) 4 = Some (DSock (SEND @ [NUL]) 16777343 40000) \<and>
    serve_connection sample_junk (int n) sample_request w1 = Some (q2, w2)"
proof -
  let ?r = "Send alice bob ''hello''" and ?w = "sample_db [SEND]"
  let ?n = "fresh_fd (fds ?w)" and ?inp = "concat (map (\<lambda>l. l @ [NUL]) (lines_of ?r))"
  let ?w1 = "?w\<lparr>fds := fd_add (DSock ?inp 16777343 40000) (fds ?w)\<rparr>"
  have four: "map_of (fds ?w) 4 = Some (DSock (SEND @ [NUL]) 16777343 40000)"
    using sample_client(2) [of "[SEND]"] wire_ops by (simp add: client_at_def)
  have "client_at ?w1 ?n (lines_of ?r) [] 16777343 40000"
    using lines_wire [of ?r] by (simp add: client_at_def map_of_fd_add)
  from serve_connection_step [OF _ _ this] obtain q2 w2 where
    "serve_connection sample_junk (int ?n) sample_request ?w1 = Some (q2, w2)" by force
  moreover have "map_of (fds ?w1) 4 = Some (DSock (SEND @ [NUL]) 16777343 40000)"
    using four fresh_neq [OF four] by (simp add: map_of_fd_add)
  ultimately show ?thesis using fresh_neq [OF four] by blast
qed

end
