(* ===== verification/Defects.thy ===== *)
theory Defects
  imports Samples MsgIds
begin

text \<open>
  What the code does where it does not do what it means to, as theorems about the same
  definitions: a closed connection that repeats a request, variables that are used before they
  are set, calls whose failure is not seen.
\<close>

subsection \<open>A connection that ends early\<close>

lemma run_recv_eof:
  assumes "db_inv w" "map_of (fds w) n = Some (DSock [] ip pt)"
  shows "run_state (recv_string (int n) off q) w = ((0, q), received n [] ip pt w)"
  using run_recv_string_eof [OF db_inv_quiet [OF assms(1)] assms(2)] by (simp add: received_def)

lemma received_sock: "map_of (fds w) n = Some d \<Longrightarrow> map_of (fds (received n inp ip pt w)) n = Some (DSock inp ip pt)"
  by (simp add: received_def map_of_fd_set)

lemma sock_at_received: "map_of (fds w) n = Some (DSock inp ip pt) \<Longrightarrow> sock_at (received n inp ip pt w) n"
  by (auto simp: sock_at_def received_def map_of_fd_set)

text \<open>The memory of the request still holds an UNREGISTER of the user \<open>u\<close>.\<close>

lemma eof_unregisters:
  assumes "db_inv w" "user_ok u" "ud_of w u = Some m" "map_of (fds w) n = Some (DSock [] ip pt)"
    and "cstr rq_op_code q = UNREGISTER" "cstr rq_username q = u"
  shows "\<exists>w2. serve_connection jk (int n) q w = Some (q, w2) \<and> db_inv w2 \<and> ud_of w2 = (ud_of w)(u := None)"
proof -
  let ?w1 = "received n [] ip pt w"
  let ?v = "?w1\<lparr>trace := trace w @ [EvOverflow], err_no := None\<rparr>"
  have w1: "db_inv ?w1" "ud_of ?w1 u = Some m" "map_of (fds ?w1) n = Some (DSock [] ip pt)"
    using assms by (simp_all add: received_sock)
  have v: "db_inv ?v" "ud_of ?v u = Some m" using w1 by simp_all
  obtain e where del: "run_state (db_del_usr_tbl u) ?v = (0, (deleted u ?v)\<lparr>err_no := e\<rparr>)"
    using run_delete_user [OF v(1) assms(2) v(2)] by blast
  have inv: "db_inv (deleted u ?v)" by (rule deleted_inv [OF v(1) assms(2) v(2)])
  have sock: "sock_at ?w1 n" by (rule sock_at_received [OF assms(4)])
  have "UNREGISTER \<noteq> REGISTER" by (simp add: op_defs)
  with run_recv_eof [OF assms(1,4)] run_recv_eof [OF w1(1,3)] run_exists(2) [OF w1(1) assms(2) w1(2)]
    del inv sock assms(5,6)
  show ?thesis
    by (simp add: serve_connection_def srv_unregister_def run_printf run_reply)
qed

subsection \<open>Variables that are not set\<close>

text \<open>REGISTER writes what the memory held as the new user's status; then a message to the user
  is acknowledged, and neither delivered nor stored.\<close>

lemma lost_message:
  assumes "db_inv w" "user_ok s" "user_ok u" "client_at w n [s, u, c] rest ip pt"
    and "length q = sizeof_request" "junk_ok jk" "ud_of w s = Some ms" "ud_of w u = Some m"
    and "get_u8 ud_status m \<noteq> STATUS_DCN" "get_u8 ud_status m \<noteq> STATUS_CN" "jk_send_msg_reply jk = SRV_SUCCESS"
  shows "\<exists>w2. run_state (srv_send jk (int n) q) w = (send_request s u c q, w2) \<and> db_inv w2 \<and>
    pend_of w2 = pend_of w \<and>
    trace w2 = trace w @ [EvOverflow, EvOverflow, reply_ev n SRV_SUCCESS, id_ev n (next_msg_id (get_u32 ud_last_msg_id m))]"
proof -
  note b = bump_simps(1) [OF ud_ofD(2) [OF assms(1,3,8)] assms(3)]
  have "db_inv (put_ud u (bump m) (send_start n rest ip pt w))"
    using assms(1,8) b by (intro put_ud_inv [OF _ assms(3)]) simp_all
  then show ?thesis
    using run_send_connected(2) [OF assms(1-9,11,10)] by simp
qed

text \<open>The variable \<^verbatim>\<open>send_msg_reply\<close> of SEND is never set. If it does not happen to be zero, a
  message that was delivered is stored as well.\<close>

lemma ack_world_trace: "\<exists>tr. trace (ack_world u i w) = trace w @ tr"
  by (simp add: ack_world_def split: option.split)

lemma stored_again:
  assumes "db_inv w" "user_ok s" "user_ok u" "client_at w n [s, u, c] rest ip pt"
    and "length q = sizeof_request" "junk_ok jk" "ud_of w s = Some ms" "ud_of w u = Some m"
    and "get_u8 ud_status m = STATUS_CN" "reachable w m" "jk_send_msg_reply jk \<noteq> SRV_SUCCESS"
  defines "i \<equiv> next_msg_id (get_u32 ud_last_msg_id m)"
  assumes "pend_of w u i = None"
  shows "\<exists>w2 tr tr'. run_state (srv_send jk (int n) q) w = (send_request s u c q, w2) \<and>
    (\<exists>fd. trace w2 = trace w @ tr @ message_events fd m s i (take 255 c) @ tr') \<and>
    pend_of w2 u i = Some (new_msg (jk_msg_entry jk) s u (take 255 c) i)"
proof -
  note k = run_send_known [OF assms(1-8), folded i_def]
  let ?v = "put_ud u (bump m) (send_start n rest ip pt w)"
  let ?msg = "new_msg (jk_msg_entry jk) s u (take 255 c) i"
  let ?ev = "trace w @ [EvOverflow, EvOverflow] @
      message_events (fresh_fd (fds ?v)) m s i (take 255 c) @ [EvPrint (delivered_line i s u)]"
  let ?v2 = "?v\<lparr>err_no := None, trace := ?ev\<rparr>"
  let ?q = "send_request s u c q"
  note b = bump_simps [OF k(7) assms(3)]
  have v2: "db_inv ?v2" "ud_of ?v2 u = Some (bump m)" "pend_of ?v2 u i = None" "sock_at ?v2 n"
    using k(1,2,3,4) assms(13) by simp_all
  note io = run_create_msg [OF v2(1) assms(3) v2(2) msg_ok_key [OF k(6)]]
  have inv: "db_inv (add_msg u i ?msg ?v2)" by (rule add_msg_inv [OF v2(1) assms(3) v2(2) k(6) v2(3)])
  let ?w3 = "(add_msg u i ?msg ?v2)\<lparr>trace := ?ev @ [EvPrint (stored_line i s u), reply_ev n SRV_SUCCESS, id_ev n i]\<rparr>"
  let ?aq = "set_u32 rq_msg_id i (strcpy rq_op_code SEND_MESS_ACK (jk_send_msg_ack_request jk))"
  let ?ae = "strcpy en_username s (set_type ENT_TYPE_UD (jk_sender_entry jk))"
  have ack_ok: "ud_ok s ?ae" "cstr rq_op_code ?aq = SEND_MESS_ACK"
    using assms(6) user_okD [OF assms(2)]
    by (simp_all add: junk_ok_def ud_ok_def en_defs rq_defs mem_simps SEND_MESS_ACK_def)
  obtain r e2 where ack: "run_state (clt_send_mess_ack ?aq ?ae) ?w3 =
      ((r, e2), ack_world s (get_u32 rq_msg_id ?aq) ?w3)"
    using run_clt_send_mess_ack [OF _ assms(2) ack_ok, of ?w3] inv by auto
  have st: "get_u8 ud_status (bump m) = STATUS_CN" "get_u32 ud_last_msg_id (bump m) = i"
    using b assms(9) by (simp_all add: i_def)
  have fin: "run_state (send_finish jk (int n) ?q SRV_SUCCESS (bump m) ?msg) ?v2 =
      (?q, ack_world s (get_u32 rq_msg_id ?aq) ?w3)"
    using io v2(3,4) inv assms(11) st ack msg_okD [OF k(6)] recv_send(2,3) [OF assms(1-5)]
    by (simp add: send_finish_def Let_def run_printf run_first_ack)
  have "run_state (srv_send jk (int n) q) w = (?q, ack_world s (get_u32 rq_msg_id ?aq) ?w3)"
    using k(8) assms(9,10) fin by auto
  moreover obtain t where "trace (ack_world s (get_u32 rq_msg_id ?aq) ?w3) = trace ?w3 @ t"
    using ack_world_trace by blast
  then have "trace (ack_world s (get_u32 rq_msg_id ?aq) ?w3) = trace w @ [EvOverflow, EvOverflow] @
      message_events (fresh_fd (fds ?v)) m s i (take 255 c) @ ([EvPrint (delivered_line i s u),
        EvPrint (stored_line i s u), reply_ev n SRV_SUCCESS, id_ev n i] @ t)" by simp
  moreover have "pend_of (ack_world s (get_u32 rq_msg_id ?aq) ?w3) u i = Some ?msg" by simp
  ultimately show ?thesis by blast
qed

text \<open>CONNECT only sets its reply on some branches and tests it on all: what the memory held
  may refuse a user that has done nothing wrong.\<close>

lemma connect_refused_by_chance:
  assumes "db_inv w" "user_ok u" "client_at w n [u, port_line lp] rest ip pt"
    and "length q = sizeof_request" "junk_ok jk" "jk_reply jk = SRV_ERR_CN_ANY"
    and "ud_of w u = Some m" "get_u8 ud_status m \<noteq> STATUS_CN"
  shows "\<exists>q2 w2. run_state (srv_connect_reply jk (int n) q) w = ((True, q2), w2) \<and> ud_of w2 = ud_of w \<and>
    trace w2 = trace w @ [EvPrint (result_line CONNECT u SRV_ERR_CN_ANY), reply_ev n SRV_ERR_CN_ANY]"
  using run_connect_reply(4) [OF assms(1-5,7,8,6)] by (simp add: connect_reply_trace_def)

subsection \<open>Descriptors\<close>

text \<open>Nothing closes the socket of a client that was served.\<close>

lemma client_socket_kept:
  assumes "db_inv w" "user_ok u" "client_at w n [REGISTER, u] rest ip pt" "length q = sizeof_request" "junk_ok jk"
  shows "\<exists>q2 w2. serve_connection jk (int n) q w = Some (q2, w2) \<and> sock_at w2 n"
proof -
  let ?q = "strcpy rq_op_code REGISTER q" and ?v = "received n (u @ NUL # rest) ip pt w"
  have r: "take 255 REGISTER = REGISTER" "c_string REGISTER" "length REGISTER = 8" by (simp_all add: op_defs)
  have recv: "run_state (recv_string (int n) rq_op_code q) w = ((0, ?q), ?v)"
    using run_recv_line [OF assms(1,3), of rq_op_code q] assms(4) r by simp
  have q: "length ?q = sizeof_request" "cstr rq_op_code ?q = REGISTER"
    using assms(4) r by (simp_all add: rq_defs mem_simps)
  have c: "client_at ?v n [u] rest ip pt" using client_received [OF assms(3)] by simp
  have v: "db_inv ?v" "sock_at (received n rest ip pt ?v) n" using assms(1) client_sock [OF assms(3)] by simp_all
  obtain q2 w2 where run: "run_state (srv_register jk (int n) ?q) ?v = (q2, w2)" by fastforce
  have "sock_at w2 n"
  proof (cases "ud_of ?v u")
    case None
    with run_register(1) [OF v(1) assms(2) c q(1) assms(5) None] run v(2) show ?thesis by (auto simp del: received_twice)
  next
    case (Some m)
    with run_register(2) [OF v(1) assms(2) c q(1) assms(5) Some] run v(2) show ?thesis by (auto simp del: received_twice)
  qed
  with recv q(2) run show ?thesis by (simp add: serve_connection_def)
qed

text \<open>A call to a listening thread that refuses the connection leaves its socket open.\<close>

lemma refused_socket_kept:
  assumes "db_inv w" "user_ok u" "ud_of w u = Some m" "ud_ok u e" "\<not> reachable w m"
  shows "\<exists>w2. run_state (aux_connect_clt_listen_thread e) w = ((GEN_ERR_ANY, m), w2) \<and>
    map_of (fds w2) (fresh_fd (fds w)) = Some DNew"
  using run_aux_connect(2) [OF assms] by (simp add: fd_add_def)

subsection \<open>A write that fails\<close>

text \<open>MODIFY empties the file before it writes. If the write fails, the account is lost, and
  the file is closed twice, the second time with an error, or, if another thread has opened
  something in between, closing that.\<close>

lemma modify_loses_account:
  assumes "db_inv w" "user_ok u" "ud_of w u = Some m" "ud_ok u e"
  shows "\<exists>w2. run_state (db_io_op_usr_ent e MODIFY) (w\<lparr>orc := [Full, Fail err]\<rparr>) = ((DBMS_ERR_ANY, e), w2) \<and>
    fs w2 (ud_path w u) = Some (Reg []) \<and> err_no w2 = Some EBADF"
proof -
  let ?p = "ud_path w u" and ?n = "fresh_fd (fds w)"
  let ?w1 = "w\<lparr>orc := [Fail err], fs := (fs w)(?p \<mapsto> Reg []), fds := fd_add (DReg ?p 0) (fds w)\<rparr>"
  let ?w2 = "?w1\<lparr>orc := [], err_no := Some err\<rparr>"
  have res: "resolve (w\<lparr>orc := xs\<rparr>) (entry_path_str e) = Inr ?p" for xs
    using resolve_ud [OF assms] by (simp add: resolve_def)
  have reg: "fs w ?p = Some (Reg m)" using ud_ofD(1) [OF assms(1-3)] .
  have e: "get_type e = ENT_TYPE_UD" "length e = sizeof_entry" "e \<noteq> []"
    using assms(4) by (auto simp: ud_ok_def sizeof_entry_def)
  have opened: "run_state (sys_open (entry_path_str e) O_WRONLY_TRUNC) (w\<lparr>orc := [Full, Fail err]\<rparr>) = (int ?n, ?w1)"
    using res reg by (simp add: sys_open_def syscall_def next_outcome_def)
  have "run_state (write_bytes (int ?n) e) ?w1 = (-1, ?w2)"
    using e(3) by (simp add: write_bytes_def write_loop.simps [of _ e] sys_write_def syscall_def next_outcome_def
      run_set_errno GEN_ERR_ANY_def)
  moreover have "run_state (sys_close (int ?n)) ?w2 = (0, ?w2\<lparr>fds := fds w\<rparr>)"
    using run_close(1) [of ?w2 ?n ?p 0] by simp
  moreover have "run_state (sys_close (int ?n)) (?w2\<lparr>fds := fds w\<rparr>) = (-1, ?w2\<lparr>fds := fds w, err_no := Some EBADF\<rparr>)"
    using fresh_fd_neq(1) [of "fds w" "fresh_fd (fds w)"] by (cases "map_of (fds w) (fresh_fd (fds w))") (simp_all add: sys_close_def)
  ultimately show ?thesis
    using opened entry_path_fits [of e] e
    by (simp add: db_io_op_usr_ent_def run_sprintf mode_defs type_defs open_file_def write_entry_def)
qed

text \<open>The descriptor of the failed update is closed twice. If a connection is accepted between the
  two, it gets that descriptor, and the second call closes it.\<close>

lemma closed_twice:
  assumes "orc w = [Full, Fail e]" "resolve w path = Inr p" "fs w p = Some (Reg dat)"
    and "0 < length entry"
  defines "n \<equiv> fresh_fd (fds w)"
  shows "\<exists>w1 w2 w3 w4. run_state (open_file path MODIFY) w = (int n, w1) \<and>
    run_state (write_entry (int n) entry) w1 = ((DBMS_ERR_ANY, entry), w2) \<and>
    run_state (sys_accept inp ip pt) w2 = (int n, w3) \<and>
    map_of (fds w3) n = Some (DSock inp ip pt) \<and>
    run_state (sys_close (int n)) w3 = (0, w4) \<and> map_of (fds w4) n = None \<and>
    trace w4 = trace w @ [EvClose n]"
proof -
  have del: "fd_del n (fd_add x (fds w)) = fds w" for x
  proof -
    have "n \<notin> fst ` set (fds w)" by (simp add: n_def)
    then have "fd_del n (fds w) = fds w" by (force simp: fd_del_def filter_id_conv)
    then show ?thesis by (simp add: fd_add_def fd_del_def n_def)
  qed
  have ne: "take sizeof_entry entry \<noteq> []" using assms(4) by (simp add: sizeof_entry_def)
  let ?w1 = "w\<lparr>orc := [Fail e], fs := (fs w)(p \<mapsto> Reg []), fds := fd_add (DReg p 0) (fds w)\<rparr>"
  let ?w2 = "w\<lparr>orc := [], fs := (fs w)(p \<mapsto> Reg []), err_no := Some e\<rparr>"
  have "run_state (open_file path MODIFY) w = (int n, ?w1)"
    using assms(1-3)
    by (simp add: open_file_def mode_defs sys_open_def syscall_def next_outcome_def resolve_def n_def)
  moreover have "run_state (write_entry (int n) entry) ?w1 = ((DBMS_ERR_ANY, entry), ?w2)"
    using ne del
    by (simp add: write_entry_def write_bytes_def write_loop.simps sys_write_def syscall_def next_outcome_def
        run_set_errno sys_close_def n_def fd_add_def GEN_ERR_ANY_def del: take_eq_Nil length_take)
  moreover have "run_state (sys_accept inp ip pt) ?w2 = (int n, ?w2\<lparr>fds := fd_add (DSock inp ip pt) (fds w)\<rparr>)"
    by (simp add: sys_accept_def syscall_def next_outcome_def n_def)
  moreover have "map_of (fd_add (DSock inp ip pt) (fds w)) n = Some (DSock inp ip pt)"
    by (simp add: fd_add_def n_def)
  moreover have "map_of (fds w) n = None" by (simp add: n_def)
  ultimately show ?thesis
    using del by (auto simp: sys_close_def)
qed

text \<open>
  \<^verbatim>\<open>db_io_op_usr_ent\<close> once more, with room for the calls of another thread just before the last
  \<^verbatim>\<open>close\<close>; their result is returned too, or \<open>None\<close> if the function ends before that point.
\<close>

definition db_io_op_among :: "'a prog \<Rightarrow> mem \<Rightarrow> char \<Rightarrow> ((int \<times> mem) \<times> 'a option) prog" where
  "db_io_op_among other entry mode =
     CHECK_ARGS (get_type entry \<noteq> ENT_TYPE_UD \<and> get_type entry \<noteq> ENT_TYPE_P_MSG)
       ((GEN_ERR_INV_ARGS, entry), None) (
     CHECK_ARGS (mode \<noteq> CREATE \<and> mode \<noteq> MODIFY \<and> mode \<noteq> READ \<and> mode \<noteq> DELETE)
       ((GEN_ERR_INV_ARGS, entry), None) (do {
        entry_path \<leftarrow> sys_sprintf (entry_len entry) (entry_path_str entry);
        if mode = DELETE then do {
          result \<leftarrow> State (remove_recursive entry_path);
          return ((if result < 0 then result else DBMS_SUCCESS, entry), None) }
        else do {
          entry_fd \<leftarrow> open_file entry_path mode;
          if entry_fd = -1 then do {
            w \<leftarrow> State_Monad.get;
            if err_no w = Some ENOENT then return ((DBMS_ERR_NOT_EXISTS, entry), None)
            else return ((DBMS_ERR_ANY, entry), None) }
          else do {
            (result, entry) \<leftarrow> (if mode = READ then read_entry else write_entry) entry_fd entry;
            x \<leftarrow> other;
            _ \<leftarrow> sys_close entry_fd;
            return ((result, entry), Some x) } } }))"

text \<open>Without such calls it is \<^verbatim>\<open>db_io_op_usr_ent\<close>.\<close>

lemma db_io_op_among_alone:
  "do { (r, _) \<leftarrow> db_io_op_among (return ()) e c; return r } = db_io_op_usr_ent e c"
  by (rule state.expand)
    (auto simp: fun_eq_iff db_io_op_among_def db_io_op_usr_ent_def CHECK_ARGS_def split: prod.splits)

text \<open>What the main thread does at \<^verbatim>\<open>accept\<close>, and the descriptor it then has.\<close>

definition accept_stranger :: "char list \<Rightarrow> u32 \<Rightarrow> u16 \<Rightarrow> (int \<times> desc option) prog" where
  "accept_stranger inp ip pt = do {
     client_socket \<leftarrow> sys_accept inp ip pt;
     w \<leftarrow> State_Monad.get;
     return (client_socket, map_of (fds w) (nat client_socket)) }"

lemma stranger_closed:
  assumes "db_inv w" "user_ok u" "ud_of w u = Some m" "ud_ok u e"
  shows "\<exists>w2. run_state (db_io_op_among (accept_stranger inp ip pt) e MODIFY) (w\<lparr>orc := [Full, Fail err]\<rparr>) =
      (((DBMS_ERR_ANY, e), Some (int (fresh_fd (fds w)), Some (DSock inp ip pt))), w2) \<and>
    map_of (fds w2) (fresh_fd (fds w)) = None \<and> trace w2 = trace w @ [EvClose (fresh_fd (fds w))]"
proof -
  let ?w = "w\<lparr>orc := [Full, Fail err]\<rparr>"
  have "resolve ?w (entry_path_str e) = Inr (ud_path w u)"
    using resolve_ud [OF assms] by (simp add: resolve_def)
  moreover have "fs ?w (ud_path w u) = Some (Reg m)" using ud_ofD(1) [OF assms(1-3)] by simp
  moreover have e: "get_type e = ENT_TYPE_UD" "0 < length e"
    using assms(4) by (simp_all add: ud_ok_def sizeof_entry_def)
  ultimately obtain w1 w2 w3 w4 where
    "run_state (open_file (entry_path_str e) MODIFY) ?w = (int (fresh_fd (fds w)), w1)"
    "run_state (write_entry (int (fresh_fd (fds w))) e) w1 = ((DBMS_ERR_ANY, e), w2)"
    "run_state (sys_accept inp ip pt) w2 = (int (fresh_fd (fds w)), w3)"
    "map_of (fds w3) (fresh_fd (fds w)) = Some (DSock inp ip pt)"
    "run_state (sys_close (int (fresh_fd (fds w)))) w3 = (0, w4)"
    "map_of (fds w4) (fresh_fd (fds w)) = None" "trace w4 = trace w @ [EvClose (fresh_fd (fds w))]"
    using closed_twice [of ?w err "entry_path_str e" "ud_path w u" m e inp ip pt] by auto
  with e(1) entry_path_fits [of e] show ?thesis
    by (simp add: db_io_op_among_def accept_stranger_def run_sprintf mode_defs type_defs)
qed

subsection \<open>User names and results that are not checked\<close>

text \<open>A user name with \<^verbatim>\<open>..\<close> in it leads out of the database.\<close>

lemma cwd_is_dir:
  assumes "db_inv w"
  shows "\<exists>ns. fs w (cwd w) = Some (Dir ns)" "\<exists>ns. fs w (cwd w @ [DB_DIR]) = Some (Dir ns)"
  using assms wf_fs_ancestor [of "fs w" "cwd w" "[DB_DIR]"]
  by (auto simp: db_inv_def db_ready_def elim: is_dir_atE)

lemma user_path_head: "user_table_str u \<noteq> []" "hd (user_table_str u) \<noteq> SLASH"
  by (simp_all add: user_table_str_def DB_DIR_def)

lemma resolve_user:
  assumes "db_inv w" "length u \<le> 1000"
  shows "resolve w (user_table_str u) = namei (fs w) (cwd w @ [DB_DIR]) (split_slash (u @ ''-table''))"
proof -
  obtain ns where "fs w (cwd w) = Some (Dir ns)" using cwd_is_dir(1) [OF assms(1)] by blast
  then have "namei (fs w) (cwd w) (DB_DIR # split_slash (u @ ''-table'')) =
      namei (fs w) (cwd w @ [DB_DIR]) (split_slash (u @ ''-table''))" by simp
  moreover have "split_slash (user_table_str u) = DB_DIR # split_slash (u @ ''-table'')"
    unfolding user_table_str_def by (rule split_slash_append) simp
  ultimately show ?thesis
    using assms(2) user_path_head [of u] length_user_table [of u]
    by (simp add: resolve_def resolve_in_def PATH_MAX_def)
qed

lemma user_name_escapes:
  assumes "db_inv w" "valid_name (b @ ''-table'')"
  shows "resolve w (user_table_str (''../'' @ b)) = Inr (cwd w @ [b @ ''-table''])"
proof -
  have "split_slash (''..'' @ SLASH # (b @ ''-table'')) = ''..'' # split_slash (b @ ''-table'')"
    by (rule split_slash_append) simp
  moreover have "split_slash (b @ ''-table'') = [b @ ''-table'']"
    using assms(2) by (intro split_slash_single) (simp add: valid_name_def)
  ultimately have split: "split_slash (''../'' @ b @ ''-table'') = [''..'', b @ ''-table'']" by simp
  obtain ns ns' where d: "fs w (cwd w) = Some (Dir ns)" "fs w (cwd w @ [DB_DIR]) = Some (Dir ns')"
    using cwd_is_dir [OF assms(1)] by blast
  have "length (''../'' @ b) \<le> 1000" using assms(2) by (simp add: valid_name_def NAME_MAX_def)
  from resolve_user [OF assms(1) this] split d assms(2) show ?thesis
    by (simp add: namei.simps(2) [of _ _ "''..''"] namei.simps(1))
qed

text \<open>REGISTER reports every failure of the database but one as a success: a user name with a
  slash in it needs a directory that is not there, no account is made, and the reply is success.\<close>

lemma register_hides_failure:
  assumes "db_inv w" "wire_string (a @ SLASH # b)" "length (a @ SLASH # b) \<le> 255" "valid_name a"
    and "fs w (cwd w @ [DB_DIR, a]) = None" "client_at w n [a @ SLASH # b] rest ip pt"
    and "length q = sizeof_request" "junk_ok jk"
  defines "u \<equiv> a @ SLASH # b"
  shows "\<exists>q2 w2. run_state (srv_register jk (int n) q) w = (q2, w2) \<and> fs w2 = fs w \<and>
    trace w2 = trace w @ [EvPrint (result_line REGISTER u SRV_SUCCESS), reply_ev n SRV_SUCCESS]"
proof -
  let ?v = "received n rest ip pt w" and ?q = "strcpy rq_username u q"
  have len: "take 255 u = u" "length u \<le> 255" and c: "c_string u"
    using assms(2,3) wire_c_string [OF assms(2)] unfolding u_def by simp_all
  have recv: "run_state (recv_string (int n) rq_username q) w = ((0, ?q), ?v)"
    using run_recv_line [OF assms(1,6), of rq_username q] assms(7) len by (simp add: u_def)
  have q: "cstr rq_username ?q = u" using assms(7) len c by (simp add: rq_defs mem_simps)
  have v: "db_inv ?v" "sock_at ?v n" using assms(1) client_sock [OF assms(6)] by simp_all
  obtain ns where ns: "fs ?v (cwd ?v @ [DB_DIR]) = Some (Dir ns)" using cwd_is_dir(2) [OF v(1)] by blast
  have "SLASH \<notin> set a" using assms(4) by (simp add: valid_name_def)
  then have "split_slash (u @ ''-table'') = a # split_slash (b @ ''-table'')" by (simp add: u_def)
  moreover obtain x xs where "split_slash (b @ ''-table'') = x # xs" by (cases "split_slash (b @ ''-table'')") auto
  moreover have "fs ?v (cwd ?v @ [DB_DIR, a]) = None" using assms(5) by (simp add: received_def)
  ultimately have res: "resolve ?v (user_table_str u) = Inl ENOENT"
    using resolve_user [OF v(1), of u] len(2) ns assms(4) by (simp add: namei.simps(2) [of _ _ x])
  let ?e = "fresh_ud jk u"
  have e: "cstr en_username ?e = u"
    using assms(8) len c by (simp add: fresh_ud_def ud_query_def junk_ok_def en_defs mem_simps)
  have "run_state (open_directory (user_table_str u) CREATE) ?v = ((DBMS_ERR_ANY, None), ?v\<lparr>err_no := Some ENOENT\<rparr>)"
    using res db_inv_quiet [OF v(1)] by (simp add: open_directory_def quiet_simps mode_defs err_defs)
  then have "run_state (db_creat_usr_tbl ?e) ?v = ((DBMS_ERR_ANY, ?e), ?v\<lparr>err_no := Some ENOENT\<rparr>)"
    by (simp add: db_creat_usr_tbl_def e Let_def length_user_table err_defs)
  then show ?thesis
    using recv q v
    by (simp add: srv_register_def Let_def ud_query_def [symmetric] fresh_ud_def [symmetric] run_printf run_reply
        err_defs) (simp add: received_def)
qed

end
