(* ===== verification/Confine.thy ===== *)
theory Confine
  imports Isolation DbInv
begin

text \<open>
  What a database operation for one user can reach. Whatever fails, short transfers and errors
  included, it resolves only paths of the user's own table, writes only to files it opened there,
  and removes only what it finds below: so the files of every other user, and everything outside
  the database, stay as they are. The rules are those of \<open>runs_in\<close>.
\<close>

subsection \<open>Paths into a table\<close>

definition literal :: "string \<Rightarrow> bool" where
  "literal n \<longleftrightarrow> n \<noteq> [] \<and> n \<noteq> ''.'' \<and> n \<noteq> ''..''"

lemma valid_literal: "valid_name n \<Longrightarrow> literal n"
  by (simp add: valid_name_def literal_def)

lemma namei_literal: "\<forall>n\<in>set ns. literal n \<Longrightarrow> namei f cur ns = Inr p \<Longrightarrow> p = cur @ ns"
proof (induction ns arbitrary: cur)
  case Nil
  then show ?case by simp
next
  case (Cons n ns)
  then have "namei f (cur @ [n]) ns = Inr p"
    by (auto simp: namei.simps literal_def split: option.splits node.splits if_splits)
  with Cons.IH [OF _ this] Cons.prems(1) show ?case by simp
qed

definition in_table :: "string \<Rightarrow> string \<Rightarrow> bool" where
  "in_table u s \<longleftrightarrow> (\<exists>rest. split_slash s = DB_DIR # (u @ ''-table'') # rest \<and> (\<forall>n\<in>set rest. literal n))"

lemma in_table_child: "in_table u s \<Longrightarrow> valid_name n \<Longrightarrow> in_table u (s @ SLASH # n)"
  by (auto simp: in_table_def split_slash_child valid_literal)

lemma in_table_resolve:
  assumes "in_table u s" "resolve w s = Inr p"
  shows "prefix (tbl_path w u) p"
proof -
  from assms(1) obtain rest where
    r: "split_slash s = DB_DIR # (u @ ''-table'') # rest" "\<forall>n\<in>set rest. literal n"
    by (auto simp: in_table_def)
  have "hd s \<noteq> SLASH"
    using r(1) by (cases s) (auto simp: DB_DIR_def split: if_splits)
  with assms(2) have "namei (fs w) (cwd w) (split_slash s) = Inr p"
    by (auto simp: resolve_def resolve_in_def split: if_splits)
  moreover have "\<forall>n\<in>set (split_slash s). literal n"
    using r by (auto simp: literal_def DB_DIR_def)
  ultimately have "p = cwd w @ split_slash s" by (intro namei_literal)
  then show ?thesis by (simp add: r(1) tbl_path_def)
qed

lemma in_table_paths:
  assumes "SLASH \<notin> set u"
  shows "in_table u (user_table_str u)" "in_table u (user_table_str u @ SLASH # USERDATA_ENTRY)"
    "in_table u (user_table_str u @ SLASH # PEND_MSGS_TABLE)"
    "in_table u (user_table_str u @ SLASH # PEND_MSGS_TABLE @ SLASH # show_nat (unat (i :: u32)))"
proof -
  have split: "split_slash (user_table_str u) = [DB_DIR, u @ ''-table'']"
    using assms by (simp add: user_table_str_def)
  moreover have "literal (show_nat (unat i))" by (rule valid_literal) simp
  moreover have "literal USERDATA_ENTRY" "literal PEND_MSGS_TABLE"
    by (simp_all add: literal_def USERDATA_ENTRY_def PEND_MSGS_TABLE_def)
  ultimately show "in_table u (user_table_str u)" "in_table u (user_table_str u @ SLASH # USERDATA_ENTRY)"
    "in_table u (user_table_str u @ SLASH # PEND_MSGS_TABLE)"
    "in_table u (user_table_str u @ SLASH # PEND_MSGS_TABLE @ SLASH # show_nat (unat i))"
    by (simp_all add: in_table_def split_slash_join)
qed

subsection \<open>Everything else stays\<close>

text \<open>Outside the table of \<open>u\<close>, but for the directory that lists it, the tree is as in \<open>w0\<close>.\<close>

definition elsewhere :: "world \<Rightarrow> string \<Rightarrow> world \<Rightarrow> bool" where
  "elsewhere w0 u w \<longleftrightarrow> cwd w = cwd w0 \<and> dir_order w = dir_order w0 \<and>
     (\<forall>p. \<not> prefix (tbl_path w0 u) p \<and> p \<noteq> cwd w0 @ [DB_DIR] \<longrightarrow> fs w p = fs w0 p)"

abbreviation stays :: "world \<Rightarrow> string \<Rightarrow> 'a prog \<Rightarrow> ('a \<Rightarrow> bool) \<Rightarrow> bool" where
  "stays w0 u \<equiv> runs_in (elsewhere w0 u)"

lemma elsewhere_refl: "elsewhere w u w"
  by (simp add: elsewhere_def)

lemma elsewhere_same [simp]:
  "elsewhere w0 u (w\<lparr>err_no := e\<rparr>) = elsewhere w0 u w" "elsewhere w0 u (w\<lparr>fds := t\<rparr>) = elsewhere w0 u w"
  "elsewhere w0 u (w\<lparr>trace := tr\<rparr>) = elsewhere w0 u w" "elsewhere w0 u (w\<lparr>orc := xs\<rparr>) = elsewhere w0 u w"
  by (simp_all add: elsewhere_def)

lemma elsewhere_change:
  assumes "elsewhere w0 u w" "prefix (tbl_path w0 u) p"
    and "\<And>q. q \<noteq> p \<Longrightarrow> q \<noteq> butlast p \<Longrightarrow> f q = fs w q"
  shows "elsewhere w0 u (w\<lparr>fs := f\<rparr>)"
proof -
  from assms(2) obtain r where p: "p = cwd w0 @ [DB_DIR, u @ ''-table''] @ r"
    by (auto simp: prefix_def tbl_path_def)
  have "f q = fs w q" if "\<not> prefix (tbl_path w0 u) q" "q \<noteq> cwd w0 @ [DB_DIR]" for q
  proof (rule assms(3))
    show "q \<noteq> p" using that(1) assms(2) by blast
    show "q \<noteq> butlast p"
    proof (cases "r = []")
      case True
      with p that(2) show ?thesis by (simp add: butlast_append)
    next
      case False
      with p have "prefix (tbl_path w0 u) (butlast p)" by (simp add: tbl_path_def butlast_append)
      with that(1) show ?thesis by blast
    qed
  qed
  with assms(1) show ?thesis by (simp add: elsewhere_def)
qed

lemma elsewhere_table: "elsewhere w0 u w \<Longrightarrow> in_table u s \<Longrightarrow> resolve w s = Inr p \<Longrightarrow> prefix (tbl_path w0 u) p"
  using in_table_resolve [of u s w p] by (simp add: elsewhere_def tbl_path_def)

lemma elsewhere_add: "elsewhere w0 u w \<Longrightarrow> prefix (tbl_path w0 u) p \<Longrightarrow> elsewhere w0 u (w\<lparr>fs := fs_add p x (fs w)\<rparr>)"
  by (rule elsewhere_change) (auto simp: fs_add_def)

lemma elsewhere_del: "elsewhere w0 u w \<Longrightarrow> prefix (tbl_path w0 u) p \<Longrightarrow> elsewhere w0 u (w\<lparr>fs := fs_del p (fs w)\<rparr>)"
  by (rule elsewhere_change) (auto simp: fs_del_def)

lemma elsewhere_write: "elsewhere w0 u w \<Longrightarrow> prefix (tbl_path w0 u) p \<Longrightarrow> elsewhere w0 u (w\<lparr>fs := (fs w)(p \<mapsto> x)\<rparr>)"
  by (rule elsewhere_change) auto

subsection \<open>System calls\<close>

lemma in_syscall:
  assumes "Q bad" "\<And>w e. P w \<Longrightarrow> P (w\<lparr>err_no := e\<rparr>)" "\<And>w xs. P w \<Longrightarrow> P (w\<lparr>orc := xs\<rparr>)"
    and "\<And>l w a w'. P w \<Longrightarrow> act l w = Inr (a, w') \<Longrightarrow> P w' \<and> Q a"
  shows "runs_in P (syscall bad act) Q"
proof (rule runs_inI)
  fix w a w'
  assume h: "P w" and "run_state (syscall bad act) w = (a, w')"
  from this(2) show "P w' \<and> Q a"
  proof (cases rule: syscall_cases)
    case (fail e xs)
    with assms(1) assms(2) [OF assms(3) [OF h]] show ?thesis by simp
  next
    case (err l xs e)
    with assms(1) assms(2) [OF assms(3) [OF h]] show ?thesis by simp
  next
    case (ok l xs)
    with assms(4) [OF assms(3) [OF h]] show ?thesis by blast
  qed
qed

lemma stays_modify: "(\<And>w. elsewhere w0 u w \<Longrightarrow> elsewhere w0 u (g w)) \<Longrightarrow> stays w0 u (modify g) (\<lambda>_. True)"
  by (simp add: runs_in_def modify_def)

lemma stays_set_errno [in_intros]: "stays w0 u (set_errno e) (\<lambda>_. True)"
  by (simp add: set_errno_def stays_modify)

lemma stays_printf [in_intros]: "stays w0 u (sys_printf s) (\<lambda>_. True)"
  by (simp add: sys_printf_def emit_def stays_modify)

lemma stays_sprintf: "stays w0 u (sys_sprintf n s) (\<lambda>x. x = s)"
  by (simp add: sys_sprintf_def emit_def in_return in_bind stays_modify)

lemma stays_sprintf_any [in_intros]: "stays w0 u (sys_sprintf n s) (\<lambda>_. True)"
  by (rule runs_in_weaken [OF stays_sprintf]) simp

lemma stays_opendir [in_intros]: "stays w0 u (sys_opendir s) (\<lambda>_. True)"
  unfolding sys_opendir_def by (rule in_syscall) (auto split: sum.splits option.splits node.splits)

lemma stays_closedir [in_intros]: "stays w0 u (sys_closedir n) (\<lambda>_. True)"
  by (simp add: sys_closedir_def stays_modify)

lemma stays_mkdir [in_intros]: "in_table u s \<Longrightarrow> stays w0 u (sys_mkdir s) (\<lambda>_. True)"
  unfolding sys_mkdir_def
  by (rule in_syscall) (auto intro: elsewhere_add elsewhere_table split: sum.splits if_splits)

lemma stays_read [in_intros]: "stays w0 u (sys_read fd n) (\<lambda>_. True)"
  unfolding sys_read_def
  by (rule in_syscall) (auto simp: Let_def split: option.splits desc.splits node.splits if_splits)

lemma stays_close [in_intros]: "stays w0 u (sys_close fd) (\<lambda>_. True)"
  by (auto simp: runs_in_def sys_close_def split: option.splits desc.splits)

lemma stays_remove [in_intros]: "in_table u s \<Longrightarrow> stays w0 u (sys_remove s) (\<lambda>_. True)"
  unfolding sys_remove_def
  by (rule in_syscall)
    (auto intro: elsewhere_del elsewhere_table split: sum.splits option.splits node.splits if_splits)

subsection \<open>Files of the table\<close>

definition writable :: "world \<Rightarrow> string \<Rightarrow> nat \<Rightarrow> world \<Rightarrow> bool" where
  "writable w0 u n w \<longleftrightarrow> elsewhere w0 u w \<and>
     (\<exists>p off. map_of (fds w) n = Some (DReg p off) \<and> prefix (tbl_path w0 u) p)"

lemma open_table:
  assumes "elsewhere w0 u w" "in_table u s" "run_state (sys_open s fl) w = (r, w')"
  shows "elsewhere w0 u w' \<and> (r = -1 \<or> (\<exists>n. r = int n \<and> writable w0 u n w'))"
  using assms(3)
proof (cases rule: syscall_cases [OF assms(3) [unfolded sys_open_def]])
  case (3 k xs)
  let ?w = "w\<lparr>orc := xs\<rparr>"
  have e: "elsewhere w0 u ?w" using assms(1) by simp
  note p = elsewhere_table [OF e assms(2)]
  have open': "writable w0 u (fresh_fd (fds v)) (v\<lparr>fds := fd_add (DReg p 0) (fds v)\<rparr>)"
    if "elsewhere w0 u v" "prefix (tbl_path w0 u) p" for v p
    using that by (auto simp: writable_def map_of_fd_add)
  from 3(2) obtain q where q: "resolve ?w s = Inr q" by (auto split: sum.splits)
  note q' = p [OF q]
  have "writable w0 u (fresh_fd (fds w)) w' \<and> r = int (fresh_fd (fds w))"
    using 3(2) q open' [OF e q'] open' [OF elsewhere_add [OF e q', of "Reg []"] q']
      open' [OF elsewhere_write [OF e q', of "Reg []"] q']
    by (auto split: option.splits node.splits oflags.splits if_splits)
  then show ?thesis by (auto simp: writable_def)
qed (use assms(1) in auto)

lemma open_file_table:
  assumes "elsewhere w0 u w" "in_table u s" "run_state (open_file s c) w = (r, w')"
    and "c = READ \<or> c = CREATE \<or> c = MODIFY"
  shows "elsewhere w0 u w' \<and> (r = -1 \<or> (\<exists>n. r = int n \<and> writable w0 u n w'))"
  using assms open_table [OF assms(1,2)]
  by (auto simp: open_file_def split: if_splits)

lemma writable_same [simp]:
  "writable w0 u n (w\<lparr>err_no := e\<rparr>) = writable w0 u n w" "writable w0 u n (w\<lparr>orc := xs\<rparr>) = writable w0 u n w"
  "writable w0 u n (w\<lparr>trace := tr\<rparr>) = writable w0 u n w"
  by (simp_all add: writable_def)

lemma writable_write: "runs_in (writable w0 u n) (sys_write (int n) bs) (\<lambda>_. True)"
  unfolding sys_write_def
proof (rule in_syscall)
  fix l w a w'
  assume w: "writable w0 u n w" and act: "(let b = take (limit l (length bs)) bs in
     if int n < 0 then Inl EBADF else
     case map_of (fds w) (nat (int n)) of
       Some (DReg p off) \<Rightarrow>
         (let t = fd_set (nat (int n)) (DReg p (off + length b)) (fds w) in
          case fs w p of
            Some (Reg dat) \<Rightarrow>
              Inr (int (length b),
                   w\<lparr>fs := (fs w)(p \<mapsto> Reg (take off dat @ b @ drop (off + length b) dat)), fds := t\<rparr>)
          | Some (Dir _) \<Rightarrow> Inl EBADF
          | None \<Rightarrow> Inr (int (length b), w\<lparr>fds := t\<rparr>))
     | Some (DSock inp ip pt) \<Rightarrow>
         Inr (int (length b), w\<lparr>trace := trace w @ [EvSend (nat (int n)) b]\<rparr>)
     | Some DNew \<Rightarrow> Inl ENOTCONN
     | Some DDir \<Rightarrow> Inl EBADF
     | None \<Rightarrow> Inl EBADF) = Inr (a, w')"
  from w obtain p off where p: "map_of (fds w) n = Some (DReg p off)" "prefix (tbl_path w0 u) p" "elsewhere w0 u w"
    by (auto simp: writable_def)
  from act p show "writable w0 u n w' \<and> True"
    using elsewhere_write [OF p(3,2)]
    by (auto simp: writable_def Let_def map_of_fd_set split: option.splits node.splits)
qed simp_all

lemma writable_loop: "writable w0 u n w \<Longrightarrow> writable w0 u n (snd (write_loop (int n) buf tot w))"
proof (induction "int n" buf tot w rule: write_loop.induct)
  case (1 buf tot w)
  obtain r w1 where run: "run_state (sys_write (int n) buf) w = (r, w1)" by fastforce
  have "writable w0 u n w1" using runs_inD [OF writable_write "1.prems" run] by simp
  with "1.hyps" [OF run [symmetric] refl refl] show ?case
    by (subst write_loop.simps) (auto simp: run Let_def)
qed

lemma write_entry_table:
  assumes "writable w0 u n w" "run_state (write_entry (int n) e) w = (a, w')"
  shows "elsewhere w0 u w'"
proof -
  obtain r w1 where run: "run_state (write_bytes (int n) (take sizeof_entry e)) w = (r, w1)" by fastforce
  have "writable w0 u n w1"
    using run assms(1) writable_loop [of w0 u n w "take sizeof_entry e" 0]
    by (auto simp: write_bytes_def split: if_splits)
  then have w1: "elsewhere w0 u w1" by (simp add: writable_def)
  obtain b w2 where close: "run_state (sys_close (int n)) w1 = (b, w2)" by fastforce
  with runs_inD [OF stays_close w1 close] assms(2) run w1 show ?thesis
    by (auto simp: write_entry_def split: if_splits)
qed

subsection \<open>Removal\<close>

lemma opendir_names:
  assumes "wf_fs (fs w)" "posix_order (dir_order w)" "run_state (sys_opendir s) w = (Some (n, es), w')"
  shows "\<forall>(name, d)\<in>set es. name = ''.'' \<or> name = ''..'' \<or> valid_name name"
  using assms(3) unfolding sys_opendir_def
proof (cases rule: syscall_cases)
  case (ok k xs)
  then obtain p ns where p: "fs w p = Some (Dir ns)" "es = dir_entries (w\<lparr>orc := xs\<rparr>) p ns"
    by (auto split: sum.splits option.splits node.splits)
  have "mset es = mset ((''.'', True) # (''..'', True) #
       map (\<lambda>n. (n, case fs w (p @ [n]) of Some (Dir _) \<Rightarrow> True | _ \<Rightarrow> False)) ns)"
    using assms(2) unfolding p(2) dir_entries_def posix_order_def by simp
  from mset_eq_setD [OF this]
  have es: "fst ` set es = insert ''.'' (insert ''..'' (set ns))"
    by (simp add: image_image)
  have "name = ''.'' \<or> name = ''..'' \<or> valid_name name" if "(name, d) \<in> set es" for name d
  proof -
    from that have "name \<in> insert ''.'' (insert ''..'' (set ns))" unfolding es [symmetric] by force
    with wf_fs_names(2) [OF assms(1), of name p] p(1) show ?thesis by auto
  qed
  then show ?thesis by blast
qed simp_all

lemma stays_remove_finish [in_intros]: "in_table u s \<Longrightarrow> stays w0 u (remove_finish s) (\<lambda>_. True)"
  by (auto simp: remove_finish_def intro!: in_intros)

lemma remove_stays:
  "in_table u path \<Longrightarrow> posix_order (dir_order w0) \<Longrightarrow> elsewhere w0 u w \<and> wf_fs (fs w) \<Longrightarrow>
     elsewhere w0 u (snd (remove_recursive path w))"
  "in_table u path2 \<Longrightarrow> posix_order (dir_order w0) \<Longrightarrow>
     \<forall>(name, d)\<in>set es. name = ''.'' \<or> name = ''..'' \<or> valid_name name \<Longrightarrow>
     elsewhere w0 u v \<and> wf_fs (fs v) \<Longrightarrow> elsewhere w0 u (snd (remove_entries path2 fd es v))"
proof (induction path w and path2 fd es v rule: remove_recursive_remove_entries.induct)
  case (1 path w)
  obtain r w1 where run: "run_state (sys_opendir path) (w\<lparr>err_no := None\<rparr>) = (r, w1)" by fastforce
  have w: "elsewhere w0 u (w\<lparr>err_no := None\<rparr>)" "wf_fs (fs (w\<lparr>err_no := None\<rparr>))" using "1.prems" by simp_all
  have w1: "elsewhere w0 u w1" using runs_inD [OF stays_opendir w(1) run] by simp
  have wf1: "wf_fs (fs w1)" using fs_os.sat_run [OF fs_os.sat_opendir run] w(2) by (simp add: fs_rel_def)
  have fin: "elsewhere w0 u (snd (run_state m v))" if "stays w0 u m (\<lambda>_. True)" "elsewhere w0 u v"
    for m :: "int prog" and v using that by (simp add: runs_in_def)
  show ?case
  proof (cases r)
    case None
    with run fin [OF stays_remove_finish w1] "1.prems"(1) show ?thesis
      by (simp add: remove_recursive.simps [of path w])
  next
    case (Some x)
    obtain fd es where x: "x = (fd, es)" by fastforce
    obtain e w2 where loop: "remove_entries path fd es w1 = (e, w2)" by fastforce
    have "posix_order (dir_order (w\<lparr>err_no := None\<rparr>))" using "1.prems"(2) w(1) by (simp add: elsewhere_def)
    from opendir_names [OF w(2) this, of path fd es w1] run Some x
    have "\<forall>(name, d)\<in>set es. name = ''.'' \<or> name = ''..'' \<or> valid_name name" by simp
    with "1.IH" [OF run [symmetric] Some x [symmetric] "1.prems"(1,2)] loop w1 wf1
    have w2: "elsewhere w0 u w2" by simp
    have "stays w0 u (do { sys_closedir fd; remove_finish path }) (\<lambda>_. True)"
      using "1.prems"(1) by (auto intro!: in_intros)
    note fin [OF this w2]
    with w2 loop run Some x show ?thesis
      by (cases e) (simp_all add: remove_recursive.simps [of path w] del: run_state_bind)
  qed
next
  case (2 path fd w)
  then show ?case by (simp add: remove_entries.simps)
next
  case (3 path fd name is_dir es w)
  show ?case
  proof (cases "name = ''.'' \<or> name = ''..''")
    case True
    with 3 show ?thesis by (auto simp: remove_entries.simps)
  next
    case False
    obtain r w1 where rm: "(if is_dir then remove_recursive (path @ SLASH # name) w
        else run_state (sys_remove (path @ SLASH # name)) w) = (r, w1)" by fastforce
    have child: "in_table u (path @ SLASH # name)"
      using "3.prems"(1,3) False by (intro in_table_child) auto
    have w1: "elsewhere w0 u w1 \<and> wf_fs (fs w1)"
    proof (cases is_dir)
      case True
      with "3.IH"(2) [OF False True child] rm "3.prems" fs_os.remove_rel(1) [of w "path @ SLASH # name"]
      show ?thesis by (auto simp: fs_rel_def)
    next
      case not_dir: False
      with rm "3.prems" have run: "run_state (sys_remove (path @ SLASH # name)) w = (r, w1)" by simp
      with runs_inD [OF stays_remove [OF child] _ run] fs_os.sat_run [OF fs_os.sat_remove run] "3.prems"(4)
      show ?thesis by (simp add: fs_rel_def)
    qed
    have "stays w0 u (do { sys_closedir fd; return (Some DBMS_ERR_ANY) }) (\<lambda>_. True)"
      by (auto intro!: in_intros)
    with w1 have "elsewhere w0 u (snd (run_state (do { sys_closedir fd; return (Some DBMS_ERR_ANY) }) w1))"
      by (simp only: runs_in_def)
    with w1 "3.IH"(3) [OF False rm [symmetric]] "3.prems" False rm show ?thesis
      by (auto simp: remove_entries.simps(2) simp del: run_state_bind)
  qed
qed

subsection \<open>The operations of the database\<close>

lemma stays_of_within:
  assumes "stays w0 u m Q" "state_io_rel fs_rel m"
  shows "runs_in (\<lambda>w. elsewhere w0 u w \<and> wf_fs (fs w)) m Q"
proof (rule runs_inI)
  fix w a w' assume w: "elsewhere w0 u w \<and> wf_fs (fs w)" and run: "run_state m w = (a, w')"
  with runs_inD [OF assms(1) _ run] fs_os.sat_run [OF assms(2) run]
  show "(elsewhere w0 u w' \<and> wf_fs (fs w')) \<and> Q a" by (simp add: fs_rel_def)
qed

lemma stays_open_read [in_intros]: "stays w0 u (sys_open s O_RDONLY) (\<lambda>_. True)"
  unfolding sys_open_def
  by (rule in_syscall) (auto split: sum.splits option.splits node.splits)

lemma stays_open_directory [in_intros]: "in_table u s \<Longrightarrow> stays w0 u (open_directory s c) (\<lambda>_. True)"
  by (auto simp: open_directory_def intro!: in_intros)

lemma stays_read_directory [in_intros]: "stays w0 u (open_directory s READ) (\<lambda>_. True)"
  by (auto simp: open_directory_def READ_def CREATE_def OVERWRITE_def intro!: in_intros)

lemma stays_close_stream [in_intros]: "stays w0 u (close_stream x) (\<lambda>_. True)"
  by (auto simp: close_stream_def intro!: in_intros)

lemma stays_read_loop: "elsewhere w0 u w \<Longrightarrow> elsewhere w0 u (snd (read_loop fd off left tot m w))"
proof (induction fd off left tot m w rule: read_loop.induct)
  case (1 fd off left tot m w)
  obtain r bs w1 where run: "run_state (sys_read fd left) w = ((r, bs), w1)" by (metis prod.exhaust)
  have "elsewhere w0 u w1" using runs_inD [OF stays_read "1.prems" run] by simp
  with "1.IH" [OF run [symmetric] refl refl refl] show ?case
    by (subst read_loop.simps) (auto simp: run Let_def)
qed

lemma stays_read_entry [in_intros]: "stays w0 u (read_entry fd m) (\<lambda>_. True)"
  by (auto simp: read_entry_def read_bytes_def intro!: in_intros in_State stays_read_loop)

lemma stays_str_to_num [in_intros]: "stays w0 u (str_to_num s ty) (\<lambda>_. True)"
  by (auto simp: str_to_num_def intro!: in_intros)

text \<open>Reading an entry changes no file, whichever path it resolves.\<close>

lemma stays_db_read [in_intros]: "stays w0 u (db_io_op_usr_ent e READ) (\<lambda>_. True)"
  by (auto simp: db_io_op_usr_ent_def open_file_def READ_def DELETE_def intro!: in_intros)

lemma stays_pend_scan [in_intros]: "stays w0 u (pend_scan es b e) (\<lambda>_. True)"
  by (induction es b e rule: pend_scan.induct) (auto simp: pend_scan.simps Let_def intro!: in_intros)

lemma stays_db_get_pend_msg: "stays w0 u (db_get_pend_msg e) (\<lambda>_. True)"
  by (auto simp: db_get_pend_msg_def Let_def intro!: in_intros)

lemma stays_db_user_exists: "stays w0 u (db_user_exists v) (\<lambda>_. True)"
  by (auto simp: db_user_exists_def intro!: in_intros)

lemma in_table_entry: "SLASH \<notin> set (cstr en_username e) \<Longrightarrow> in_table (cstr en_username e) (entry_path_str e)"
  by (simp add: entry_path_str_def in_table_paths)

text \<open>An entry is written to the file that was opened for it.\<close>

lemma stays_db_write:
  assumes "SLASH \<notin> set (cstr en_username e)" "c = CREATE \<or> c = MODIFY"
  shows "stays w0 (cstr en_username e) (db_io_op_usr_ent e c) (\<lambda>_. True)"
proof -
  let ?u = "cstr en_username e"
  have "stays w0 ?u (do {
      entry_fd \<leftarrow> open_file (entry_path_str e) c;
      if entry_fd = -1 then do {
        w \<leftarrow> State_Monad.get;
        if err_no w = Some ENOENT then return (DBMS_ERR_NOT_EXISTS, e) else return (DBMS_ERR_ANY, e) }
      else do {
        (result, entry) \<leftarrow> write_entry entry_fd e;
        _ \<leftarrow> sys_close entry_fd;
        return (result, entry) } }) (\<lambda>_. True)" (is "stays w0 ?u (State_Monad.bind _ ?rest) _")
  proof (rule runs_inI)
    fix w a w'
    assume w: "elsewhere w0 ?u w" and run: "run_state (State_Monad.bind (open_file (entry_path_str e) c) ?rest) w = (a, w')"
    obtain r w1 where op: "run_state (open_file (entry_path_str e) c) w = (r, w1)" by fastforce
    with run have rest: "run_state (?rest r) w1 = (a, w')" by simp
    from assms(2) have o: "elsewhere w0 ?u w1 \<and> (r = -1 \<or> (\<exists>n. r = int n \<and> writable w0 ?u n w1))"
      by (intro open_file_table [OF w in_table_entry [OF assms(1)] op]) auto
    show "elsewhere w0 ?u w' \<and> True"
    proof (cases "\<exists>n. r = int n \<and> writable w0 ?u n w1")
      case True
      then obtain n where n: "r = int n" "writable w0 ?u n w1" by blast
      obtain b w2 where wr: "run_state (write_entry (int n) e) w1 = (b, w2)" by fastforce
      obtain c w3 where cl: "run_state (sys_close (int n)) w2 = (c, w3)" by fastforce
      from runs_inD [OF stays_close write_entry_table [OF n(2) wr] cl] rest n wr cl show ?thesis
        by (simp split: prod.splits)
    next
      case False
      with o rest show ?thesis by (auto split: if_splits)
    qed
  qed
  then show ?thesis
    using assms(2)
    by (auto simp: db_io_op_usr_ent_def CREATE_def MODIFY_def READ_def DELETE_def intro!: in_intros
        runs_in_bind [OF stays_sprintf])
qed

lemma stays_db_creat_usr_tbl:
  assumes "SLASH \<notin> set (cstr en_username e)"
  shows "stays w0 (cstr en_username e) (db_creat_usr_tbl e) (\<lambda>_. True)"
  using in_table_paths [OF assms] stays_db_write [OF assms, of CREATE]
  by (auto simp: db_creat_usr_tbl_def Let_def intro!: in_intros runs_in_bind [OF stays_sprintf])

text \<open>Removal walks the directories, so it needs them to be those of a file tree.\<close>

abbreviation stays_in_tree :: "world \<Rightarrow> string \<Rightarrow> 'a prog \<Rightarrow> ('a \<Rightarrow> bool) \<Rightarrow> bool" where
  "stays_in_tree w0 u \<equiv> runs_in (\<lambda>w. elsewhere w0 u w \<and> wf_fs (fs w))"

lemma stays_remove_recursive:
  assumes "in_table u path" "posix_order (dir_order w0)"
  shows "stays_in_tree w0 u (State (remove_recursive path)) (\<lambda>_. True)"
proof (rule in_State)
  fix w assume w: "elsewhere w0 u w \<and> wf_fs (fs w)"
  with remove_stays(1) [OF assms w] fs_os.remove_rel(1) [of w path]
  show "(elsewhere w0 u (snd (remove_recursive path w)) \<and> wf_fs (fs (snd (remove_recursive path w)))) \<and> True"
    by (simp add: fs_rel_def)
qed

lemmas tree_sprintf = runs_in_bind [OF stays_of_within [OF stays_sprintf fs_os.sat_sprintf]]

lemma stays_db_del_usr_tbl:
  assumes "SLASH \<notin> set u" "posix_order (dir_order w0)"
  shows "stays_in_tree w0 u (db_del_usr_tbl u) (\<lambda>_. True)"
  unfolding db_del_usr_tbl_def
  using stays_remove_recursive [OF in_table_paths(1) [OF assms(1)] assms(2)]
  by (intro tree_sprintf) simp

lemma stays_db_delete:
  assumes "SLASH \<notin> set (cstr en_username e)" "posix_order (dir_order w0)"
  shows "stays_in_tree w0 (cstr en_username e) (db_io_op_usr_ent e DELETE) (\<lambda>_. True)"
  using stays_remove_recursive [OF in_table_entry [OF assms(1)] assms(2)]
  by (auto simp: db_io_op_usr_ent_def intro!: in_return tree_sprintf intro: runs_in_bind)

lemma stays_db_io:
  assumes "SLASH \<notin> set (cstr en_username e)" "posix_order (dir_order w0)"
  shows "stays_in_tree w0 (cstr en_username e) (db_io_op_usr_ent e c) (\<lambda>_. True)"
proof -
  consider "c = DELETE" | "c = READ" | "c = CREATE \<or> c = MODIFY"
    | "c \<noteq> CREATE \<and> c \<noteq> MODIFY \<and> c \<noteq> READ \<and> c \<noteq> DELETE" by blast
  then show ?thesis
  proof cases
    case 1
    with stays_db_delete [OF assms] show ?thesis by simp
  next
    case 4
    then show ?thesis by (simp add: db_io_op_usr_ent_def CHECK_ARGS_def in_return)
  qed (use stays_of_within [OF stays_db_read fs_os.sat_db_io_op_usr_ent]
      stays_of_within [OF stays_db_write [OF assms(1)] fs_os.sat_db_io_op_usr_ent] in auto)
qed

lemma stays_inD:
  "stays_in_tree w u m Q \<Longrightarrow> elsewhere w u v \<Longrightarrow> wf_fs (fs v) \<Longrightarrow> elsewhere w u (snd (run_state m v))"
  by (simp add: runs_in_def)

lemma stays_runD: "stays w u m Q \<Longrightarrow> elsewhere w u v \<Longrightarrow> elsewhere w u (snd (run_state m v))"
  by (simp add: runs_in_def)

lemma elsewhere_users:
  assumes "elsewhere w u w'" "v \<noteq> u"
  shows "ud_of w' v = ud_of w v" "pend_of w' v i = pend_of w v i"
  using assms by (simp_all add: elsewhere_def ud_of_def pend_of_def path_defs)

end
