(* ===== verification/Spec2Isabelle.thy ===== *)
theory Spec2Isabelle
  imports Cases WholeSamples TransferLaws Defects Confine
begin

text \<open>
  A server for a message passing system, in C: clients register, connect with the port of a
  listening thread of their own, and send each other messages; a message to a user that is
  offline waits in a database of files until the user connects. This development models the
  server (\<^verbatim>\<open>app/server.c\<close>, \<^verbatim>\<open>src/*.c\<close>, \<^verbatim>\<open>src/dbms/*.c\<close>) function by function, on a model of the
  POSIX calls it makes, and proves that it implements a small chat specification, that its
  thread pool serves every connection, and what goes wrong where it does not do what it means to.

  \<^bold>\<open>Parts of the program and their theories.\<close>
  \<^item> Prelude: characters, decimal numbers, collections of simplification rules.
  \<^item> Memory: C structures as the bytes they occupy; members as offsets; \<^verbatim>\<open>strcpy\<close>, little endian
    integers. The locale \<open>int_member\<close> is what an integer member promises, interpreted for 8, 16
    and 32 bits. UtilH: \<^verbatim>\<open>util.h\<close>, its constants and the layouts of \<^verbatim>\<open>request_t\<close> and \<^verbatim>\<open>entry_t\<close>
    on amd64, unions included.
  \<^item> FileSys, Posix: the file tree, descriptors, and the system calls, each with an outcome from an
    oracle: to work, to fail with any error it can return with, to move only some bytes. PosixRel: the locale
    \<open>os_rel\<close> of relations every system call keeps, with interpretations for the tree, the trace,
    the descriptors, the oracle and the fixed part of the world. PosixQuiet: the calls as equations
    when the oracle injects nothing.
  \<^item> Checks: the error-checking macros of \<^verbatim>\<open>util.h\<close>.
  \<^item> Util (\<^verbatim>\<open>util.c\<close>), UtilLaws, NetUtil (\<^verbatim>\<open>netUtil.c\<close>), TransferLaws: number parsing and the
    transfer loops, with their behaviour under faults, short transfers and interrupts.
  \<^item> DbmsUtil (\<^verbatim>\<open>dbms/dbmsUtil.c\<close>), DbmsUtilLaws, RemoveTree: files and directories, recursive
    removal and what exactly it removes.
  \<^item> Dbms (\<^verbatim>\<open>dbms/dbms.c\<close>), DbInv, DbmsLaws, DbStore, DbUsers: the database, its invariant
    \<open>db_inv\<close>, and the equation of every operation on every branch. StoreSpec: the locales
    \<open>user_store\<close> and \<open>message_store\<close>, which the database interprets, and the refinement of an
    abstract database of two maps.
  \<^item> Services (\<^verbatim>\<open>services.c\<close>), ServicesSafe, ServiceLaws, DeliveryLaws, SendLaws, ConnectLaws: the
    five services and the calls to clients. A stack variable that is read before it is set is a
    parameter, in the record \<open>junk\<close>; the memory of a request is an argument and a result.
  \<^item> Server (\<^verbatim>\<open>server.c\<close> without its threads), StartLaws: arguments, start, dispatch, and \<^verbatim>\<open>main\<close>
    with its connections one after the other.
  \<^item> ChatSpec, ChatRefine: the specification, two maps from users to accounts and to pending
    messages with one step per request, and the proof that a served connection is such a step.
  \<^item> ConnQueue, Systems, Threads, ThreadsInv, ThreadsLive: the connection queue as a circular buffer
    (it interprets the locale \<open>bounded_queue\<close>), and the main and service threads as an
    interleaving of steps over the mutex and the condition variables, with spurious wake-ups
    (they interpret \<open>invariant_of\<close> and \<open>working\<close>).
  \<^item> Isolation: a calculus of programs that keep an invariant, with which every function down from
    the dispatcher is shown to leave other clients' descriptors alone: nothing is read from them,
    written to them, or closed. Confine: the same calculus for the file tree, what an operation of
    the database can reach when calls fail.
  \<^item> WholeServer: threads and services together, as one system of steps over one world, with SIGINT
    (\<^verbatim>\<open>shutdown_server\<close>); it interprets \<open>invariant_of\<close> and \<open>working\<close> again. WholeSamples: runs of it.
  \<^item> Cases: single cases of requests, arguments and numbers.
  \<^item> MsgIds, Defects: message numbers, and the theorems behind the findings. Samples: the concrete
    worlds on which the properties are tried.

  \<^bold>\<open>State.\<close> The record \<open>world\<close> has the file tree, the current directory, the open descriptors, the
  oracle, \<^verbatim>\<open>errno\<close> and a trace of what the outside sees; a function of the program is a state
  monad over it. Loops are functions with a termination proof that holds for every oracle: the
  transfer loops by the bytes left and the length of the oracle, \<^verbatim>\<open>remove_recursive\<close> by
  \<^verbatim>\<open>PATH_MAX\<close>. Only the loop that sends pending messages has no bound in the code; it is a
  partial function, and that it ends is part of C7 and C8. No fuel is used anywhere.

  \<^bold>\<open>What the properties show.\<close> C1 to C6 are the refinements: of the server over a restart, of a
  sequence of clients with their replies, of the server with all its threads as long as services
  do not overlap (C4: and every client is answered), of one connection, and of the database. C7 to
  C20 state the services, removal, what failing database operations leave alone (C15), isolation
  of clients (C16), start and buffer sizes one by one. C21 to C28 are about the threads: mutual
  exclusion, the bounds and the order of the queue, wake-ups, that every accepted connection is
  served, and a bound of 136 on the steps between two events from outside: sixteen for the main
  thread, eight for each of at most ten connections in the queue and each of five service
  threads. (The bound of 821 in C4 is six times that and five more, since there the begin of a
  service is a step too.) C29 to C33 are about transfers and message numbers; C34 is the round
  trip of entries. C35 to C40, C20 and C28 are defects: circumstances that the program allows and a
  result it does not mean to have.

  \<^bold>\<open>What is assumed.\<close> The refinements hold for quiet worlds (no injected fault), user names of at
  most 249 characters without slash, zero and line feed (\<open>user_ok\<close>), and a service thread whose
  uninitialised variables do not happen to hold the two values that change the outcome
  (\<open>junk_zero\<close>); C35 to C40 show what happens otherwise. C15, C16, C20, C29, C30 and C32 hold
  under faults: any error a call can return with, any short transfer. A fault that does not return
  is outside of them: a write to a client that has closed its connection raises \<^verbatim>\<open>SIGPIPE\<close>, which
  the program neither ignores nor handles, and ends the server. Descriptors do not run out in C2
  to C4 (in the program they do, since the socket of a served client is not closed). The steps of the threads interleave freely, and so do
  services, since \<^verbatim>\<open>mutex_db\<close> is never locked; but what overlapping services do to the world is
  left open. WholeServer records in \<open>overlap\<close> that a service began, a connection was accepted
  or the process ended while a service was running, and C3 and C4 are about the executions where
  this has not happened; C21 to C28 have no such condition, they hold of all. MsgIds shows two
  SENDs whose database calls interleave, and C40 a connection accepted within an update, with an
  outcome the specification does not have.

  \<^bold>\<open>Not modelled.\<close> What \<^verbatim>\<open>shutdown_server\<close> releases goes with the process, so only its end is
  modelled. Messages to \<^verbatim>\<open>stderr\<close> are left out; those to \<^verbatim>\<open>stdout\<close> are in the trace. \<^verbatim>\<open>strtof\<close>
  is a parameter; nothing in the server asks for a \<^verbatim>\<open>FLOAT\<close>. File permissions, links and the
  sharing of one file by two open descriptors do not occur. A write behind an array is recorded
  and has no further effect. The Python client and the build files are not part of it.
\<close>

section \<open>Properties\<close>

text \<open>C1. The server as a whole, over a restart: started with \<^verbatim>\<open>-p\<close> and a port in a directory without
  a database, it serves every well-formed client; stopped, with all its descriptors gone, and
  started again it serves more; and accounts and pending messages are at the end what the chat
  specification computes from the empty state for all of them in order.\<close>

theorem server_persists_chat:
  assumes "server_dir_ok w" "fs w (cwd w @ [DB_DIR]) = None" "0 \<le> hr"
    and "\<forall>(c, r)\<in>set crs1. sends c r" "\<forall>(c, r)\<in>set crs2. sends c r"
  shows "\<exists>w2 w3. server_main (argv_of pt) hr (Some ip) (map fst crs1) w = Some (None, w2) \<and>
    server_main (argv_of pt) hr (Some ip) (map fst crs2) (w2\<lparr>fds := [], err_no := None\<rparr>) = Some (None, w3) \<and>
    db_inv w3 \<and> chat_of w3 = chat_run (reach w) (crs1 @ crs2) (\<lambda>_. None, \<lambda>_ _. None)"
proof -
  from main_fresh [OF assms(1-4), of pt ip] obtain w2 where
    w2: "server_main (argv_of pt) hr (Some ip) (map fst crs1) w = Some (None, w2)" "db_inv w2"
      "chat_of w2 = chat_run (reach w) crs1 (\<lambda>_. None, \<lambda>_ _. None)" "reach w2 = reach w" by blast
  let ?v = "w2\<lparr>fds := [], err_no := None\<rparr>"
  have "db_inv ?v" using w2(2) by simp
  from main_again [OF this assms(3,5), of pt ip] w2 show ?thesis by (auto simp: chat_run_append)
qed

lemma server_persists_chat_witness:
  "\<exists>w2 w3. server_main (argv_of 8080) 0 (Some 16777343) (map fst [(sample_cl (Register alice), Register alice)]) empty_world =
      Some (None, w2) \<and>
    server_main (argv_of 8080) 0 (Some 16777343) (map fst [(sample_cl (Connect alice 5000), Connect alice 5000)])
      (w2\<lparr>fds := [], err_no := None\<rparr>) = Some (None, w3) \<and>
    db_inv w3 \<and> chat_of w3 = chat_run (reach empty_world) ([(sample_cl (Register alice), Register alice)] @
      [(sample_cl (Connect alice 5000), Connect alice 5000)]) (\<lambda>_. None, \<lambda>_ _. None)"
  by (rule server_persists_chat) (simp_all add: empty_world_ok)

text \<open>C2. The server implements the chat specification. Clients with well-formed requests (\<open>sends\<close>, which
  also says that the variables of the service are as \<open>junk_zero\<close> wants them) that are accepted one
  after the other, in a world where no call fails, are all served to the end: for every request
  the reply code of the specification goes out, in the order of the requests; the
  database stays in order, and accounts and pending messages are what \<open>chat_run\<close> computes.
  Descriptors do not run out here; that a server without end runs out of them is a finding.\<close>

theorem server_refines_chat:
  assumes "db_inv w" "\<forall>(c, r)\<in>set crs. sends c r"
  shows "\<exists>w2 ns. serve_clients (map fst crs) w = Some w2 \<and> db_inv w2 \<and>
    chat_of w2 = chat_run (reach w) crs (chat_of w) \<and>
    replied (trace w) ns (chat_replies (reach w) crs (chat_of w)) (trace w2)"
  by (rule serve_clients_answers [OF assms])

lemma server_refines_chat_witness:
  "\<exists>w2 ns. serve_clients (map fst [(sample_cl (Send alice bob ''hello''), Send alice bob ''hello''),
      (sample_cl (Connect bob 5000), Connect bob 5000)]) (sample_db []) = Some w2 \<and> db_inv w2 \<and>
    chat_of w2 = chat_run (reach (sample_db [])) [(sample_cl (Send alice bob ''hello''), Send alice bob ''hello''),
      (sample_cl (Connect bob 5000), Connect bob 5000)] (chat_of (sample_db [])) \<and>
    replied (trace (sample_db [])) ns (chat_replies (reach (sample_db []))
      [(sample_cl (Send alice bob ''hello''), Send alice bob ''hello''),
       (sample_cl (Connect bob 5000), Connect bob 5000)] (chat_of (sample_db []))) (trace w2)"
  by (rule server_refines_chat) simp_all

text \<open>C3. The server with its threads implements the chat specification, as long as services do not
  overlap. A state is reached by any interleaving of accepting, queueing, waking, sleeping, and the
  begin and end of services, also after SIGINT. Since \<^verbatim>\<open>mutex_db\<close> is never locked, nothing keeps
  two services apart, and the model says nothing about the effect of overlapping ones; the theorem
  is about the executions where it did not come to that, \<open>\<not> overlap s\<close>. There the
  clients served so far sent well-formed requests, the database is in order, accounts and
  pending messages are what \<open>chat_run\<close> computes for them in the order of their service, and the
  reply codes it gives have gone out, each on the socket that was served. Every client that was
  accepted was served once, or its socket is still in the queue or in a thread's hand.\<close>

theorem concurrent_server_refines_chat:
  assumes "sys_step\<^sup>*\<^sup>* (sys_init w0 qs) s" "sys_ready w0 qs" "polite s" "\<not> overlap s"
  shows "\<exists>rs. list_all2 sends (answered s) rs \<and> db_inv (os s) \<and>
    chat_of (os s) = chat_run (reach w0) (zip (answered s) rs) (chat_of w0) \<and>
    replied (trace w0) (map nat (served (threads s)))
      (chat_replies (reach w0) (zip (answered s) rs) (chat_of w0)) (trace (os s)) \<and>
    mset (arrived s) = mset (map contact (answered s)) +
      image_mset (peer s) (mset (backlog (queue (threads s))) + mset (m_hand (main_pc (threads s))) +
        hands (workers (threads s)))"
proof -
  have t: "srv_inv (threads s)" using sy.inv_reachable [OF assms(1)] by (simp add: sys_inv_def)
  from reachable_chat [OF assms] show ?thesis
    unfolding inv_chat_def inv_conns_def unserved_hands(1) [OF t] by blast
qed

lemma concurrent_server_refines_chat_witness:
  "\<exists>s :: sys. length (answered s) = 2 \<and>
    (\<exists>rs. list_all2 sends (answered s) rs \<and> db_inv (os s) \<and>
    chat_of (os s) = chat_run (reach (sample_db [])) (zip (answered s) rs) (chat_of (sample_db [])) \<and>
    replied (trace (sample_db [])) (map nat (served (threads s)))
      (chat_replies (reach (sample_db [])) (zip (answered s) rs) (chat_of (sample_db []))) (trace (os s)) \<and>
    mset (arrived s) = mset (map contact (answered s)) +
      image_mset (peer s) (mset (backlog (queue (threads s))) + mset (m_hand (main_pc (threads s))) +
        hands (workers (threads s))))"
proof -
  obtain s where s: "sys_step\<^sup>*\<^sup>* (sys_init (sample_db []) sample_requests) s" "polite s" "\<not> overlap s"
    "length (answered s) = 2"
    using sample_two_answered by blast
  show ?thesis
    by (intro exI [of _ s] conjI s(4) concurrent_server_refines_chat [OF s(1) sample_sys_ready s(2,3)])
qed



text \<open>C5. One connection. With its uninitialised variables as \<open>junk_zero\<close> wants them, the dispatcher of the
  service thread and the service it calls return, and do what \<open>chat_step\<close> says: the same change of accounts and pending messages, and its reply
  code among the bytes sent back.\<close>

theorem connection_refines_step:
  assumes "db_inv w" "req_ok r" "client_at w n (lines_of r) rest ip pt"
    and "length q = sizeof_request" "junk_ok jk" "junk_zero jk"
  shows "\<exists>q2 w2. serve_connection jk (int n) q w = Some (q2, w2) \<and>
    chat_result n w (chat_step (reach w) (fresh_account jk) ip r (chat_of w)) w2"
  by (rule serve_connection_step [OF assms])

lemma connection_refines_step_witness:
  "\<exists>q2 w2. serve_connection sample_junk (int 4) sample_request (sample_world [REGISTER, alice]) = Some (q2, w2) \<and>
    chat_result 4 (sample_world [REGISTER, alice]) (chat_step (reach (sample_world [REGISTER, alice]))
      (fresh_account sample_junk) 16777343 (Register alice) (chat_of (sample_world [REGISTER, alice]))) w2"
proof (rule connection_refines_step)
  show "client_at (sample_world [REGISTER, alice]) 4 (lines_of (Register alice)) [] 16777343 40000"
    using sample_client(1) [of "[REGISTER, alice]"] by (simp add: wire_ops)
qed simp_all

text \<open>C6. The database implements two maps. For every sequence of calls of \<^verbatim>\<open>dbms.c\<close>, from
  every database in order, the results and the final contents are those of \<open>spec_step\<close>, and
  the database stays in order.\<close>

theorem database_refines_maps:
  assumes "db_inv w" "list_all op_ok ops" "run_state (db_run ops) w = (rs, w')"
  shows "db_inv w' \<and> spec_run ops (view w) rs (view w')"
  by (rule db_run_refines [OF assms])

lemma database_refines_maps_witness:
  "db_inv (snd (run_state (db_run [Create (fresh_ud sample_junk alice), Exists alice, Drop alice]) (sample_world []))) \<and>
   spec_run [Create (fresh_ud sample_junk alice), Exists alice, Drop alice] (view (sample_world []))
     (fst (run_state (db_run [Create (fresh_ud sample_junk alice), Exists alice, Drop alice]) (sample_world [])))
     (view (snd (run_state (db_run [Create (fresh_ud sample_junk alice), Exists alice, Drop alice]) (sample_world []))))"
proof (rule database_refines_maps)
  have "ud_ok alice (fresh_ud sample_junk alice)" by (rule fresh_ud_ok(1)) simp_all
  moreover from this have "cstr en_username (fresh_ud sample_junk alice) = alice" by (simp add: ud_ok_def)
  ultimately show "list_all op_ok [Create (fresh_ud sample_junk alice), Exists alice, Drop alice]"
    by (simp add: op_ok_def)
qed simp_all

text \<open>C7. CONNECT delivers. For a user that is not connected and whose listening thread accepts
  connections, and if the uninitialised \<^verbatim>\<open>reply\<close> does not happen to be \<open>SRV_ERR_CN_ANY\<close>, which
  would refuse the request, the service ends; the address is stored and success replied; after that each
  pending message is sent once, to that address, and no message is left pending. Other users
  keep their data and messages.\<close>

theorem connect_delivers_pending:
  assumes "db_inv w" "user_ok u" "client_at w n [u, port_line lp] rest ip pt"
    and "length q = sizeof_request" "junk_ok jk" "jk_reply jk \<noteq> SRV_ERR_CN_ANY"
    and "ud_of w u = Some m" "get_u8 ud_status m \<noteq> STATUS_CN" "reach w ip lp"
  shows "\<exists>q2 w2 tr ids. srv_connect jk (int n) q w = Some (q2, w2) \<and> db_inv w2 \<and>
    ud_of w2 = (ud_of w)(u \<mapsto> connected m ip lp) \<and> pend_of w2 = (pend_of w)(u := (\<lambda>_. None)) \<and>
    distinct ids \<and> set ids = {i. pend_of w u i \<noteq> None} \<and>
    trace w2 = trace w @ [EvPrint (result_line CONNECT u SRV_SUCCESS), reply_ev n SRV_SUCCESS] @ tr \<and>
    deliveries tr = map (\<lambda>i. delivery (connected m ip lp) (the (pend_of w u i)) i) ids"
proof -
  have reach: "reachable w (connected m ip lp)"
    using connected_ok [OF ud_ofD(2) [OF assms(1,2,7)] assms(2)] assms(9) by (simp add: reachable_def)
  from connect_outcome [OF assms(1-8)] obtain w1 w2 where
    w1: "trace w1 = trace w @ connect_reply_trace n u SRV_SUCCESS" "ud_of w1 = (ud_of w)(u \<mapsto> connected m ip lp)"
      "pend_of w1 = pend_of w" "reachable w1 = reachable w"
    and w2: "srv_connect jk (int n) q w = Some (connect_request u (port_line lp) q, w2)"
      "flushed u (connected m ip lp) w1 w2" by blast
  from w2(2) reach w1(4) obtain tr ids where f: "db_inv w2" "ud_of w2 = ud_of w1"
    "pend_of w2 = (pend_of w1)(u := (\<lambda>_. None))" "distinct ids" "set ids = pending_ids w1 u"
    "trace w2 = trace w1 @ tr"
    "deliveries tr = map (\<lambda>i. delivery (connected m ip lp) (the (pend_of w1 u i)) i) ids"
    by (auto simp: flushed_def)
  show ?thesis
    by (intro exI [of _ "connect_request u (port_line lp) q"] exI [of _ w2] exI [of _ tr] exI [of _ ids])
      (use w1 w2(1) f in \<open>simp add: connect_reply_trace_def pending_ids_def\<close>)
qed

lemma connect_delivers_pending_witness:
  "\<exists>q2 w2 tr ids. srv_connect sample_junk (int 4) sample_request (sample_pending [bob, port_line 5000]) = Some (q2, w2) \<and>
    db_inv w2 \<and> ud_of w2 = (ud_of (sample_pending [bob, port_line 5000]))
      (bob \<mapsto> connected (fresh_ud sample_junk bob) 16777343 5000) \<and>
    pend_of w2 = (pend_of (sample_pending [bob, port_line 5000]))(bob := (\<lambda>_. None)) \<and>
    distinct ids \<and> set ids = {i. pend_of (sample_pending [bob, port_line 5000]) bob i \<noteq> None} \<and>
    trace w2 = trace (sample_pending [bob, port_line 5000]) @
      [EvPrint (result_line CONNECT bob SRV_SUCCESS), reply_ev 4 SRV_SUCCESS] @ tr \<and>
    deliveries tr = map (\<lambda>i. delivery (connected (fresh_ud sample_junk bob) 16777343 5000)
      (the (pend_of (sample_pending [bob, port_line 5000]) bob i)) i) ids"
proof (rule connect_delivers_pending)
  show "client_at (sample_pending [bob, port_line 5000]) 4 [bob, port_line 5000] [] 16777343 40000"
    by (rule sample_pending_client) simp
  show "get_u8 ud_status (fresh_ud sample_junk bob) \<noteq> STATUS_CN" by (simp add: srv_defs)
qed simp_all

text \<open>C8. CONNECT to a client that does not listen loses nothing, if the uninitialised \<^verbatim>\<open>reply\<close> does not
  happen to be \<open>SRV_ERR_CN_ANY\<close>: the service ends, every pending
  message is still there, nothing was sent but the reply, and the user is marked disconnected
  again.\<close>

theorem connect_unreachable_keeps:
  assumes "db_inv w" "user_ok u" "client_at w n [u, port_line lp] rest ip pt"
    and "length q = sizeof_request" "junk_ok jk" "jk_reply jk \<noteq> SRV_ERR_CN_ANY"
    and "ud_of w u = Some m" "get_u8 ud_status m \<noteq> STATUS_CN" "\<not> reach w ip lp" "pend_of w u i \<noteq> None"
  shows "\<exists>q2 w2. srv_connect jk (int n) q w = Some (q2, w2) \<and> db_inv w2 \<and>
    ud_of w2 = (ud_of w)(u \<mapsto> offline (connected m ip lp)) \<and> pend_of w2 = pend_of w \<and>
    trace w2 = trace w @ [EvPrint (result_line CONNECT u SRV_SUCCESS), reply_ev n SRV_SUCCESS]"
proof -
  have reach: "\<not> reachable w (connected m ip lp)"
    using connected_ok [OF ud_ofD(2) [OF assms(1,2,7)] assms(2)] assms(9) by (simp add: reachable_def)
  from connect_outcome [OF assms(1-5,6-8)] obtain w1 w2 where
    w1: "trace w1 = trace w @ connect_reply_trace n u SRV_SUCCESS" "ud_of w1 = (ud_of w)(u \<mapsto> connected m ip lp)"
      "pend_of w1 = pend_of w" "reachable w1 = reachable w"
    and w2: "srv_connect jk (int n) q w = Some (connect_request u (port_line lp) q, w2)"
      "flushed u (connected m ip lp) w1 w2" by blast
  have "pending_ids w1 u \<noteq> {}" using assms(10) w1(3) by (auto simp: pending_ids_def)
  with w1 w2 reach show ?thesis by (simp add: flushed_def connect_reply_trace_def)
qed

lemma connect_unreachable_keeps_witness:
  "\<exists>q2 w2. srv_connect sample_junk (int 4) sample_request (sample_deaf [bob, port_line 5000]) = Some (q2, w2) \<and>
    db_inv w2 \<and> ud_of w2 = (ud_of (sample_deaf [bob, port_line 5000]))
      (bob \<mapsto> offline (connected (fresh_ud sample_junk bob) 16777343 5000)) \<and>
    pend_of w2 = pend_of (sample_deaf [bob, port_line 5000]) \<and>
    trace w2 = trace (sample_deaf [bob, port_line 5000]) @
      [EvPrint (result_line CONNECT bob SRV_SUCCESS), reply_ev 4 SRV_SUCCESS]"
proof (rule connect_unreachable_keeps)
  show "client_at (sample_deaf [bob, port_line 5000]) 4 [bob, port_line 5000] [] 16777343 40000"
    by (rule sample_deaf_simps) simp
  show "get_u8 ud_status (fresh_ud sample_junk bob) \<noteq> STATUS_CN" by (simp add: srv_defs)
  show "pend_of (sample_deaf [bob, port_line 5000]) bob 1 \<noteq> None" by simp
qed simp_all



text \<open>C10. SEND to a user that is connected and listens, when the variable \<^verbatim>\<open>send_msg_reply\<close>, which nothing
  sets, holds zero. One connection carries the four strings of
  the message to the stored address, nothing becomes pending, the sender gets success and the
  number, and then its own listening thread the second acknowledgement.\<close>

theorem send_delivers_connected:
  assumes "db_inv w" "user_ok s" "user_ok u" "client_at w n [s, u, c] rest ip pt"
    and "length q = sizeof_request" "junk_ok jk" "ud_of w s = Some ms" "ud_of w u = Some m"
    and "get_u8 ud_status m = STATUS_CN" "reachable w m" "jk_send_msg_reply jk = SRV_SUCCESS"
  shows "\<exists>q2 v w2 fd. run_state (srv_send jk (int n) q) w = (q2, w2) \<and>
    w2 = ack_world s (next_msg_id (get_u32 ud_last_msg_id m)) v \<and> db_inv w2 \<and>
    ud_of w2 = (ud_of w)(u \<mapsto> bump m) \<and> pend_of w2 = pend_of w \<and>
    trace v = trace w @ [EvOverflow, EvOverflow] @
      message_events fd m s (next_msg_id (get_u32 ud_last_msg_id m)) (take 255 c) @
      [EvPrint (delivered_line (next_msg_id (get_u32 ud_last_msg_id m)) s u), reply_ev n SRV_SUCCESS,
       id_ev n (next_msg_id (get_u32 ud_last_msg_id m))]"
proof -
  have "get_u8 ud_status m \<noteq> STATUS_DCN" using assms(9) by (simp add: srv_defs)
  note run = run_send_connected(1) [OF assms(1-8) this assms(11,9,10)]
  show ?thesis
    by (intro exI conjI, rule run, rule refl)
      (use run_send_known [OF assms(1-8)] in simp_all)
qed

lemma send_delivers_connected_witness:
  "\<exists>q2 v w2 fd. run_state (srv_send sample_junk (int 4) sample_request) (sample_online [alice, bob, ''hello'']) = (q2, w2) \<and>
    w2 = ack_world alice (next_msg_id (get_u32 ud_last_msg_id bob_online)) v \<and> db_inv w2 \<and>
    ud_of w2 = (ud_of (sample_online [alice, bob, ''hello'']))(bob \<mapsto> bump bob_online) \<and>
    pend_of w2 = pend_of (sample_online [alice, bob, ''hello'']) \<and>
    trace v = trace (sample_online [alice, bob, ''hello'']) @ [EvOverflow, EvOverflow] @
      message_events fd bob_online alice (next_msg_id (get_u32 ud_last_msg_id bob_online)) (take 255 ''hello'') @
      [EvPrint (delivered_line (next_msg_id (get_u32 ud_last_msg_id bob_online)) alice bob), reply_ev 4 SRV_SUCCESS,
       id_ev 4 (next_msg_id (get_u32 ud_last_msg_id bob_online))]"
proof (rule send_delivers_connected)
  show "client_at (sample_online [alice, bob, ''hello'']) 4 [alice, bob, ''hello''] [] 16777343 40000"
    by (rule sample_online_client) simp
qed simp_all

text \<open>C11. SEND where the sender or the recipient is not registered: the reply is
  \<^verbatim>\<open>SRV_ERR_SEND_USR_NOT_EXISTS\<close> and the database is as it was.\<close>

theorem send_unknown_refused:
  assumes "db_inv w" "user_ok s" "user_ok u" "client_at w n [s, u, c] rest ip pt"
    and "length q = sizeof_request" "junk_ok jk" "ud_of w s = None \<or> ud_of w u = None"
  shows "\<exists>q2 w2. run_state (srv_send jk (int n) q) w = (q2, w2) \<and> db_inv w2 \<and> fs w2 = fs w \<and>
    trace w2 = trace w @ [EvOverflow, EvOverflow, reply_ev n SRV_ERR_SEND_USR_NOT_EXISTS]"
  using run_send_unknown [OF assms] assms(1) by (auto simp: send_start_def) (simp add: received_def)

lemma send_unknown_refused_witness:
  "\<exists>q2 w2. run_state (srv_send sample_junk (int 4) sample_request) (sample_world [alice, bob, ''hello'']) = (q2, w2) \<and>
    db_inv w2 \<and> fs w2 = fs (sample_world [alice, bob, ''hello'']) \<and>
    trace w2 = trace (sample_world [alice, bob, ''hello'']) @
      [EvOverflow, EvOverflow, reply_ev 4 SRV_ERR_SEND_USR_NOT_EXISTS]"
proof (rule send_unknown_refused)
  show "client_at (sample_world [alice, bob, ''hello'']) 4 [alice, bob, ''hello''] [] 16777343 40000"
    by (rule sample_client(1)) simp
qed simp_all

text \<open>C12. UNREGISTER of a registered user: success, the user's data and every pending message are
  gone, and the data and messages of every other user are untouched.\<close>

theorem unregister_removes_all:
  assumes "db_inv w" "user_ok u" "client_at w n [u] rest ip pt" "length q = sizeof_request"
    and "ud_of w u = Some m"
  shows "\<exists>q2 w2. run_state (srv_unregister (int n) q) w = (q2, w2) \<and> db_inv w2 \<and>
    ud_of w2 = (ud_of w)(u := None) \<and> pend_of w2 = (pend_of w)(u := (\<lambda>_. None)) \<and>
    trace w2 = trace w @ [EvOverflow, EvPrint (result_line UNREGISTER u SRV_SUCCESS), reply_ev n SRV_SUCCESS]"
proof -
  let ?v = "received n rest ip pt w"
  have "db_inv (deleted u ?v)" using assms(1,5) by (intro deleted_inv [OF _ assms(2)]) simp_all
  with run_unregister(2) [OF assms] show ?thesis by auto
qed

lemma unregister_removes_all_witness:
  "\<exists>q2 w2. run_state (srv_unregister (int 4) sample_request) (sample_pending [bob]) = (q2, w2) \<and> db_inv w2 \<and>
    ud_of w2 = (ud_of (sample_pending [bob]))(bob := None) \<and>
    pend_of w2 = (pend_of (sample_pending [bob]))(bob := (\<lambda>_. None)) \<and>
    trace w2 = trace (sample_pending [bob]) @
      [EvOverflow, EvPrint (result_line UNREGISTER bob SRV_SUCCESS), reply_ev 4 SRV_SUCCESS]"
proof (rule unregister_removes_all)
  show "client_at (sample_pending [bob]) 4 [bob] [] 16777343 40000"
    by (rule sample_pending_client) simp
qed simp_all

text \<open>C13. Recursive removal is exact: from a consistent tree whose paths are short enough to open,
  the result is 0, the tree at and below the path is gone with its name in the parent, and
  every other file and directory is as it was, whatever the order \<^verbatim>\<open>readdir\<close> gives.\<close>

theorem removal_is_exact:
  assumes "rm_ready s w" "fs w (cwd w @ split_slash s) = Some x"
  shows "\<exists>e. remove_recursive s w = (0, w\<lparr>fs := prune (cwd w @ split_slash s) (fs w), err_no := e\<rparr>)"
  using remove_effect(1) [OF assms] by blast

lemma removal_is_exact_witness:
  "\<exists>e. remove_recursive (user_table_str bob) (sample_pending []) = (0, (sample_pending [])
    \<lparr>fs := prune (cwd (sample_pending []) @ split_slash (user_table_str bob)) (fs (sample_pending [])), err_no := e\<rparr>)"
proof -
  have s: "cwd (sample_pending []) @ split_slash (user_table_str bob) = tbl_path (sample_pending []) bob"
    by (simp add: split_user_table tbl_path_def)
  have ud: "ud_of (sample_pending []) bob = Some (fresh_ud sample_junk bob)" by simp
  have "rm_ready (user_table_str bob) (sample_pending [])"
    using table_fits [OF sample_pending_inv(1) sample_users(2) ud] db_inv_ready [OF sample_pending_inv(1) [of "[]"]]
      db_paths_plain(2) [OF sample_users(2)] by (simp add: rm_ready_def db_ready_def s)
  moreover obtain ns where "fs (sample_pending []) (tbl_path (sample_pending []) bob) = Some (Dir ns)"
    using ud_ofD(4) [OF sample_pending_inv(1) sample_users(2) ud] by blast
  ultimately show ?thesis by (intro removal_is_exact [where x = "Dir ns"]) (simp_all add: s)
qed

text \<open>C14. REGISTER: a new name gets user data with message number 0 and no pending messages, and
  the reply is success; a name that is taken is refused with 1 and its data and messages stay.\<close>

theorem register_outcome:
  assumes "db_inv w" "user_ok u" "client_at w n [u] rest ip pt" "length q = sizeof_request" "junk_ok jk"
  shows "\<exists>q2 w2 r. run_state (srv_register jk (int n) q) w = (q2, w2) \<and> db_inv w2 \<and>
    pend_of w2 = pend_of w \<and> trace w2 = trace w @ [EvPrint (result_line REGISTER u r), reply_ev n r] \<and>
    (if ud_of w u = None
     then r = SRV_SUCCESS \<and> ud_of w2 = (ud_of w)(u \<mapsto> fresh_ud jk u) \<and> pend_of w2 u = (\<lambda>_. None)
     else r = SRV_ERR_REG_USR_ALREADY_REG \<and> ud_of w2 = ud_of w)"
proof (cases "ud_of w u")
  case None
  let ?v = "received n rest ip pt w"
  have v: "db_inv ?v" "ud_of ?v u = None" using assms(1) None by simp_all
  note c = created_of [OF v(1) assms(2) v(2)]
  from c(3) have "pend_of w u = (\<lambda>_. None)" by simp
  with c(1,2) None created_new(2) [OF v(1) assms(2) v(2) assms(5)] run_register(1) [OF assms None] show ?thesis
    by auto
next
  case (Some m)
  with run_register(2) [OF assms Some] assms(1) show ?thesis
    by auto
qed

lemma register_outcome_witness:
  "\<exists>q2 w2 r. run_state (srv_register sample_junk (int 4) sample_request) (sample_db [bob]) = (q2, w2) \<and> db_inv w2 \<and>
    pend_of w2 = pend_of (sample_db [bob]) \<and>
    trace w2 = trace (sample_db [bob]) @ [EvPrint (result_line REGISTER bob r), reply_ev 4 r] \<and>
    (if ud_of (sample_db [bob]) bob = None
     then r = SRV_SUCCESS \<and> ud_of w2 = (ud_of (sample_db [bob]))(bob \<mapsto> fresh_ud sample_junk bob) \<and>
       pend_of w2 bob = (\<lambda>_. None)
     else r = SRV_ERR_REG_USR_ALREADY_REG \<and> ud_of w2 = ud_of (sample_db [bob]))"
proof (rule register_outcome)
  show "client_at (sample_db [bob]) 4 [bob] [] 16777343 40000" by (rule sample_client(2)) simp
qed simp_all

text \<open>C15. Faults stay with the user. Whatever fails and whatever is transferred only in part, an operation
  of the database for \<open>u\<close> changes nothing outside the table of \<open>u\<close> but the directory that lists it:
  creating, removing and testing the table, and reading, creating, modifying and deleting an
  entry, also one that is not an entry of a table yet. In particular the accounts and the pending
  messages of every other user stay. The name must have no slash (with one, the table is
  elsewhere), \<^verbatim>\<open>readdir\<close> may list in any order.\<close>

theorem faults_stay_with_user:
  assumes "SLASH \<notin> set u" "cstr en_username e = u" "wf_fs (fs w)" "posix_order (dir_order w)"
    and "w' \<in> {snd (run_state (db_io_op_usr_ent e c) w), snd (run_state (db_get_pend_msg e) w),
      snd (run_state (db_creat_usr_tbl e) w), snd (run_state (db_del_usr_tbl u) w),
      snd (run_state (db_user_exists u) w)}"
  shows "(\<forall>p. \<not> prefix (tbl_path w u) p \<and> p \<noteq> cwd w @ [DB_DIR] \<longrightarrow> fs w' p = fs w p) \<and>
    (\<forall>v i. v \<noteq> u \<longrightarrow> ud_of w' v = ud_of w v \<and> pend_of w' v i = pend_of w v i)"
proof -
  have "elsewhere w u w'"
    using assms(5) stays_inD [OF stays_db_io [of e w c], of w] stays_inD [OF stays_db_del_usr_tbl [of u w], of w]
      stays_runD [OF stays_db_get_pend_msg [of w u e], of w] stays_runD [OF stays_db_user_exists [of w u u], of w]
      stays_runD [OF stays_db_creat_usr_tbl [of e w], of w] assms(1-4) elsewhere_refl [of w u]
    by auto
  then show ?thesis using elsewhere_users by (auto simp: elsewhere_def)
qed

lemma faults_stay_with_user_witness:
  "\<exists>w'. w' = snd (run_state (db_del_usr_tbl bob) ((sample_db [])\<lparr>orc := [Full, Fail EINTR]\<rparr>)) \<and>
    ud_of w' alice = Some (fresh_ud sample_junk alice)"
proof -
  let ?w = "(sample_db [])\<lparr>orc := [Full, Fail EINTR]\<rparr>"
  let ?w' = "snd (run_state (db_del_usr_tbl bob) ?w)"
  have "cstr en_username bob_online = bob" using bob_online_ok(1) by (simp add: ud_ok_def)
  moreover have "wf_fs (fs ?w)" "posix_order (dir_order ?w)"
    using sample_db_inv [of "[]"] by (simp_all add: db_inv_def db_ready_def)
  moreover have "SLASH \<notin> set bob" using sample_users(2) by (simp add: user_ok_def)
  ultimately have "ud_of ?w' alice = ud_of ?w alice"
    using faults_stay_with_user [of bob bob_online ?w ?w' READ] by simp
  moreover have "ud_of ?w alice = ud_of (sample_db []) alice" unfolding ud_of_def path_defs by simp
  ultimately show ?thesis by simp
qed

text \<open>C16. Clients do not disturb each other. Whatever a client sends, whatever fails, and whatever the
  uninitialised variables hold: serving it, without calls of other threads in between, leaves
  every other open descriptor as it is, open and with its unread input, and no event of the trace
  concerns it: nothing was written to it, and it was not closed or connected. The \<^verbatim>\<open>request\<close>
  variable of the thread keeps its size. (With another thread in between it can come otherwise:
  see Defects.)\<close>

theorem other_clients_untouched:
  assumes "serve_connection jk sd q w = Some (q2, w2)" "length q = sizeof_request"
    and "sd \<noteq> int k" "map_of (fds w) k = Some d"
  shows "map_of (fds w2) k = Some d \<and> filter (event_of k) (trace w2) = filter (event_of k) (trace w) \<and>
    length q2 = sizeof_request"
  using serve_connection_spares [OF assms(1,3), of "(d, filter (event_of k) (trace w))"]
    serve_connection_size [OF assms(1)] assms(2,4)
  by (simp add: holds_def req_size_def)

lemma other_clients_untouched_witness:
  "\<exists>n w1 q2 w2. n \<noteq> 4 \<and> serve_connection sample_junk (int n) sample_request w1 = Some (q2, w2) \<and>
    map_of (fds w2) 4 = Some (DSock (SEND @ [NUL]) 16777343 40000) \<and>
    filter (event_of 4) (trace w2) = filter (event_of 4) (trace w1) \<and> length q2 = sizeof_request"
proof -
  let ?r = "Send alice bob ''hello''" and ?w = "sample_db [SEND]" and ?d = "DSock (SEND @ [NUL]) 16777343 40000"
  obtain n w1 q2 w2 where s: "n \<noteq> 4" "map_of (fds w1) 4 = Some ?d"
    "serve_connection sample_junk (int n) sample_request w1 = Some (q2, w2)"
    using sample_two_clients by blast
  from s(1) have "int n \<noteq> int 4" by simp
  from other_clients_untouched [OF s(3) _ this s(2)] s(1,3) show ?thesis by auto
qed

text \<open>C17. The first start: with good arguments and no database directory, \<^verbatim>\<open>main\<close> reaches its
  listening socket, and the database is in order and empty.\<close>

theorem start_creates_database:
  assumes "server_dir_ok w" "fs w (cwd w @ [DB_DIR]) = None"
  shows "\<exists>n w2. run_state (main_start (argv_of pt)) w = (Inr (int n, ucast pt), w2) \<and> db_inv w2 \<and>
    map_of (fds w2) n = Some DNew \<and> chat_of w2 = (\<lambda>_. None, \<lambda>_ _. None)"
  using start_fresh [OF assms] by blast

lemma start_creates_database_witness:
  "\<exists>n w2. run_state (main_start (argv_of 8080)) (empty_world) = (Inr (int n, ucast (8080 :: u16)), w2) \<and> db_inv w2 \<and>
    map_of (fds w2) n = Some DNew \<and> chat_of w2 = (\<lambda>_. None, \<lambda>_ _. None)"
  by (rule start_creates_database) (rule empty_world_ok)+

text \<open>C18. A restart: over a database in order, \<^verbatim>\<open>main\<close> reaches its listening socket and every
  account and pending message is still there.\<close>

theorem restart_keeps_database:
  assumes "db_inv w"
  shows "\<exists>n w2. run_state (main_start (argv_of pt)) w = (Inr (int n, ucast pt), w2) \<and> db_inv w2 \<and>
    chat_of w2 = chat_of w"
  using start_again [OF assms] by blast

lemma restart_keeps_database_witness:
  "\<exists>n w2. run_state (main_start (argv_of 8080)) (sample_pending []) = (Inr (int n, ucast (8080 :: u16)), w2) \<and>
    db_inv w2 \<and> chat_of w2 = chat_of (sample_pending [])"
  by (rule restart_keeps_database) simp

text \<open>C19. No entry path overflows its buffer: whatever user name, type and message number an entry
  holds, the path with its terminating zero is no longer than \<^verbatim>\<open>entry_len\<close>.\<close>

theorem entry_paths_fit:
  "length (entry_path_str e) + 1 \<le> entry_len e"
  using entry_path_fits [of e] by simp

text \<open>C20. \<^verbatim>\<open>db_user_exists\<close> declares its path buffer one byte too small: every call, for any name
  and under any faults, writes the terminating zero behind it.\<close>

theorem user_test_overflows:
  "\<exists>tr. trace (snd (run_state (db_user_exists u) w)) = trace w @ EvOverflow # tr"
proof -
  have "\<exists>m. db_user_exists u = do { emit EvOverflow; m } \<and> state_io_rel trace_rel m"
    by (rule user_exists_shape)
  then obtain m where m: "db_user_exists u = do { emit EvOverflow; m }" "state_io_rel trace_rel m" by blast
  let ?w = "w\<lparr>trace := trace w @ [EvOverflow]\<rparr>"
  have "trace_rel ?w (snd (run_state m ?w))" by (rule trace_os.sat_snd [OF m(2)])
  then obtain tr where "trace (snd (run_state m ?w)) = trace ?w @ tr"
    unfolding trace_rel_def by (metis append_take_drop_id)
  then show ?thesis by (simp add: m(1) run_emit)
qed

text \<open>C21. At most one thread is in its critical section, whatever the schedule, the arrivals and the
  spurious wake-ups.\<close>

theorem mutual_exclusion:
  assumes "step\<^sup>*\<^sup>* srv_init s"
  shows "(m_crit (main_pc s) \<longrightarrow> (\<forall>p\<in>set (workers s). \<not> w_crit p)) \<and>
    (\<forall>i j. i < length (workers s) \<longrightarrow> j < length (workers s) \<longrightarrow> i \<noteq> j \<longrightarrow>
       w_crit (workers s ! i) \<longrightarrow> \<not> w_crit (workers s ! j))"
proof -
  have inv: "inv_mutex s" using ts.inv_reachable [OF assms] by (simp add: srv_inv_def)
  then show ?thesis using crit_main [OF inv] inv_mutexD(3) [OF inv] by blast
qed

lemma mutual_exclusion_witness:
  "w_crit (workers locked ! 0) \<and> \<not> w_crit (workers locked ! 1) \<and> \<not> m_crit (main_pc locked)"
  using mutual_exclusion [OF locked_reachable] by (auto simp: locked_def)

text \<open>C22. The connection queue never runs over or under: the positions stay in the array, the main
  thread adds only while there is room, a service thread takes only while there is something.\<close>

theorem queue_in_bounds:
  assumes "step\<^sup>*\<^sup>* srv_init s"
  shows "length (conn_q (queue s)) = MAX_CONN_BACKLOG \<and> conn_q_size (queue s) \<le> MAX_CONN_BACKLOG \<and>
    service_th_pos (queue s) < MAX_CONN_BACKLOG \<and> producer_pos (queue s) < MAX_CONN_BACKLOG \<and>
    (\<forall>sd. main_pc s = M_Enq sd \<longrightarrow> conn_q_size (queue s) < MAX_CONN_BACKLOG) \<and>
    (W_Deq \<in> set (workers s) \<longrightarrow> 0 < conn_q_size (queue s))"
proof -
  have inv: "inv_queue s" using ts.inv_reachable [OF assms] by (simp add: srv_inv_def)
  then have "producer_pos (queue s) < MAX_CONN_BACKLOG"
    by (simp add: inv_queue_def connq_ok_def MAX_CONN_BACKLOG_def)
  with inv show ?thesis by (auto simp: inv_queue_def connq_ok_def)
qed

lemma queue_in_bounds_witness:
  "length (conn_q (queue stalled)) = MAX_CONN_BACKLOG \<and> conn_q_size (queue stalled) \<le> MAX_CONN_BACKLOG \<and>
    service_th_pos (queue stalled) < MAX_CONN_BACKLOG \<and> producer_pos (queue stalled) < MAX_CONN_BACKLOG"
  using queue_in_bounds [OF stalled_reachable] by blast

text \<open>C23. No connection is lost, served twice or overtaken in the queue: the connections accepted
  so far are those taken out, those in the buffer, and the one the main thread holds, in
  order; and those taken out have been served or are held by one service thread each.\<close>

theorem connections_in_order:
  assumes "step\<^sup>*\<^sup>* srv_init s"
  shows "accepted s = taken s @ backlog (queue s) @ m_hand (main_pc s) \<and>
    mset (taken s) = mset (served s) + hands (workers s)"
  using ts.inv_reachable [OF assms] by (simp add: srv_inv_def inv_fifo_def served_hands)

lemma connections_in_order_witness:
  "accepted stalled = taken stalled @ backlog (queue stalled) @ m_hand (main_pc stalled) \<and>
    mset (taken stalled) = mset (served stalled) + hands (workers stalled)"
  by (rule connections_in_order [OF stalled_reachable])

text \<open>C24. No wake-up is lost for good: while connections wait, some service thread is awake or about
  to be woken; and the main thread sleeps only while the queue is full or a service thread is
  about to signal it.\<close>

theorem wakeups_not_lost:
  assumes "step\<^sup>*\<^sup>* srv_init s"
  shows "(0 < conn_q_size (queue s) \<longrightarrow> set (workers s) \<noteq> {W_Wait} \<or> main_pc s = M_Signal) \<and>
    (\<forall>c. main_pc s = M_Wait c \<longrightarrow> conn_q_size (queue s) = MAX_CONN_BACKLOG \<or> (\<exists>c'. W_Signal c' \<in> set (workers s)))"
proof -
  have "inv_awake s" "inv_main_wait s" using ts.inv_reachable [OF assms] by (simp_all add: srv_inv_def)
  then show ?thesis unfolding inv_awake_def inv_main_wait_def by blast
qed

lemma wakeups_not_lost_witness:
  "0 < conn_q_size (queue stalled) \<and> set (workers stalled) \<noteq> {W_Wait}"
proof -
  have "0 < conn_q_size (queue stalled)" "main_pc stalled \<noteq> M_Signal" by (simp_all add: stalled_def)
  then show ?thesis using wakeups_not_lost [OF stalled_reachable] by blast
qed

text \<open>C25. Every accepted connection is served, provided that serving one ends: from every reachable
  state the threads come to rest by steps of their own, and whenever they are at rest each
  connection accepted has been served once.\<close>

theorem all_connections_served:
  assumes "step\<^sup>*\<^sup>* srv_init s"
  shows "(\<exists>s'. work\<^sup>*\<^sup>* s s' \<and> (\<forall>t. \<not> work s' t)) \<and>
    (\<forall>s'. work\<^sup>*\<^sup>* s s' \<and> (\<forall>t. \<not> work s' t) \<longrightarrow>
       taken s' = accepted s \<and> mset (served s') = mset (accepted s))"
proof (intro conjI allI impI)
  have inv: "srv_inv s" by (rule ts.inv_reachable [OF assms])
  show "\<exists>s'. work\<^sup>*\<^sup>* s s' \<and> (\<forall>t. \<not> work s' t)" using tw.comes_to_rest [OF inv] by blast
  fix s'
  assume s': "work\<^sup>*\<^sup>* s s' \<and> (\<forall>t. \<not> work s' t)"
  then have "srv_inv s'" "accepted s' = accepted s"
    using ts.inv_steps [OF tw.work_steps inv] works_accepted by blast+
  with rest_all_served [of s'] s' show "taken s' = accepted s" "mset (served s') = mset (accepted s)" by simp_all
qed

lemma all_connections_served_witness:
  "\<exists>s'. work\<^sup>*\<^sup>* stalled s' \<and> taken s' = accepted stalled \<and> mset (served s') = mset (accepted stalled)"
  using all_connections_served [OF stalled_reachable] by blast

text \<open>C26. No schedule keeps the threads busy for nothing: between two events from outside they take
  at most 136 steps.\<close>

theorem own_steps_bounded:
  assumes "step\<^sup>*\<^sup>* srv_init s" "(work ^^ n) s s'"
  shows "n \<le> 136"
  using tw.work_bound [OF assms(2) ts.inv_reachable [OF assms(1)]] work_left_le [OF ts.inv_reachable [OF assms(1)]]
  by simp

lemma own_steps_bounded_witness:
  "(work ^^ 1) stalled (stalled\<lparr>workers := (workers stalled)[0 := W_Lock], served := served stalled @ [7]\<rparr>) \<and>
   (1::nat) \<le> 136"
proof -
  have "work stalled (stalled\<lparr>workers := (workers stalled)[0 := W_Lock], served := served stalled @ [7]\<rparr>)"
    by (rule work.w_done) (simp add: stalled_def)
  then have w: "(work ^^ 1) stalled (stalled\<lparr>workers := (workers stalled)[0 := W_Lock], served := served stalled @ [7]\<rparr>)"
    by (simp only: relpowp_1)
  from own_steps_bounded [OF stalled_reachable w] w show ?thesis by simp
qed

text \<open>C27. The circular buffer is a queue: over every run of additions and removals that keeps within
  its bounds, what was taken out and what is left is what was there and what was added, in order.\<close>

theorem buffer_is_fifo:
  assumes "connq_ok q" "q_legal MAX_CONN_BACKLOG (length (backlog q)) ops" "q_run enqueue dequeue ops q = (xs, q')"
  shows "connq_ok q' \<and> xs @ backlog q' = backlog q @ q_inputs ops"
  by (rule cq.run_fifo [OF assms])

lemma buffer_is_fifo_witness:
  "connq_ok (snd (q_run enqueue dequeue [Enq 7, Enq 8, Deq] conn_q_init)) \<and>
   fst (q_run enqueue dequeue [Enq 7, Enq 8, Deq] conn_q_init) @
     backlog (snd (q_run enqueue dequeue [Enq 7, Enq 8, Deq] conn_q_init)) =
   backlog conn_q_init @ q_inputs [Enq 7, Enq 8, Deq]"
  by (rule buffer_is_fifo) (simp_all add: MAX_CONN_BACKLOG_def del: q_run.simps)

text \<open>C28. A second connection can wait for the first although four service threads are idle: the main
  thread signals only when the queue grows from empty, so two connections that arrive before
  the woken thread runs wake one thread.\<close>

theorem idle_threads_stall:
  "\<exists>s s2. step\<^sup>*\<^sup>* srv_init s \<and> backlog (queue s) = [8] \<and> workers s = [W_Serve 7, W_Wait, W_Wait, W_Wait, W_Wait] \<and>
    main_pc s = M_Accept \<and> Collect (work s) = {s2} \<and> served s2 = [7]"
proof (intro exI conjI)
  let ?s2 = "stalled\<lparr>workers := [W_Lock, W_Wait, W_Wait, W_Wait, W_Wait], served := [7]\<rparr>"
  show "step\<^sup>*\<^sup>* srv_init stalled" by (rule stalled_reachable)
  show "Collect (work stalled) = {?s2}" using stalled_work stalled_done by blast
qed (simp_all add: stalled_def backlog_def MAX_CONN_BACKLOG_def)



text \<open>C30. Receiving a line does not depend on how it arrives: with interrupts and short reads in any
  pattern, the result, the buffer and what is left to read are a function of the peer's bytes,
  the end of the stream within or before the line included.\<close>

theorem recv_line_of_input:
  assumes "map_of (fds w) n = Some (DSock inp ip pt)" "interrupts_only w" "off + MAX_MSG_SIZE \<le> length m"
  shows "\<exists>w'. run_state (recv_string (int n) off m) w = ((0, snd (line_result 0 inp off MAX_MSG_SIZE m)), w') \<and>
    map_of (fds w') n = Some (DSock (line_rest inp) ip pt)"
  using recv_string_result [OF assms] by blast

lemma recv_line_of_input_witness:
  "\<exists>w'. run_state (recv_string (int 4) 0 sample_request) ((sample_world [alice, bob])\<lparr>orc := [Fail EINTR, Full, Fail EINTR]\<rparr>) =
      ((0, snd (line_result 0 (alice @ NUL # bob @ [NUL]) 0 MAX_MSG_SIZE sample_request)), w') \<and>
    map_of (fds w') 4 = Some (DSock (line_rest (alice @ NUL # bob @ [NUL])) 16777343 40000)"
  by (rule recv_line_of_input) (simp_all add: interrupts_only_def sizeof_request_def MAX_MSG_SIZE_def)

text \<open>C31. A string without zero and line feed that is sent is the string received: whatever bytes a successful \<^verbatim>\<open>send_string\<close> put out,
  \<^verbatim>\<open>recv_string\<close> stores from them the string, cut to 255 characters, and leaves what follows.\<close>

theorem string_round_trip:
  assumes "run_state (send_string (int n) s) w = (0, w')" "sock n w" "wire_string s"
    and "map_of (fds v) k = Some (DSock (sent n (drop (length (trace w)) (trace w')) @ rest) ip pt)"
    and "interrupts_only v" "off + MAX_MSG_SIZE \<le> length m"
  shows "\<exists>v'. run_state (recv_string (int k) off m) v = ((0, strcpy off (take 255 s) m), v') \<and>
    cstr off (strcpy off (take 255 s) m) = take 255 s \<and> map_of (fds v') k = Some (DSock rest ip pt)"
proof -
  have "sent n (drop (length (trace w)) (trace w')) = s @ [NUL]"
    using send_string_all [OF assms(1,2)] by (auto simp: err_defs)
  then have "map_of (fds v) k = Some (DSock (s @ NUL # rest) ip pt)" using assms(4) by simp
  from recv_string_result [OF this assms(5,6)] line_result_wire [OF assms(3,6), of rest]
  obtain v' where "run_state (recv_string (int k) off m) v = ((0, strcpy off (take 255 s) m), v')"
    "map_of (fds v') k = Some (DSock rest ip pt)" by auto
  moreover have "c_string (take 255 s)"
    using assms(3) by (auto simp: wire_string_def c_string_def dest: in_set_takeD)
  then have "cstr off (strcpy off (take 255 s) m) = take 255 s"
    using assms(6) by (intro cstr_strcpy_same) (simp_all add: MAX_MSG_SIZE_def)
  ultimately show ?thesis by blast
qed

lemma string_round_trip_witness:
  "\<exists>v'. run_state (recv_string (int 4) 0 sample_request) (sample_world [alice]) =
      ((0, strcpy 0 (take 255 alice) sample_request), v') \<and>
    cstr 0 (strcpy 0 (take 255 alice) sample_request) = take 255 alice \<and>
    map_of (fds v') 4 = Some (DSock [] 16777343 40000)"
proof (rule string_round_trip)
  show "run_state (send_string (int 4) alice) (sample_world []) =
      (0, (sample_world [])\<lparr>trace := trace (sample_world []) @ [EvSend 4 (alice @ [NUL])]\<rparr>)"
    by (rule run_send_string) (simp_all add: quiet_def sample_orc)
qed (simp_all add: sock_def interrupts_only_def sample_orc sizeof_request_def MAX_MSG_SIZE_def)

text \<open>C32. A received string stays in its member: for any input, of any length, and any faults, the
  structure keeps its size and its bytes before and behind the member's 256.\<close>

theorem received_stays_in_buffer:
  assumes "run_state (recv_string d off m) w = ((r, m'), w')" "off + MAX_MSG_SIZE \<le> length m"
  shows "length m' = length m \<and> take off m' = take off m \<and> drop (off + MAX_MSG_SIZE) m' = drop (off + MAX_MSG_SIZE) m"
  using recv_string_inside [OF assms] by (simp add: same_outside_def)

lemma received_stays_in_buffer_witness:
  "\<exists>r m' w'. run_state (recv_string 4 rq_username sample_request) (sample_world [replicate 1000 (CHR ''x'')]) = ((r, m'), w') \<and>
    length m' = length sample_request"
proof (intro exI conjI)
  let ?x = "run_state (recv_string 4 rq_username sample_request) (sample_world [replicate 1000 (CHR ''x'')])"
  show x: "?x = ((fst (fst ?x), snd (fst ?x)), snd ?x)" by simp
  show "length (snd (fst ?x)) = length sample_request"
    using received_stays_in_buffer [OF x] by simp
qed

text \<open>C33. Message numbers count modulo \<^verbatim>\<open>MSG_ID_MAX_VALUE\<close>, and no number comes twice within that
  many messages to one recipient.\<close>

theorem msg_ids_distinct:
  assumes "unat v < MSG_ID_MAX_VALUE"
  shows "unat (next_msg_id v) = (unat v + 1) mod MSG_ID_MAX_VALUE \<and>
    (\<forall>j k. j < MSG_ID_MAX_VALUE \<longrightarrow> k < MSG_ID_MAX_VALUE \<longrightarrow> (next_msg_id ^^ j) v = (next_msg_id ^^ k) v \<longrightarrow> j = k)"
  using next_msg_id_step [OF assms] next_msg_id_distinct [OF assms] by blast

lemma msg_ids_distinct_witness:
  "unat (next_msg_id 4294967294) = (unat (4294967294 :: u32) + 1) mod MSG_ID_MAX_VALUE \<and>
    (next_msg_id ^^ 1) 4294967294 \<noteq> (next_msg_id ^^ 2) 4294967294"
proof -
  have v: "unat (4294967294 :: u32) < MSG_ID_MAX_VALUE" "1 < MSG_ID_MAX_VALUE" "2 < MSG_ID_MAX_VALUE"
    by (simp_all add: MSG_ID_MAX_VALUE_def)
  show ?thesis using msg_ids_distinct [OF v(1)] v(2,3) by (metis numeral_eq_one_iff semiring_norm(83) semiring_norm(85))
qed

text \<open>C34. Entries written are the entries read: user data after MODIFY and a message after CREATE
  come back from READ byte for byte, whatever else the buffer of the query holds.\<close>

theorem entry_round_trip:
  assumes "db_inv w" "user_ok u" "ud_of w u = Some m" "ud_ok u e" "ud_ok u e'"
    and "msg_ok u i d" "msg_key u i d'" "pend_of w u i = None"
  shows "(\<exists>w1. run_state (db_io_op_usr_ent e MODIFY) w = ((DBMS_SUCCESS, e), w1) \<and>
      run_state (db_io_op_usr_ent e' READ) w1 = ((DBMS_SUCCESS, e), w1)) \<and>
    (\<exists>w1. run_state (db_io_op_usr_ent d CREATE) w = ((DBMS_SUCCESS, d), w1) \<and>
      run_state (db_io_op_usr_ent d' READ) w1 = ((DBMS_SUCCESS, d), w1))"
proof (rule conjI)
  show "\<exists>w1. run_state (db_io_op_usr_ent e MODIFY) w = ((DBMS_SUCCESS, e), w1) \<and>
      run_state (db_io_op_usr_ent e' READ) w1 = ((DBMS_SUCCESS, e), w1)"
    using run_modify_ud [OF assms(1-4)] run_read_ud [OF put_ud_inv [OF assms(1-4)] assms(2) _ assms(5)] by simp
  show "\<exists>w1. run_state (db_io_op_usr_ent d CREATE) w = ((DBMS_SUCCESS, d), w1) \<and>
      run_state (db_io_op_usr_ent d' READ) w1 = ((DBMS_SUCCESS, d), w1)"
    using run_create_msg [OF assms(1-3) msg_ok_key [OF assms(6)]] assms(3,8)
      run_read_msg [OF add_msg_inv [OF assms(1-3,6,8)] assms(2) _ assms(7), of m d] by simp
qed

lemma entry_round_trip_witness:
  "(\<exists>w1. run_state (db_io_op_usr_ent bob_online MODIFY) (sample_db []) = ((DBMS_SUCCESS, bob_online), w1) \<and>
      run_state (db_io_op_usr_ent bob_odd READ) w1 = ((DBMS_SUCCESS, bob_online), w1)) \<and>
    (\<exists>w1. run_state (db_io_op_usr_ent hello CREATE) (sample_db []) = ((DBMS_SUCCESS, hello), w1) \<and>
      run_state (db_io_op_usr_ent hello READ) w1 = ((DBMS_SUCCESS, hello), w1))"
proof (rule entry_round_trip)
  show "msg_key bob 1 hello" by (rule msg_ok_key) simp
qed simp_all

text \<open>C35. A connection that ends before its first byte is not an error for \<^verbatim>\<open>recv_string\<close>, and the
  memory of the request is that of the client before: if it asked to unregister a user that
  exists (again), the empty connection removes the user.\<close>

theorem eof_repeats_request:
  assumes "db_inv w" "user_ok u" "ud_of w u = Some m" "map_of (fds w) n = Some (DSock [] ip pt)"
    and "cstr rq_op_code q = UNREGISTER" "cstr rq_username q = u"
  shows "\<exists>w2. serve_connection jk (int n) q w = Some (q, w2) \<and> db_inv w2 \<and> ud_of w2 = (ud_of w)(u := None)"
  by (rule eof_unregisters [OF assms])

lemma eof_repeats_request_witness:
  "\<exists>w2. serve_connection sample_junk (int 4) left_request (sample_db []) = Some (left_request, w2) \<and> db_inv w2 \<and>
    ud_of w2 = (ud_of (sample_db []))(bob := None)"
  by (rule eof_repeats_request) simp_all



text \<open>C37. A message can be both delivered and kept for delivery: the variable \<^verbatim>\<open>send_msg_reply\<close> is tested but never set;
  if it is not zero, a message that was delivered is stored as pending as well, under its
  number, provided this is free.\<close>

theorem message_stored_twice:
  assumes "db_inv w" "user_ok s" "user_ok u" "client_at w n [s, u, c] rest ip pt"
    and "length q = sizeof_request" "junk_ok jk" "ud_of w s = Some ms" "ud_of w u = Some m"
    and "get_u8 ud_status m = STATUS_CN" "reachable w m" "jk_send_msg_reply jk \<noteq> SRV_SUCCESS"
    and "pend_of w u (next_msg_id (get_u32 ud_last_msg_id m)) = None"
  shows "\<exists>w2 tr tr'. run_state (srv_send jk (int n) q) w = (send_request s u c q, w2) \<and>
    (\<exists>fd. trace w2 = trace w @ tr @
      message_events fd m s (next_msg_id (get_u32 ud_last_msg_id m)) (take 255 c) @ tr') \<and>
    pend_of w2 u (next_msg_id (get_u32 ud_last_msg_id m)) =
      Some (new_msg (jk_msg_entry jk) s u (take 255 c) (next_msg_id (get_u32 ud_last_msg_id m)))"
  by (rule stored_again [OF assms])

lemma message_stored_twice_witness:
  "\<exists>w2 tr tr'. run_state (srv_send busy_junk (int 4) sample_request) (sample_online [alice, bob, ''hello'']) =
      (send_request alice bob ''hello'' sample_request, w2) \<and>
    (\<exists>fd. trace w2 = trace (sample_online [alice, bob, ''hello'']) @ tr @
      message_events fd bob_online alice (next_msg_id (get_u32 ud_last_msg_id bob_online)) (take 255 ''hello'') @ tr') \<and>
    pend_of w2 bob (next_msg_id (get_u32 ud_last_msg_id bob_online)) =
      Some (new_msg (jk_msg_entry busy_junk) alice bob (take 255 ''hello'') (next_msg_id (get_u32 ud_last_msg_id bob_online)))"
proof (rule message_stored_twice)
  show "client_at (sample_online [alice, bob, ''hello'']) 4 [alice, bob, ''hello''] [] 16777343 40000"
    by (rule sample_online_client) simp
qed simp_all

text \<open>C38. REGISTER reports a failure as success: for a user name with a slash in it the database
  cannot make the table, no file changes, and the client is told that it is registered.\<close>

theorem failed_register_succeeds:
  assumes "db_inv w" "wire_string (a @ SLASH # b)" "length (a @ SLASH # b) \<le> 255" "valid_name a"
    and "fs w (cwd w @ [DB_DIR, a]) = None" "client_at w n [a @ SLASH # b] rest ip pt"
    and "length q = sizeof_request" "junk_ok jk"
  shows "\<exists>q2 w2. run_state (srv_register jk (int n) q) w = (q2, w2) \<and> fs w2 = fs w \<and>
    trace w2 = trace w @ [EvPrint (result_line REGISTER (a @ SLASH # b) SRV_SUCCESS), reply_ev n SRV_SUCCESS]"
  by (rule register_hides_failure [OF assms])

lemma failed_register_succeeds_witness:
  "\<exists>q2 w2. run_state (srv_register sample_junk (int 4) sample_request) (sample_world [''a'' @ SLASH # ''b'']) = (q2, w2) \<and>
    fs w2 = fs (sample_world [''a'' @ SLASH # ''b'']) \<and>
    trace w2 = trace (sample_world [''a'' @ SLASH # ''b'']) @
      [EvPrint (result_line REGISTER (''a'' @ SLASH # ''b'') SRV_SUCCESS), reply_ev 4 SRV_SUCCESS]"
proof (rule failed_register_succeeds)
  show "client_at (sample_world [''a'' @ SLASH # ''b'']) 4 [''a'' @ SLASH # ''b''] [] 16777343 40000"
    by (rule sample_client(1)) (simp add: wire_string_def)
  show "fs (sample_world [''a'' @ SLASH # ''b'']) (cwd (sample_world [''a'' @ SLASH # ''b'']) @ [DB_DIR, ''a'']) = None"
    by (simp add: sample_world_def sample_fs_def)
qed (simp_all add: wire_string_def valid_name_def NAME_MAX_def)

text \<open>C39. An account does not survive a failed update: MODIFY empties the file before it writes, so
  if the first write fails, with any error and nothing transferred, the user's data is gone; and
  the descriptor is closed by \<^verbatim>\<open>write_entry\<close> and again by its caller, which fails with \<^verbatim>\<open>EBADF\<close>.\<close>

theorem failed_write_loses_account:
  assumes "db_inv w" "user_ok u" "ud_of w u = Some m" "ud_ok u e"
  shows "\<exists>w2. run_state (db_io_op_usr_ent e MODIFY) (w\<lparr>orc := [Full, Fail err]\<rparr>) = ((DBMS_ERR_ANY, e), w2) \<and>
    fs w2 (ud_path w u) = Some (Reg []) \<and> err_no w2 = Some EBADF"
  by (rule modify_loses_account [OF assms])

lemma failed_write_loses_account_witness:
  "\<exists>w2. run_state (db_io_op_usr_ent bob_online MODIFY) ((sample_db [])\<lparr>orc := [Full, Fail EINTR]\<rparr>) = ((DBMS_ERR_ANY, bob_online), w2) \<and>
    fs w2 (ud_path (sample_db []) bob) = Some (Reg []) \<and> err_no w2 = Some EBADF"
  by (rule failed_write_loses_account) simp_all

text \<open>C40. A failed update can cut off a stranger. \<^verbatim>\<open>write_entry\<close> closes the descriptor when the write
  fails, and \<^verbatim>\<open>db_io_op_usr_ent\<close> closes it once more. \<open>db_io_op_among\<close> is \<^verbatim>\<open>db_io_op_usr_ent\<close> with
  the calls of another thread before its last \<^verbatim>\<open>close\<close>, and the same function without them. If the
  main thread accepts a connection there, the client gets the descriptor of the update, and the
  last \<^verbatim>\<open>close\<close> ends its connection, before anything was read from it. (Only the closing of a
  socket is an event of the trace.)\<close>

theorem double_close_hits_client:
  assumes "db_inv w" "user_ok u" "ud_of w u = Some m" "ud_ok u e"
  shows "do { (r, _) \<leftarrow> db_io_op_among (return ()) e MODIFY; return r } = db_io_op_usr_ent e MODIFY \<and>
    (\<exists>w2. run_state (db_io_op_among (accept_stranger inp ip pt) e MODIFY) (w\<lparr>orc := [Full, Fail err]\<rparr>) =
      (((DBMS_ERR_ANY, e), Some (int (fresh_fd (fds w)), Some (DSock inp ip pt))), w2) \<and>
    map_of (fds w2) (fresh_fd (fds w)) = None \<and> trace w2 = trace w @ [EvClose (fresh_fd (fds w))])"
  using stranger_closed [OF assms] db_io_op_among_alone by blast

lemma double_close_hits_client_witness:
  "do { (r, _) \<leftarrow> db_io_op_among (return ()) bob_online MODIFY; return r } = db_io_op_usr_ent bob_online MODIFY \<and>
    (\<exists>w2. run_state (db_io_op_among (accept_stranger SEND 16777343 40000) bob_online MODIFY)
        ((sample_db [])\<lparr>orc := [Full, Fail EINTR]\<rparr>) =
      (((DBMS_ERR_ANY, bob_online), Some (int (fresh_fd (fds (sample_db []))), Some (DSock SEND 16777343 40000))), w2) \<and>
    map_of (fds w2) (fresh_fd (fds (sample_db []))) = None \<and>
    trace w2 = trace (sample_db []) @ [EvClose (fresh_fd (fds (sample_db [])))])"
  by (rule double_close_hits_client [where u = bob and m = "fresh_ud sample_junk bob"]) simp_all

end
